(* ===== verification/Iip_Prelude.thy ===== *)
theory Iip_Prelude
  imports Main "HOL-Library.Word" "HOL-Library.Signed_Division" "HOL-Library.AList"
begin

text \<open>
  Shared vocabulary of the development: the machine types of the Go program, Go errors as
  values, the sum-type sequencing the models use for early returns, decimal printing (the
  verb d of package fmt), Go dictionaries as association lists, and the generic lemmas and
  locales (decoders of streams, invariants of step relations) that several components use.
\<close>

section \<open>Machine types\<close>

type_synonym byte = "8 word"
type_synonym u32 = "32 word"
type_synonym i64 = "64 word"

text \<open>
  A Go \<open>int64\<close> is a 64 bit word read as two's complement; \<open>+\<close> and \<open>-\<close> wrap. Division
  truncates towards zero.
\<close>

definition quot64 :: "i64 \<Rightarrow> i64 \<Rightarrow> i64" where
  "quot64 a b = word_of_int (sint a sdiv sint b)"

definition rem64 :: "i64 \<Rightarrow> i64 \<Rightarrow> i64" where
  "rem64 a b = word_of_int (sint a smod sint b)"

section \<open>Facts collections\<close>

named_theorems wire_simps \<open>evaluation of the stream readers on known prefixes\<close>
named_theorems conn_simps \<open>what the operations of channels and connections leave alone\<close>

section \<open>Errors and early returns\<close>

text \<open>
  A Go \<open>error\<close> is either one of the package's own \<open>*Error\<close> values (a code and a message) or
  an error with a text only (\<open>fmt.Errorf\<close>, \<open>errors.New\<close>, errors of the standard library).
\<close>

datatype gerr = SysErr nat string | TextErr string

fun errorText :: "gerr \<Rightarrow> string" where
  "errorText (SysErr c msg) = msg"
| "errorText (TextErr msg) = msg"

definition bindE :: "('e + 'a) \<Rightarrow> ('a \<Rightarrow> 'e + 'b) \<Rightarrow> 'e + 'b" where
  "bindE m f = (case m of Inl e \<Rightarrow> Inl e | Inr x \<Rightarrow> f x)"

lemma bindE_simps [simp]:
  "bindE (Inl e) f = Inl e"
  "bindE (Inr x) f = f x"
  by (simp_all add: bindE_def)

lemma bindE_eq_Inr [simp]:
  "bindE m f = Inr y \<longleftrightarrow> (\<exists>x. m = Inr x \<and> f x = Inr y)"
  by (cases m) auto

lemma bindE_eq_Inl:
  "bindE m f = Inl e \<longleftrightarrow> m = Inl e \<or> (\<exists>x. m = Inr x \<and> f x = Inl e)"
  by (cases m) auto

definition isErr :: "'e + 'a \<Rightarrow> bool" where
  "isErr r = (case r of Inl _ \<Rightarrow> True | Inr _ \<Rightarrow> False)"

lemma isErr_simps [simp]: "isErr (Inl e)" "\<not> isErr (Inr x)"
  by (simp_all add: isErr_def)

lemma isErr_iff: "isErr r \<longleftrightarrow> (\<exists>e. r = Inl e)"
  by (cases r) simp_all

section \<open>Bytes and strings\<close>

text \<open>A Go string is a sequence of bytes: a \<open>char list\<close>, one \<open>char\<close> for each byte.\<close>

definition byteOfChar :: "char \<Rightarrow> byte" where
  "byteOfChar c = word_of_nat (of_char c)"

definition charOfByte :: "byte \<Rightarrow> char" where
  "charOfByte b = char_of (unat b)"

lemma charOfByte_byteOfChar [simp]: "charOfByte (byteOfChar c) = c"
proof -
  have "(of_char c :: nat) mod 256 < 256" by (rule mod_less_divisor) simp
  then have "(of_char c :: nat) < 256" by simp
  then have "unat (word_of_nat (of_char c) :: byte) = of_char c"
    by (simp add: unat_of_nat take_bit_eq_mod)
  then show ?thesis by (simp add: charOfByte_def byteOfChar_def)
qed

lemma byteOfChar_charOfByte [simp]: "byteOfChar (charOfByte b) = b"
proof -
  have "unat b < 256" using unsigned_less [of b] by simp
  then show ?thesis by (simp add: charOfByte_def byteOfChar_def)
qed

lemma byteOfChar_inject [simp]: "byteOfChar c = byteOfChar d \<longleftrightarrow> c = d"
  by (metis charOfByte_byteOfChar)

definition bytesOf :: "string \<Rightarrow> byte list" where
  "bytesOf s = map byteOfChar s"

definition stringOf :: "byte list \<Rightarrow> string" where
  "stringOf bs = map charOfByte bs"

lemma stringOf_bytesOf [simp]: "stringOf (bytesOf s) = s"
  by (simp add: stringOf_def bytesOf_def map_idI)

lemma bytesOf_stringOf [simp]: "bytesOf (stringOf bs) = bs"
  by (simp add: stringOf_def bytesOf_def map_idI)

lemma length_bytesOf [simp]: "length (bytesOf s) = length s"
  by (simp add: bytesOf_def)

lemma length_stringOf [simp]: "length (stringOf s) = length s"
  by (simp add: stringOf_def)

lemma bytesOf_append [simp]: "bytesOf (s @ t) = bytesOf s @ bytesOf t"
  by (simp add: bytesOf_def)

lemma zero_in_bytesOf [simp]: "0 \<in> set (bytesOf s) \<longleftrightarrow> CHR 0x00 \<in> set s"
proof -
  have "byteOfChar (CHR 0x00) = 0" by (simp add: byteOfChar_def)
  then have "byteOfChar c = 0 \<longleftrightarrow> c = CHR 0x00" for c
    by (metis byteOfChar_inject)
  then show ?thesis by (auto simp: bytesOf_def image_iff)
qed

text \<open>Decimal text of a natural number, as the verb d prints it.\<close>

fun showNat :: "nat \<Rightarrow> string" where
  "showNat n =
     (if n < 10 then [char_of (48 + n)] else showNat (n div 10) @ [char_of (48 + n mod 10)])"

declare showNat.simps [simp del]

definition digitVal :: "char \<Rightarrow> nat" where
  "digitVal c = of_char c - 48"

definition isDigit :: "char \<Rightarrow> bool" where
  "isDigit c \<longleftrightarrow> 48 \<le> (of_char c :: nat) \<and> (of_char c :: nat) \<le> 57"

fun digitsVal :: "nat \<Rightarrow> string \<Rightarrow> nat" where
  "digitsVal acc [] = acc"
| "digitsVal acc (c # cs) = digitsVal (10 * acc + digitVal c) cs"

lemma digitsVal_append [simp]: "digitsVal acc (s @ t) = digitsVal (digitsVal acc s) t"
  by (induction s arbitrary: acc) auto

lemma of_char_digit: "n < 10 \<Longrightarrow> (of_char (char_of (48 + n) :: char) :: nat) = 48 + n"
  by simp

lemma digit_char:
  assumes "n < 10"
  shows "digitVal (char_of (48 + n)) = n" and "isDigit (char_of (48 + n))"
  using assms by (simp_all add: digitVal_def isDigit_def)

lemma showNat_digits: "\<forall>c \<in> set (showNat n). isDigit c"
proof (induction n rule: showNat.induct)
  case (1 n)
  show ?case
  proof (cases "n < 10")
    case True
    then show ?thesis by (subst showNat.simps) (simp add: digit_char)
  next
    case False
    with 1 have "\<forall>c \<in> set (showNat (n div 10)). isDigit c" by simp
    with False show ?thesis
      by (subst showNat.simps) (auto simp: digit_char)
  qed
qed

lemma digitsVal_showNat [simp]: "digitsVal 0 (showNat n) = n"
proof (induction n rule: showNat.induct)
  case (1 n)
  show ?case
  proof (cases "n < 10")
    case True
    then show ?thesis by (subst showNat.simps) (simp add: digit_char)
  next
    case False
    with 1 have "digitsVal 0 (showNat (n div 10)) = n div 10" by simp
    with False show ?thesis
      by (subst showNat.simps) (simp add: digit_char)
  qed
qed

lemma length_showNat: "0 < k \<Longrightarrow> n < 10 ^ k \<Longrightarrow> length (showNat n) \<le> k"
proof (induction k arbitrary: n)
  case (Suc k)
  show ?case
  proof (cases "n < 10")
    case True
    then show ?thesis by (subst showNat.simps) simp
  next
    case False
    have "n div 10 < 10 ^ k" using Suc.prems(2) by (simp add: less_mult_imp_div_less mult.commute)
    moreover from this False have "0 < k" by (cases k) auto
    ultimately have "length (showNat (n div 10)) \<le> k" by (rule Suc.IH [rotated])
    with False show ?thesis by (subst showNat.simps) simp
  qed
qed simp

lemma showNat_nonempty [simp]: "showNat n \<noteq> []"
  by (subst showNat.simps) simp

lemma showNat_inject [simp]: "showNat m = showNat n \<longleftrightarrow> m = n"
  by (metis digitsVal_showNat)

section \<open>Big-endian 32 bit integers\<close>

text \<open>\<open>binary.BigEndian.PutUint32\<close> and \<open>binary.BigEndian.Uint32\<close>.\<close>

definition putUint32 :: "u32 \<Rightarrow> byte list" where
  "putUint32 w = [ucast (drop_bit 24 w), ucast (drop_bit 16 w), ucast (drop_bit 8 w), ucast w]"

unbundle bit_operations_syntax

definition getUint32 :: "byte \<Rightarrow> byte \<Rightarrow> byte \<Rightarrow> byte \<Rightarrow> u32" where
  "getUint32 a b c d =
     ucast d OR push_bit 8 (ucast c) OR push_bit 16 (ucast b) OR push_bit 24 (ucast a)"

lemma length_putUint32 [simp]: "length (putUint32 w) = 4"
  by (simp add: putUint32_def)

lemma bit_byte_high: "8 \<le> n \<Longrightarrow> \<not> bit (b :: byte) n"
  by (auto dest: bit_imp_le_length)

lemma getUint32_putUint32:
  "getUint32 (ucast (drop_bit 24 w)) (ucast (drop_bit 16 w)) (ucast (drop_bit 8 w)) (ucast w) = w"
proof (rule bit_word_eqI)
  fix n
  assume "n < LENGTH(32)"
  then consider "n < 8" | "8 \<le> n" "n < 16" | "16 \<le> n" "n < 24" | "24 \<le> n" "n < 32"
    by fastforce
  then show "bit (getUint32 (ucast (drop_bit 24 w)) (ucast (drop_bit 16 w))
      (ucast (drop_bit 8 w)) (ucast w)) n = bit w n"
    by cases (auto simp: getUint32_def bit_simps)
qed

lemma putUint32_getUint32: "putUint32 (getUint32 a b c d) = [a, b, c, d]"
  unfolding putUint32_def getUint32_def
  by (auto intro!: bit_word_eqI simp: bit_simps not_less bit_byte_high)

section \<open>Self-delimiting encodings\<close>

text \<open>
  The contract between a packet writer and the readers of the byte stream: what was encoded
  is read back, whatever follows it on the stream. It makes the encoding self-delimiting.
\<close>

locale stream_codec =
  fixes enc :: "'a \<Rightarrow> gerr + byte list"
    and dec :: "byte list \<Rightarrow> gerr + 'b \<times> byte list"
    and view :: "'a \<Rightarrow> 'b"
    and ok :: "'a \<Rightarrow> bool"
  assumes dec_enc: "ok x \<Longrightarrow> enc x = Inr bs \<Longrightarrow> dec (bs @ rest) = Inr (view x, rest)"
begin

lemma self_delimiting:
  assumes "ok x" "enc x = Inr bs" "ok y" "enc y = Inr cs" "bs @ r = cs @ t"
  shows "bs = cs \<and> r = t \<and> view x = view y"
proof -
  have "dec (bs @ r) = Inr (view x, r)" using assms(1,2) by (rule dec_enc)
  moreover have "dec (cs @ t) = Inr (view y, t)" using assms(3,4) by (rule dec_enc)
  ultimately have "view x = view y" and "r = t" using assms(5) by simp_all
  with assms(5) show ?thesis by simp
qed

lemma no_proper_prefix:
  assumes "ok x" "enc x = Inr (bs @ c # cs)" "ok y"
  shows "enc y \<noteq> Inr bs"
proof
  assume "enc y = Inr bs"
  from self_delimiting [OF assms(1,2) assms(3) this, of "[]" "c # cs"] show False by simp
qed

end

section \<open>Lists\<close>

lemma append_delim_eq:
  assumes "x \<notin> set a" "x \<notin> set b" "a @ x # s = b @ x # t"
  shows "a = b \<and> s = t"
  using assms
proof (induction a arbitrary: b)
  case Nil
  then show ?case by (cases b) auto
next
  case (Cons y a)
  then show ?case by (cases b) auto
qed

lemma map_update_same:
  assumes "f y = f (xs ! a)"
  shows "map f (xs[a := y]) = map f xs"
  by (metis assms list_update_beyond list_update_id map_update not_le nth_map)

lemma funpow_chain:
  assumes "f x = y" "(f ^^ n) y = z" "f z = u"
  shows "(f ^^ Suc (n + 1)) x = u"
proof -
  have "(f ^^ Suc (n + 1)) x = (f ^^ Suc n) (f x)" by (simp only: Suc_eq_plus1 [symmetric] funpow_Suc_right comp_apply)
  then show ?thesis using assms by simp
qed

lemma length_update_le: "length (AList.update k v al) \<le> Suc (length al)"
  by (induction al) auto

lemma length_delete_le: "length (AList.delete k al) \<le> length al"
  by (simp add: AList.delete_eq)

section \<open>Reachable states and invariants\<close>

inductive reach :: "('s \<Rightarrow> bool) \<Rightarrow> ('s \<Rightarrow> 's \<Rightarrow> bool) \<Rightarrow> 's \<Rightarrow> bool"
  for start :: "'s \<Rightarrow> bool" and step :: "'s \<Rightarrow> 's \<Rightarrow> bool" where
  reach_start: "start s \<Longrightarrow> reach start step s"
| reach_step: "reach start step s \<Longrightarrow> step s t \<Longrightarrow> reach start step t"

locale invariant_of =
  fixes start :: "'s \<Rightarrow> bool"
    and step :: "'s \<Rightarrow> 's \<Rightarrow> bool"
    and inv :: "'s \<Rightarrow> bool"
  assumes inv_start: "start s \<Longrightarrow> inv s"
    and inv_step: "inv s \<Longrightarrow> step s t \<Longrightarrow> inv t"
begin

lemma reach_inv: "reach start step s \<Longrightarrow> inv s"
  by (induction rule: reach.induct) (blast intro: inv_start inv_step)+

end

end
