(* ===== verification/Consts.thy ===== *)
theory Consts
  imports Iip_Prelude
begin

text \<open>
  The constants of \<open>consts.go\<close> and the error values of \<open>variants.go\<close>, with the widths the
  code gives them.
\<close>

definition MaxPathLen :: u32 where "MaxPathLen = 2048"
definition MaxPacketSize :: u32 where "MaxPacketSize = 16 * 1024 * 1024"
definition PacketReadBufSize :: u32 where "PacketReadBufSize = 512 * 1024"

definition PathNewChannel :: string where "PathNewChannel = ''/sys/new_channel''"
definition PathDeleteChannel :: string where "PathDeleteChannel = ''/sys/delete_channel''"
definition PathServerCountJson :: string where "PathServerCountJson = ''/sys/server_count''"
definition PathServerMeasureJson :: string where "PathServerMeasureJson = ''/sys/server_measure''"
definition PathServerPathCountJson :: string where "PathServerPathCountJson = ''/sys/path_count''"
definition PathServerPathMeasureJson :: string where
  "PathServerPathMeasureJson = ''/sys/path_measure''"
definition PathServerStatis :: string where "PathServerStatis = ''/sys/statis''"
definition PathServerConnectionStatis :: string where
  "PathServerConnectionStatis = ''/sys/connection_statis''"

definition ArgHttpHeader :: string where "ArgHttpHeader = ''__http_hdr__''"

definition RoleClient :: byte where "RoleClient = 0"
definition RoleServer :: byte where "RoleServer = 4"

definition PacketTypeRequest :: byte where "PacketTypeRequest = 0"
definition PacketTypeResponse :: byte where "PacketTypeResponse = 4"

definition StatusC0 :: byte where "StatusC0 = 0"
definition StatusC1 :: byte where "StatusC1 = 1"
definition StatusC2 :: byte where "StatusC2 = 2"
definition StatusC3 :: byte where "StatusC3 = 3"
definition StatusS4 :: byte where "StatusS4 = 4"
definition StatusS5 :: byte where "StatusS5 = 5"
definition StatusS6 :: byte where "StatusS6 = 6"
definition StatusS7 :: byte where "StatusS7 = 7"
definition Status8 :: byte where "Status8 = 8"

lemmas size_defs = MaxPathLen_def MaxPacketSize_def PacketReadBufSize_def
lemmas role_defs = RoleClient_def RoleServer_def
lemmas status_defs = StatusC0_def StatusC1_def StatusC2_def StatusC3_def
  StatusS4_def StatusS5_def StatusS6_def StatusS7_def Status8_def

definition DefaultResponseData :: "byte list" where
  "DefaultResponseData = bytesOf ''{\"code\": -1, \"message\": \"unknown\"}''"

definition ErrPacketContinue :: gerr where
  "ErrPacketContinue = SysErr 100 ''packet uncompleted''"
definition ErrHandleNoResponse :: gerr where
  "ErrHandleNoResponse = SysErr 101 ''handle no response''"
definition ErrHandleError :: gerr where "ErrHandleError = SysErr 102 ''handle error''"
definition ErrRequestTimeout :: gerr where "ErrRequestTimeout = SysErr 103 ''request timeout''"
definition ErrUnknown :: gerr where "ErrUnknown = SysErr 104 ''unknown''"
definition ErrResponseHandlerNotImplement :: gerr where
  "ErrResponseHandlerNotImplement = SysErr 105 ''response handler not implement''"
definition ErrChannelCreateLimited :: gerr where
  "ErrChannelCreateLimited = SysErr 106 ''channel create limited''"
definition ErrServerConnectionsLimited :: gerr where
  "ErrServerConnectionsLimited = SysErr 107 ''server connections limited''"
definition ErrClientConnectionsLimited :: gerr where
  "ErrClientConnectionsLimited = SysErr 108 ''client connections limited''"

lemma unat_sizes [simp]:
  "unat MaxPathLen = 2048" "unat MaxPacketSize = 16777216" "unat PacketReadBufSize = 524288"
  by (simp_all add: size_defs)

lemma roles_distinct [simp]: "RoleClient \<noteq> RoleServer" "RoleServer \<noteq> RoleClient"
  by (simp_all add: role_defs)

end
