(* ===== verification/Bufio.thy ===== *)
theory Bufio
  imports Consts
begin

text \<open>
  Buffered reading, package bufio as the readers of \<open>protocol.go\<close> use it: \<open>ReadByte\<close>, \<open>ReadSlice\<close> and
  \<open>io.ReadFull\<close>. First over the bytes that are still to come, then over a buffer of
  \<open>PacketReadBufSize\<close> bytes that is filled from a reader which gives its bytes in pieces. The two
  agree, so a loop that keeps its buffered reader can be modelled over the bytes to come.
\<close>

section \<open>Reading from the stream\<close>

definition errEOF :: gerr where "errEOF = TextErr ''EOF''"
definition errUnexpectedEOF :: gerr where "errUnexpectedEOF = TextErr ''unexpected EOF''"
definition errBufferFull :: gerr where "errBufferFull = TextErr ''bufio: buffer full''"

fun ReadByte :: "byte list \<Rightarrow> gerr + byte \<times> byte list" where
  "ReadByte [] = Inl errEOF"
| "ReadByte (b # s) = Inr (b, s)"

text \<open>
  \<open>ReadSlice\<close> returns the bytes up to and with the delimiter. It fails when the stream ends
  first, and when a whole buffer of \<open>PacketReadBufSize\<close> bytes holds no delimiter.
\<close>

definition ReadSlice :: "byte \<Rightarrow> byte list \<Rightarrow> gerr + byte list \<times> byte list" where
  "ReadSlice delim s =
     (if delim \<in> set (take (unat PacketReadBufSize) s) then
        let n = length (takeWhile (\<lambda>b. b \<noteq> delim) s) + 1 in Inr (take n s, drop n s)
      else if length s < unat PacketReadBufSize then Inl errEOF
      else Inl errBufferFull)"

definition ReadFull :: "nat \<Rightarrow> byte list \<Rightarrow> gerr + byte list \<times> byte list" where
  "ReadFull n s =
     (if n \<le> length s then Inr (take n s, drop n s)
      else Inl (if s = [] then errEOF else errUnexpectedEOF))"

text \<open>\<open>io.ReadFull\<close> into a 4 byte buffer followed by \<open>binary.BigEndian.Uint32\<close>.\<close>

fun bigEndian32 :: "byte list \<Rightarrow> u32" where
  "bigEndian32 (a # b # c # d # _) = getUint32 a b c d"
| "bigEndian32 _ = 0"

definition ReadUint32 :: "byte list \<Rightarrow> gerr + u32 \<times> byte list" where
  "ReadUint32 s = bindE (ReadFull 4 s) (\<lambda>(b, s'). Inr (bigEndian32 b, s'))"

section \<open>The readers on known and on extended input\<close>

lemma ReadByte_Cons [wire_simps]: "ReadByte (b # s) = Inr (b, s)"
  by simp

lemma ReadFull_append [wire_simps]:
  "n = length b \<Longrightarrow> ReadFull n (b @ s) = Inr (b, s)"
  by (simp add: ReadFull_def)

lemma bigEndian32_put [simp]: "bigEndian32 (putUint32 w) = w"
  by (simp add: putUint32_def getUint32_putUint32)

lemma ReadUint32_put [wire_simps]: "ReadUint32 (putUint32 w @ s) = Inr (w, s)"
  by (simp add: ReadUint32_def ReadFull_append)

lemma ReadSlice_delim [wire_simps]:
  assumes "d \<notin> set p" "length p < 524288"
  shows "ReadSlice d (p @ d # s) = Inr (p @ [d], s)"
proof -
  have "d \<in> set (take 524288 (p @ d # s))" using assms(2) by (simp add: take_Cons')
  moreover have "takeWhile (\<lambda>b. b \<noteq> d) (p @ d # s) = p"
    using assms(1) by (auto simp: takeWhile_append)
  ultimately show ?thesis by (simp add: ReadSlice_def)
qed

lemma ReadByte_Inr: "ReadByte s = Inr (b, r) \<longleftrightarrow> s = b # r"
  by (cases s) auto

lemma ReadFull_Inr: "ReadFull n s = Inr (b, r) \<longleftrightarrow> length b = n \<and> s = b @ r"
  by (auto simp: ReadFull_def)

lemma ReadUint32_Inr: "ReadUint32 s = Inr (w, r) \<longleftrightarrow> s = putUint32 w @ r"
proof
  assume "ReadUint32 s = Inr (w, r)"
  then obtain b where b: "length b = 4" "s = b @ r" and w: "w = bigEndian32 b"
    by (auto simp: ReadUint32_def ReadFull_Inr)
  from b(1) obtain b0 b1 b2 b3 where "b = [b0, b1, b2, b3]"
    by (auto simp: numeral_eq_Suc length_Suc_conv)
  with b w show "s = putUint32 w @ r" by (simp add: putUint32_getUint32)
qed (simp add: wire_simps)

lemma ReadSlice_Inr:
  assumes "ReadSlice d s = Inr (p, r)"
  shows "\<exists>q. p = q @ [d] \<and> d \<notin> set q \<and> length q < 524288 \<and> s = q @ d # r"
proof -
  from assms have mem: "d \<in> set (take 524288 s)"
    by (auto simp: ReadSlice_def split: if_splits)
  then obtain q t where qt: "take 524288 s = q @ d # t" "d \<notin> set q"
    by (meson split_list_first)
  then have s: "s = q @ d # (t @ drop 524288 s)"
    by (metis append.assoc append_Cons append_take_drop_id)
  from qt(1) have "length (q @ d # t) \<le> 524288" by (metis length_take min.cobounded2)
  then have q: "length q < 524288" by simp
  from assms ReadSlice_delim [OF qt(2) q] s have "p = q @ [d]" "r = t @ drop 524288 s"
    by (metis Pair_inject sum.inject(2))+
  with qt(2) q s show ?thesis by auto
qed

section \<open>The buffered reader\<close>

text \<open>
  An \<open>io.Reader\<close> is the list of the pieces it gives: \<open>Read\<close> into \<open>n\<close> bytes gives the next piece, or
  its first \<open>n\<close> bytes (empty pieces are passed over); \<open>None\<close> is the end. It does no buffering that
  \<open>bufio.NewReaderSize\<close> would take over: a \<open>bufio.Reader\<close> that is large enough already is returned as
  it is, and then nothing is read ahead by another one.
\<close>

type_synonym reader = "byte list list"

fun readerRead :: "nat \<Rightarrow> reader \<Rightarrow> (byte list \<times> reader) option" where
  "readerRead n [] = None"
| "readerRead n (p # ps) =
     (if p = [] then readerRead n ps
      else if length p \<le> n then Some (p, ps) else Some (take n p, drop n p # ps))"

text \<open>The bytes in the buffer that were not read yet, and the reader behind it.\<close>

type_synonym bufReader = "byte list \<times> reader"

abbreviation bufSize :: nat where "bufSize \<equiv> unat PacketReadBufSize"

definition bufContents :: "bufReader \<Rightarrow> byte list" where
  "bufContents = (\<lambda>(buf, src). buf @ concat src)"

lemma readerRead_Some:
  "readerRead n src = Some (p, src') \<Longrightarrow> 0 < n \<Longrightarrow>
     p \<noteq> [] \<and> length p \<le> n \<and> concat src = p @ concat src'"
  by (induction n src rule: readerRead.induct) (auto split: if_splits)

lemma readerRead_None: "readerRead n src = None \<longleftrightarrow> concat src = []"
  by (induction n src rule: readerRead.induct) auto

lemma readerRead_length:
  "readerRead n src = Some (p, src') \<Longrightarrow> 0 < n \<Longrightarrow>
     length (concat src) = length p + length (concat src') \<and> 0 < length p"
  using readerRead_Some [of n src p src'] by simp

definition bufReadByte :: "bufReader \<Rightarrow> gerr + byte \<times> bufReader" where
  "bufReadByte = (\<lambda>(buf, src).
     case buf of
       b # buf' \<Rightarrow> Inr (b, (buf', src))
     | [] \<Rightarrow>
         (case readerRead bufSize src of
            None \<Rightarrow> Inl errEOF
          | Some (p, src') \<Rightarrow> Inr (hd p, (tl p, src'))))"

text \<open>The buffer is searched, and filled up behind what it holds, until it is full.\<close>

function bufReadSlice :: "byte \<Rightarrow> byte list \<Rightarrow> reader \<Rightarrow> gerr + byte list \<times> bufReader" where
  "bufReadSlice delim buf src =
     (if delim \<in> set buf then
        let n = length (takeWhile (\<lambda>b. b \<noteq> delim) buf) + 1 in Inr (take n buf, (drop n buf, src))
      else if length buf \<ge> bufSize then Inl errBufferFull
      else case readerRead (bufSize - length buf) src of
        None \<Rightarrow> Inl errEOF
      | Some (p, src') \<Rightarrow> bufReadSlice delim (buf @ p) src')"
  by pat_completeness auto
termination
  by (relation "measure (\<lambda>(d, b, src). length (concat src))") (auto dest: readerRead_length)

text \<open>
  \<open>io.ReadFull\<close>: reads from the buffer while it holds something; an empty buffer is filled, or
  passed by when at least its size is still wanted.
\<close>

function bufReadFull :: "nat \<Rightarrow> byte list \<Rightarrow> byte list \<Rightarrow> reader \<Rightarrow> gerr + byte list \<times> bufReader" where
  "bufReadFull n got buf src =
     (if n = 0 then Inr (got, (buf, src))
      else if buf \<noteq> [] then
        bufReadFull (n - min n (length buf)) (got @ take n buf) (drop n buf) src
      else case readerRead (if n \<ge> bufSize then n else bufSize) src of
        None \<Rightarrow> Inl (if got = [] then errEOF else errUnexpectedEOF)
      | Some (p, src') \<Rightarrow>
          if n \<ge> bufSize then bufReadFull (n - length p) (got @ p) [] src'
          else bufReadFull n got p src')"
  by pat_completeness auto
termination
proof (relation "measure (\<lambda>(n, got, buf, src). n + length (concat src))", goal_cases)
  case 1
  show ?case by simp
next
  case (2 n got buf src)
  then have "0 < min n (length buf)" by (cases buf) auto
  then show ?case by simp
next
  case (3 n got buf src q p src')
  then have "length (concat src) = length p + length (concat src') \<and> 0 < length p"
    by (intro readerRead_length) auto
  then have "length (concat src) = length p + length (concat src')" "0 < length p" by blast+
  then show ?case by (simp only: in_measure prod.case)
next
  case (4 n got buf src q p src')
  then have "length (concat src) = length p + length (concat src') \<and> 0 < length p"
    by (intro readerRead_length [of bufSize]) auto
  then show ?case by simp
qed

declare bufReadSlice.simps [simp del] bufReadFull.simps [simp del]

definition bufReadUint32 :: "bufReader \<Rightarrow> gerr + u32 \<times> bufReader" where
  "bufReadUint32 = (\<lambda>(buf, src).
     bindE (bufReadFull 4 [] buf src) (\<lambda>(b, st). Inr (bigEndian32 b, st)))"

text \<open>A reader that is at its end stays there.\<close>

lemma bufRead_at_end:
  "bufReadSlice d buf [] = Inr (x, (buf', src')) \<Longrightarrow> src' = []"
  "bufReadFull n got buf [] = Inr (x, (buf', src')) \<Longrightarrow> src' = []"
  "bufReadUint32 (buf, []) = Inr (w, (buf', src')) \<Longrightarrow> src' = []"
proof -
  show "bufReadSlice d buf [] = Inr (x, (buf', src')) \<Longrightarrow> src' = []"
    by (subst (asm) bufReadSlice.simps) (auto simp: Let_def split: if_splits)
  show full: "bufReadFull n got buf [] = Inr (x, (buf', src')) \<Longrightarrow> src' = []" for n got x
  proof (induction n got buf "[] :: reader" rule: bufReadFull.induct)
    case (1 n got buf)
    from 1(4) 1(1) show ?case by (subst (asm) bufReadFull.simps) (auto split: if_splits)
  qed
  show "bufReadUint32 (buf, []) = Inr (w, (buf', src')) \<Longrightarrow> src' = []"
    using full [of 4 "[]"] by (auto simp: bufReadUint32_def bindE_def split: sum.splits)
qed

section \<open>Buffering changes nothing but what is left in the reader\<close>

text \<open>A result with what the buffered reader still gives; and the buffer holds at most its size.\<close>

definition bufView :: "gerr + 'a \<times> bufReader \<Rightarrow> gerr + 'a \<times> byte list" where
  "bufView r = map_sum id (apsnd bufContents) r"

definition bufFits :: "gerr + 'a \<times> bufReader \<Rightarrow> bool" where
  "bufFits r \<longleftrightarrow> (\<forall>x buf src. r = Inr (x, (buf, src)) \<longrightarrow> length buf \<le> bufSize)"

lemma bufView_simps [simp]:
  "bufView (Inl e) = Inl e" "bufView (Inr (x, st)) = Inr (x, bufContents st)"
  "bufFits (Inl e)" "bufFits (Inr (x, (buf, src))) \<longleftrightarrow> length buf \<le> bufSize"
  by (simp_all add: bufView_def bufFits_def)

lemma bufReadByte_plain:
  assumes "length buf \<le> bufSize"
  shows "bufView (bufReadByte (buf, src)) = ReadByte (bufContents (buf, src)) \<and> bufFits (bufReadByte (buf, src))"
proof (cases buf)
  case Nil
  show ?thesis
  proof (cases "readerRead bufSize src")
    case None
    then have "concat src = []" by (simp only: readerRead_None)
    then show ?thesis using Nil None by (simp add: bufReadByte_def bufContents_def del: concat_eq_Nil_conv)
  next
    case (Some q)
    obtain p src' where q: "q = (p, src')" by fastforce
    with Some readerRead_Some [of bufSize src p src'] have
      "p \<noteq> []" "length p \<le> bufSize" "concat src = p @ concat src'" by auto
    then show ?thesis using Nil Some q by (cases p) (auto simp: bufReadByte_def bufContents_def)
  qed
qed (use assms in \<open>simp add: bufReadByte_def bufContents_def\<close>)

lemma bufReadSlice_plain:
  assumes "length buf \<le> bufSize"
  shows "bufView (bufReadSlice d buf src) = ReadSlice d (buf @ concat src) \<and> bufFits (bufReadSlice d buf src)"
  using assms
proof (induction d buf src rule: bufReadSlice.induct)
  case (1 d buf src)
  show ?case
  proof (cases "d \<in> set buf")
    case True
    then have "d \<in> set (take bufSize (buf @ concat src))" using 1(2) by simp
    moreover have "length (takeWhile (\<lambda>b. b \<noteq> d) buf) < length buf"
      using True by (induction buf) auto
    ultimately show ?thesis using True 1(2)
      by (subst (1 2) bufReadSlice.simps) (simp add: ReadSlice_def bufContents_def Let_def)
  next
    case miss: False
    show ?thesis
    proof (cases "length buf \<ge> bufSize")
      case True
      then have "length buf = bufSize" using 1(2) by simp
      then show ?thesis using miss by (subst (1 2) bufReadSlice.simps) (simp add: ReadSlice_def)
    next
      case room: False
      show ?thesis
      proof (cases "readerRead (bufSize - length buf) src")
        case None
        then have "concat src = []" by (simp only: readerRead_None)
        then show ?thesis using miss room None
          by (subst (1 2) bufReadSlice.simps) (simp add: ReadSlice_def del: concat_eq_Nil_conv)
      next
        case (Some q)
        obtain p src' where q: "q = (p, src')" by fastforce
        with Some readerRead_Some [of "bufSize - length buf" src p src'] room have p:
          "length (buf @ p) \<le> bufSize" "concat src = p @ concat src'" by auto
        from 1(1) [OF miss room Some [unfolded q] refl p(1)] p(2) show ?thesis
          using miss room Some q by (subst (1 2) bufReadSlice.simps) simp
      qed
    qed
  qed
qed

lemma bufReadFull_plain:
  assumes "length buf \<le> bufSize"
  shows "bufView (bufReadFull n got buf src) =
      (if n \<le> length (buf @ concat src)
       then Inr (got @ take n (buf @ concat src), drop n (buf @ concat src))
       else Inl (if got @ buf @ concat src = [] then errEOF else errUnexpectedEOF)) \<and>
    bufFits (bufReadFull n got buf src)"
  using assms
proof (induction n got buf src rule: bufReadFull.induct)
  case (1 n got buf src)
  consider "n = 0" | "n \<noteq> 0" "buf \<noteq> []" | "n \<noteq> 0" "buf = []" by blast
  then show ?case
  proof cases
    case 1
    then show ?thesis using "1.prems" by (subst (1 2) bufReadFull.simps) (simp add: bufContents_def)
  next
    case 2
    have "length (drop n buf) \<le> bufSize" using "1.prems" by simp
    note ih = "1.IH"(1) [OF 2 this]
    have s: "bufReadFull n got buf src =
        bufReadFull (n - min n (length buf)) (got @ take n buf) (drop n buf) src"
      using 2 by (subst bufReadFull.simps) simp
    show ?thesis unfolding s using ih 2
      by (cases "n \<le> length buf") (auto simp: min_def)
  next
    case 3
    let ?k = "if n \<ge> bufSize then n else bufSize"
    show ?thesis
    proof (cases "readerRead ?k src")
      case None
      then have "concat src = []" by (simp only: readerRead_None)
      then show ?thesis using 3 None by (subst (1 2) bufReadFull.simps) (simp del: concat_eq_Nil_conv)
    next
      case (Some q)
      obtain p src' where q: "q = (p, src')" by fastforce
      have "0 < ?k" using 3 by simp
      with Some q readerRead_Some [of ?k src p src'] have p:
        "p \<noteq> []" "length p \<le> ?k" "concat src = p @ concat src'" by auto
      show ?thesis
      proof (cases "n \<ge> bufSize")
        case True
        from "1.IH"(2) [OF 3(1) _ Some [unfolded q] refl True] 3 p True Some q show ?thesis
          by (subst (1 2) bufReadFull.simps) auto
      next
        case False
        from "1.IH"(3) [OF 3(1) _ Some [unfolded q] refl False] 3 p False Some q show ?thesis
          by (subst (1 2) bufReadFull.simps) auto
      qed
    qed
  qed
qed

lemma bufReadUint32_plain:
  assumes "length buf \<le> bufSize"
  shows "bufView (bufReadUint32 (buf, src)) = ReadUint32 (bufContents (buf, src)) \<and>
    bufFits (bufReadUint32 (buf, src))"
proof -
  note f = bufReadFull_plain [OF assms, of 4 "[]" src]
  show ?thesis
  proof (cases "bufReadFull 4 [] buf src")
    case (Inl e)
    then show ?thesis using f
      by (simp add: bufReadUint32_def ReadUint32_def ReadFull_def bufContents_def split: if_splits)
  next
    case (Inr q)
    then show ?thesis using f
      by (cases q) (auto simp: bufReadUint32_def ReadUint32_def ReadFull_def bufContents_def split: if_splits)
  qed
qed

end
