(* ===== verification/Wire.thy ===== *)
theory Wire
  imports Bufio
begin

text \<open>
  The packet format of \<open>protocol.go\<close>: the record \<open>Packet\<close>, \<open>CreateNetPacket\<close>, and reading a packet,
  from the bytes still to come and, as \<open>ReadPacket\<close> does, with a buffered reader of its own. A packet
  on the wire is its status byte, its path, a NUL byte, the channel id and the data length (both
  big-endian), and the data.
\<close>

section \<open>Packets\<close>

text \<open>
  \<open>url.Values\<close> is a dictionary of lists. The field \<open>channel\<close> is the address of a channel
  object, \<open>params\<close> is nil until the path was parsed.
\<close>

type_synonym url_values = "(string \<times> string list) list"

record packet =
  pktType :: byte
  pktStatus :: byte
  pktPath :: string
  pktChannelId :: u32
  pktData :: "byte list"
  pktDontChunk :: bool
  pktChannel :: "nat option"
  pktParams :: "url_values option"

definition valuesGet :: "url_values \<Rightarrow> string \<Rightarrow> string" where
  "valuesGet vs key = (case map_of vs key of Some (v # _) \<Rightarrow> v | _ \<Rightarrow> '''')"

text \<open>
  \<open>parsePath\<close> splits the query off the path once, with the parser of package net/url:
  \<open>parse path\<close> is the parsed path and the query, or an error.
\<close>

definition parsePath :: "(string \<Rightarrow> gerr + string \<times> url_values) \<Rightarrow> packet \<Rightarrow> packet" where
  "parsePath parse pkt =
     (if pktParams pkt \<noteq> None then pkt
      else case parse (pktPath pkt) of
        Inl _ \<Rightarrow> pkt\<lparr>pktParams := Some []\<rparr>
      | Inr (path, query) \<Rightarrow> pkt\<lparr>pktParams := Some query, pktPath := path\<rparr>)"

definition PathParam ::
    "(string \<Rightarrow> gerr + string \<times> url_values) \<Rightarrow> packet \<Rightarrow> string \<Rightarrow> packet \<times> string" where
  "PathParam parse pkt key =
     (let pkt' = (if pktParams pkt = None then parsePath parse pkt else pkt)
      in (pkt', valuesGet (case pktParams pkt' of None \<Rightarrow> [] | Some vs \<Rightarrow> vs) key))"

lemma parsePath_idem [simp]: "parsePath parse (parsePath parse pkt) = parsePath parse pkt"
  by (auto simp: parsePath_def split: sum.splits prod.splits)

lemma parsePath_frame [simp]:
  "pktData (parsePath parse pkt) = pktData pkt"
  "pktStatus (parsePath parse pkt) = pktStatus pkt"
  "pktChannelId (parsePath parse pkt) = pktChannelId pkt"
  "pktChannel (parsePath parse pkt) = pktChannel pkt"
  by (auto simp: parsePath_def split: sum.splits prod.splits)

section \<open>Writing a packet\<close>

definition CreateNetPacket :: "packet \<Rightarrow> gerr + byte list" where
  "CreateNetPacket pkt =
     (if length (pktPath pkt) > unat MaxPathLen then
        Inl (TextErr ''path is too large, must be <= 2048 bytes'')
      else if length (pktData pkt) > unat MaxPacketSize then
        Inl (TextErr ''data is too large, must be <= 16777216 bytes'')
      else if pktStatus pkt \<noteq> Status8 \<and> pktPath pkt = '''' then
        Inl (TextErr ''invalid path: '')
      else
        Inr ([pktStatus pkt] @ bytesOf (pktPath pkt) @ [0] @ putUint32 (pktChannelId pkt)
             @ putUint32 (word_of_nat (length (pktData pkt))) @ pktData pkt))"

section \<open>Reading a packet\<close>

text \<open>
  What is read of a packet: status, path, channel id, length and data. Every failure is the same
  error. \<open>decodePacket\<close> reads the bytes that are still to come and leaves the rest, as the read loops
  do, which keep their buffered reader.
\<close>

definition readError :: gerr where "readError = TextErr ''read error''"

definition readPacketOf :: "byte \<Rightarrow> byte list \<Rightarrow> u32 \<Rightarrow> byte list \<Rightarrow> packet" where
  "readPacketOf status path channelId data =
     \<lparr>pktType = PacketTypeResponse, pktStatus = status,
      pktPath = stringOf (butlast path), pktChannelId = channelId, pktData = data,
      pktDontChunk = False, pktChannel = None, pktParams = None\<rparr>"

definition decodePacket :: "byte list \<Rightarrow> gerr + packet \<times> byte list" where
  "decodePacket s =
     (case ReadByte s of Inl _ \<Rightarrow> Inl readError | Inr (status, s1) \<Rightarrow>
      (case ReadSlice 0 s1 of Inl _ \<Rightarrow> Inl readError | Inr (path, s2) \<Rightarrow>
      (case ReadUint32 s2 of Inl _ \<Rightarrow> Inl readError | Inr (channelId, s3) \<Rightarrow>
      (case ReadUint32 s3 of Inl _ \<Rightarrow> Inl readError | Inr (dataLen, s4) \<Rightarrow>
      (case ReadFull (unat dataLen) s4 of Inl _ \<Rightarrow> Inl readError | Inr (data, s5) \<Rightarrow>
        Inr (readPacketOf status path channelId data, s5))))))"

text \<open>
  \<open>ReadPacket\<close> makes a buffered reader of its own around the reader it is given and drops it when
  it returns: the second component is what is left in the reader of the caller, which lacks what
  was read ahead into the buffer. (A caller that hands in a \<open>bufio.Reader\<close> of that size keeps the
  buffer; this is the case of any other reader, such as a socket or a \<open>bytes.Buffer\<close>.)
\<close>

definition ReadPacket :: "reader \<Rightarrow> gerr + packet \<times> reader" where
  "ReadPacket reader =
     (case bufReadByte ([], reader) of Inl _ \<Rightarrow> Inl readError | Inr (status, st1) \<Rightarrow>
      (case bufReadSlice 0 (fst st1) (snd st1) of Inl _ \<Rightarrow> Inl readError | Inr (path, st2) \<Rightarrow>
      (case bufReadUint32 st2 of Inl _ \<Rightarrow> Inl readError | Inr (channelId, st3) \<Rightarrow>
      (case bufReadUint32 st3 of Inl _ \<Rightarrow> Inl readError | Inr (dataLen, st4) \<Rightarrow>
      (case bufReadFull (unat dataLen) [] (fst st4) (snd st4) of Inl _ \<Rightarrow> Inl readError | Inr (data, st5) \<Rightarrow>
        Inr (readPacketOf status path channelId data, snd st5))))))"

section \<open>Reading with the buffer\<close>

text \<open>One buffered operation against the plain one, on a state whose buffer fits.\<close>

lemma buffered_cases:
  assumes "bufView r = p \<and> bufFits r"
  obtains (fails) e where "r = Inl e" "p = Inl e"
    | (reads) x buf src where "r = Inr (x, (buf, src))" "p = Inr (x, buf @ concat src)" "length buf \<le> bufSize"
proof (cases r)
  case (Inr y)
  obtain x buf src where "y = (x, (buf, src))" by (metis surj_pair)
  then show ?thesis using assms Inr reads [of x buf src] by (auto simp: bufContents_def)
qed (use assms fails in auto)

text \<open>
  What is lost: the bytes read ahead, at most a buffer full of them.
\<close>

lemma ReadPacket_decode:
  "(case decodePacket (concat reader) of
      Inl e \<Rightarrow> ReadPacket reader = Inl e
    | Inr (pkt, rest) \<Rightarrow> \<exists>ahead reader'. ReadPacket reader = Inr (pkt, reader') \<and>
        rest = ahead @ concat reader' \<and> length ahead \<le> bufSize)"
proof -
  have "bufView (bufReadByte ([], reader)) = ReadByte (concat reader) \<and> bufFits (bufReadByte ([], reader))"
    using bufReadByte_plain [of "[]" reader] by (simp add: bufContents_def)
  then show ?thesis
  proof (cases rule: buffered_cases)
    case (fails e)
    then show ?thesis by (simp add: ReadPacket_def decodePacket_def)
  next
    case s: (reads status b1 r1)
    from bufReadSlice_plain [OF s(3), of 0 r1] show ?thesis
    proof (cases rule: buffered_cases)
      case (fails e)
      then show ?thesis using s by (simp add: ReadPacket_def decodePacket_def)
    next
      case p: (reads path b2 r2)
      from bufReadUint32_plain [OF p(3), of r2, unfolded bufContents_def prod.case] show ?thesis
      proof (cases rule: buffered_cases)
        case (fails e)
        then show ?thesis using s p by (simp add: ReadPacket_def decodePacket_def)
      next
        case c: (reads channelId b3 r3)
        from bufReadUint32_plain [OF c(3), of r3, unfolded bufContents_def prod.case] show ?thesis
        proof (cases rule: buffered_cases)
          case (fails e)
          then show ?thesis using s p c by (simp add: ReadPacket_def decodePacket_def)
        next
          case l: (reads dataLen b4 r4)
          note f = bufReadFull_plain [OF l(3), of "unat dataLen" "[]" r4]
          show ?thesis
          proof (cases "unat dataLen \<le> length (b4 @ concat r4)")
            case True
            with f obtain b5 r5 where "bufReadFull (unat dataLen) [] b4 r4 =
                Inr (take (unat dataLen) (b4 @ concat r4), (b5, r5))"
              "drop (unat dataLen) (b4 @ concat r4) = b5 @ concat r5" "length b5 \<le> bufSize"
              by (cases rule: buffered_cases [OF f]) auto
            then show ?thesis using s p c l True
              by (simp add: ReadPacket_def decodePacket_def ReadFull_def del: take_append drop_append)
          next
            case False
            with f obtain e where "bufReadFull (unat dataLen) [] b4 r4 = Inl e"
              by (cases rule: buffered_cases [OF f]) auto
            then show ?thesis using s p c l False by (simp add: ReadPacket_def decodePacket_def ReadFull_def)
          qed
        qed
      qed
    qed
  qed
qed

lemma ReadPacket_one_piece:
  assumes "s \<noteq> []" "length s \<le> bufSize" "ReadPacket [s] = Inr (pkt, reader')"
  shows "reader' = []"
proof -
  have "bufReadByte ([], [s]) = Inr (hd s, (tl s, []))" using assms(1,2) by (simp add: bufReadByte_def)
  with assms(3) show ?thesis
    by (auto simp: ReadPacket_def split: sum.splits dest!: bufRead_at_end)
qed

lemma ReadPacket_Inr_decode:
  assumes "ReadPacket reader = Inr (pkt, reader')"
  obtains ahead where "decodePacket (concat reader) = Inr (pkt, ahead @ concat reader')" "length ahead \<le> bufSize"
  using ReadPacket_decode [of reader] assms by (auto split: sum.splits)

section \<open>What is read\<close>

lemma decodePacket_Inr:
  "decodePacket s = Inr (pkt, r) \<longleftrightarrow>
     (\<exists>q. CHR 0x00 \<notin> set q \<and> length q < 524288 \<and> length (pktData pkt) < 2 ^ 32 \<and>
       pkt = \<lparr>pktType = PacketTypeResponse, pktStatus = pktStatus pkt, pktPath = q,
              pktChannelId = pktChannelId pkt, pktData = pktData pkt, pktDontChunk = False,
              pktChannel = None, pktParams = None\<rparr> \<and>
       s = [pktStatus pkt] @ bytesOf q @ [0] @ putUint32 (pktChannelId pkt)
           @ putUint32 (word_of_nat (length (pktData pkt))) @ pktData pkt @ r)"
  (is "?l = ?r")
proof
  assume ?l
  then obtain st s1 path s2 c s3 len s4 dat where
    "ReadByte s = Inr (st, s1)" "ReadSlice 0 s1 = Inr (path, s2)" "ReadUint32 s2 = Inr (c, s3)"
    "ReadUint32 s3 = Inr (len, s4)" and dat: "ReadFull (unat len) s4 = Inr (dat, r)"
    and pkt: "pkt = \<lparr>pktType = PacketTypeResponse, pktStatus = st,
              pktPath = stringOf (butlast path), pktChannelId = c, pktData = dat,
              pktDontChunk = False, pktChannel = None, pktParams = None\<rparr>"
    by (auto simp: decodePacket_def readPacketOf_def split: sum.splits prod.splits)
  then have s: "s = st # s1" "s2 = putUint32 c @ s3" "s3 = putUint32 len @ s4"
    and path: "ReadSlice 0 s1 = Inr (path, s2)"
    by (simp_all add: ReadByte_Inr ReadUint32_Inr)
  from dat have d: "length dat = unat len" "s4 = dat @ r" by (simp_all add: ReadFull_Inr)
  from ReadSlice_Inr [OF path] obtain q where
    q: "path = q @ [0]" "0 \<notin> set q" "length q < 524288" "s1 = q @ 0 # s2" by blast
  have "unat len < 2 ^ 32" using unsigned_less [of len, where 'a = nat] by simp
  with pkt s d q show ?r
    by (intro exI [of _ "stringOf q"]) (simp flip: zero_in_bytesOf)
next
  assume ?r
  then obtain q where q: "CHR 0x00 \<notin> set q" "length q < 524288" "length (pktData pkt) < 2 ^ 32"
    and pkt: "pkt = \<lparr>pktType = PacketTypeResponse, pktStatus = pktStatus pkt, pktPath = q,
              pktChannelId = pktChannelId pkt, pktData = pktData pkt, pktDontChunk = False,
              pktChannel = None, pktParams = None\<rparr>"
    and s: "s = [pktStatus pkt] @ bytesOf q @ [0] @ putUint32 (pktChannelId pkt)
           @ putUint32 (word_of_nat (length (pktData pkt))) @ pktData pkt @ r" by blast
  from q(3) have "unat (word_of_nat (length (pktData pkt)) :: u32) = length (pktData pkt)"
    by (simp add: unat_of_nat take_bit_eq_mod)
  with q s have "decodePacket s = Inr (\<lparr>pktType = PacketTypeResponse, pktStatus = pktStatus pkt,
      pktPath = q, pktChannelId = pktChannelId pkt, pktData = pktData pkt, pktDontChunk = False,
      pktChannel = None, pktParams = None\<rparr>, r)"
    by (simp add: decodePacket_def readPacketOf_def wire_simps)
  with pkt show ?l by simp
qed

lemma decodePacket_InrD:
  assumes "decodePacket s = Inr (pkt, r)"
  shows "CHR 0x00 \<notin> set (pktPath pkt)"
    and "s = [pktStatus pkt] @ bytesOf (pktPath pkt) @ [0] @ putUint32 (pktChannelId pkt)
           @ putUint32 (word_of_nat (length (pktData pkt))) @ pktData pkt @ r"
  using assms unfolding decodePacket_Inr by (metis packet.select_convs(3))+

lemma decodePacket_extend:
  "decodePacket s = Inr (pkt, r) \<Longrightarrow> decodePacket (s @ t) = Inr (pkt, r @ t)"
  unfolding decodePacket_Inr by (elim exE conjE) (rule exI, simp)

lemma decodePacket_error: "decodePacket s = Inl e \<Longrightarrow> e = readError"
  by (auto simp: decodePacket_def readPacketOf_def split: sum.splits prod.splits)

section \<open>The format is a self-delimiting codec\<close>

text \<open>What of a packet travels on the wire; the reader builds it with type response.\<close>

definition wireView :: "packet \<Rightarrow> packet" where
  "wireView pkt = \<lparr>pktType = PacketTypeResponse, pktStatus = pktStatus pkt,
     pktPath = pktPath pkt, pktChannelId = pktChannelId pkt, pktData = pktData pkt,
     pktDontChunk = False, pktChannel = None, pktParams = None\<rparr>"

definition noNul :: "packet \<Rightarrow> bool" where
  "noNul pkt \<longleftrightarrow> CHR 0x00 \<notin> set (pktPath pkt)"

lemma CreateNetPacket_Inr:
  "CreateNetPacket pkt = Inr bs \<longleftrightarrow>
     length (pktPath pkt) \<le> 2048 \<and> length (pktData pkt) \<le> 16777216 \<and>
     (pktStatus pkt = Status8 \<or> pktPath pkt \<noteq> '''') \<and>
     bs = [pktStatus pkt] @ bytesOf (pktPath pkt) @ [0] @ putUint32 (pktChannelId pkt)
           @ putUint32 (word_of_nat (length (pktData pkt))) @ pktData pkt"
  by (auto simp: CreateNetPacket_def)

lemma decodePacket_CreateNetPacket:
  assumes "noNul pkt" "CreateNetPacket pkt = Inr bs"
  shows "decodePacket (bs @ rest) = Inr (wireView pkt, rest)"
  using assms by (auto simp: decodePacket_Inr CreateNetPacket_Inr wireView_def noNul_def)

interpretation packet_codec: stream_codec CreateNetPacket decodePacket wireView noNul
  by unfold_locales (rule decodePacket_CreateNetPacket)

section \<open>Properties of the packet format\<close>

text \<open>C1: Round trip of the packet format: when the bytes a reader that is not itself a large
  \<open>bufio.Reader\<close> gives, in whatever pieces, start with
  what \<open>CreateNetPacket\<close> writes, \<open>ReadPacket\<close> returns a packet with the same status, path, channel id
  and data, provided the path holds no NUL byte. Of the bytes that follow it takes up to a
  buffer of 512 KiB out of the reader and drops them: when they come in one piece with the packet
  nothing is left for a second call.\<close>

theorem wire_roundtrip:
  assumes "CreateNetPacket pkt = Inr bs" and "CHR 0x00 \<notin> set (pktPath pkt)"
    and "concat reader = bs @ rest"
  shows "\<exists>p' ahead reader'. ReadPacket reader = Inr (p', reader') \<and> pktStatus p' = pktStatus pkt \<and>
    pktPath p' = pktPath pkt \<and> pktChannelId p' = pktChannelId pkt \<and> pktData p' = pktData pkt \<and>
    pktType p' = PacketTypeResponse \<and>
    rest = ahead @ concat reader' \<and> length ahead \<le> 512 * 1024 \<and>
    (reader = [bs @ rest] \<and> length (bs @ rest) \<le> 512 * 1024 \<longrightarrow> reader' = [])"
proof -
  have "decodePacket (concat reader) = Inr (wireView pkt, rest)"
    unfolding assms(3) by (rule packet_codec.dec_enc) (simp_all add: assms(1,2) noNul_def)
  with ReadPacket_decode [of reader] obtain ahead reader' where r:
    "ReadPacket reader = Inr (wireView pkt, reader')" "rest = ahead @ concat reader'" "length ahead \<le> bufSize"
    by auto
  have "bs @ rest \<noteq> []" using assms(1) by (auto simp: CreateNetPacket_Inr)
  then have "reader' = []" if "reader = [bs @ rest]" "length (bs @ rest) \<le> 512 * 1024"
    using ReadPacket_one_piece [of "bs @ rest"] r(1) that by simp
  with r show ?thesis by (auto simp: wireView_def)
qed

definition testPacket :: packet where
  "testPacket = \<lparr>pktType = PacketTypeRequest, pktStatus = Status8, pktPath = ''/testpath'',
     pktChannelId = 1234, pktData = [116, 101, 115, 116], pktDontChunk = False,
     pktChannel = None, pktParams = None\<rparr>"

lemma testPacket_bytes:
  "CreateNetPacket testPacket = Inr
     ([8] @ bytesOf ''/testpath'' @ [0, 0, 0, 4, 210, 0, 0, 0, 4, 116, 101, 115, 116])"
  by (simp add: CreateNetPacket_def testPacket_def Status8_def putUint32_def drop_bit_eq_div)

theorem wire_roundtrip_witness:
  "\<exists>bs p' p2. CreateNetPacket testPacket = Inr bs \<and> ReadPacket [bs @ bs] = Inr (p', []) \<and>
     pktChannelId p' = 1234 \<and> pktData p' = [116, 101, 115, 116] \<and> ReadPacket [] = Inl readError \<and>
     ReadPacket [take 5 bs, drop 5 bs, bs] = Inr (p2, [bs])"
proof -
  let ?bs = "[8] @ bytesOf ''/testpath'' @ [0, 0, 0, 4, 210, 0, 0, 0, 4, 116, 101, 115, 116]"
  have nul: "CHR 0x00 \<notin> set (pktPath testPacket)" by (simp add: testPacket_def)
  obtain p' where "ReadPacket [?bs @ ?bs] = Inr (p', [])" "pktChannelId p' = 1234" "pktData p' = [116, 101, 115, 116]"
    using wire_roundtrip [OF testPacket_bytes nul, of "[?bs @ ?bs]" ?bs] by (auto simp: testPacket_def)
  moreover have "ReadPacket [] = Inl readError" by (simp add: ReadPacket_def bufReadByte_def)
  moreover have "\<exists>p2. ReadPacket [take 5 ?bs, drop 5 ?bs, ?bs] = Inr (p2, [?bs])"
    by (simp add: bytesOf_def byteOfChar_def ReadPacket_def bufReadByte_def bufReadUint32_def
        bufReadSlice.simps bufReadFull.simps getUint32_def Let_def)
  ultimately show ?thesis using testPacket_bytes by blast
qed

text \<open>C4: The converse: whatever \<open>ReadPacket\<close> accepts is, if its path and data are within the
  limits of the writer and the path is not empty, the unique encoding of the packet it returns,
  followed by what it has read ahead and what is left in the reader; so the format has one
  encoding per packet.\<close>

theorem wire_read_exact:
  assumes "ReadPacket reader = Inr (pkt, reader')"
    and "length (pktPath pkt) \<le> 2048" and "length (pktData pkt) \<le> 16777216"
    and "pktPath pkt \<noteq> ''''"
  shows "\<exists>bs ahead. CreateNetPacket pkt = Inr bs \<and> concat reader = bs @ ahead @ concat reader' \<and>
    length ahead \<le> 512 * 1024"
proof -
  obtain ahead where "decodePacket (concat reader) = Inr (pkt, ahead @ concat reader')" "length ahead \<le> bufSize"
    using ReadPacket_Inr_decode [OF assms(1)] .
  with decodePacket_InrD [OF this(1)] assms(2-4) show ?thesis by (simp add: CreateNetPacket_Inr)
qed

theorem wire_read_exact_witness:
  "\<exists>pkt bs. ReadPacket [[1, 47, 0, 0], [0, 0, 7, 0, 0, 0, 1, 65, 66], [67]] = Inr (pkt, [[67]]) \<and>
     CreateNetPacket pkt = Inr bs \<and> bs = [1, 47, 0, 0, 0, 0, 7, 0, 0, 0, 1, 65]"
proof -
  let ?p = "\<lparr>pktType = PacketTypeResponse, pktStatus = 1, pktPath = ''/'', pktChannelId = 7,
    pktData = [65], pktDontChunk = False, pktChannel = None, pktParams = None\<rparr>"
  have r: "ReadPacket [[1, 47, 0, 0], [0, 0, 7, 0, 0, 0, 1, 65, 66], [67]] = Inr (?p, [[67]])"
    by (simp add: ReadPacket_def bufReadByte_def bufReadUint32_def bufReadSlice.simps bufReadFull.simps Let_def
        readPacketOf_def stringOf_def charOfByte_def char_of_def bit_simps getUint32_def)
  have c: "CreateNetPacket ?p = Inr [1, 47, 0, 0, 0, 0, 7, 0, 0, 0, 1, 65]"
    by (simp add: CreateNetPacket_def putUint32_def drop_bit_eq_div bytesOf_def byteOfChar_def)
  from wire_read_exact [OF r] c show ?thesis using r by auto
qed

text \<open>C5: A truncated packet is never taken for a packet: when the reader gives a proper prefix of an
  encoding and ends, in whatever pieces, \<open>ReadPacket\<close> reports its read error.\<close>

theorem wire_truncated:
  assumes "CreateNetPacket pkt = Inr bs" and "CHR 0x00 \<notin> set (pktPath pkt)" and "n < length bs"
    and "concat reader = take n bs"
  shows "ReadPacket reader = Inl readError"
proof (cases "decodePacket (take n bs)")
  case (Inl e)
  then show ?thesis using ReadPacket_decode [of reader] assms(4) by (auto dest: decodePacket_error)
next
  case (Inr x)
  obtain p r where x: "x = (p, r)" by (cases x)
  have "decodePacket (bs @ []) = Inr (wireView pkt, [])"
    by (rule packet_codec.dec_enc) (simp_all add: assms noNul_def)
  moreover from decodePacket_extend [OF Inr [unfolded x], of "drop n bs"]
  have "decodePacket bs = Inr (p, r @ drop n bs)" by simp
  ultimately have "drop n bs = []" by simp
  with assms(3) show ?thesis by simp
qed

theorem wire_truncated_witness:
  "ReadPacket [[8] @ bytesOf ''/test'', bytesOf ''path'' @ [0, 0, 0]] = Inl readError"
  by (rule wire_truncated [OF testPacket_bytes, of 13]) (simp_all add: testPacket_def bytesOf_def byteOfChar_def)

text \<open>\<open>CreateNetPacket\<close> refuses exactly the packets with a path of more than 2048 bytes, with
  more than 16 MB of data, or with an empty path and a status other than the closing one; what
  it accepts takes the path and data bytes and ten bytes of framing.\<close>

theorem CreateNetPacket_total:
  "isErr (CreateNetPacket pkt) =
     (length (pktPath pkt) > 2048 \<or> length (pktData pkt) > 16 * 1024 * 1024 \<or>
      (pktPath pkt = [] \<and> pktStatus pkt \<noteq> Status8)) \<and>
   (\<forall>bs. CreateNetPacket pkt = Inr bs \<longrightarrow>
      length bs = length (pktPath pkt) + length (pktData pkt) + 10 \<and>
      unat (word_of_nat (length (pktData pkt)) :: u32) = length (pktData pkt))"
  by (auto simp: CreateNetPacket_def unat_of_nat take_bit_eq_mod)

theorem CreateNetPacket_total_witness:
  "\<not> isErr (CreateNetPacket testPacket) \<and> isErr (CreateNetPacket (testPacket\<lparr>pktPath := [],
     pktStatus := StatusC1\<rparr>))"
  using CreateNetPacket_total [of testPacket]
    CreateNetPacket_total [of "testPacket\<lparr>pktPath := [], pktStatus := StatusC1\<rparr>"]
  by (simp add: testPacket_def status_defs)

text \<open>C6: The writer does not check the path for a NUL byte, which ends the path on the wire: a
  path with an embedded NUL is accepted, and a reader that accepts the bytes takes the part
  before the NUL for the path and the four bytes after it for the channel id.\<close>

theorem wire_nul_path_misframed:
  assumes "CreateNetPacket pkt = Inr bs"
    and "pktPath pkt = a @ CHR 0x00 # c0 # c1 # c2 # c3 # b" and "CHR 0x00 \<notin> set a"
    and "concat reader = bs @ rest" and "ReadPacket reader = Inr (p', reader')"
  shows "pktPath p' = a \<and>
    pktChannelId p' = getUint32 (byteOfChar c0) (byteOfChar c1) (byteOfChar c2) (byteOfChar c3)"
proof -
  from assms(1,2) have len: "length a < 524288"
    and bs: "bs = pktStatus pkt # bytesOf a @ 0 # byteOfChar c0 # byteOfChar c1 # byteOfChar c2 #
       byteOfChar c3 # bytesOf b @ 0 # putUint32 (pktChannelId pkt) @
       putUint32 (word_of_nat (length (pktData pkt))) @ pktData pkt"
    by (auto simp: CreateNetPacket_Inr bytesOf_def byteOfChar_def)
  let ?t = "byteOfChar c0 # byteOfChar c1 # byteOfChar c2 # byteOfChar c3 # bytesOf b @ 0 #
       putUint32 (pktChannelId pkt) @ putUint32 (word_of_nat (length (pktData pkt))) @
       pktData pkt @ rest"
  obtain ahead where "decodePacket (bs @ rest) = Inr (p', ahead @ concat reader')"
    using ReadPacket_Inr_decode [OF assms(5)] assms(4) by metis
  note p' = decodePacket_InrD [OF this]
  let ?u = "putUint32 (pktChannelId p') @ putUint32 (word_of_nat (length (pktData p'))) @
       pktData p' @ ahead @ concat reader'"
  from p'(2) bs have "bytesOf a @ 0 # ?t = bytesOf (pktPath p') @ 0 # ?u" by simp
  moreover have "0 \<notin> set (bytesOf a)" "0 \<notin> set (bytesOf (pktPath p'))"
    using assms(3) p'(1) by simp_all
  ultimately have eq: "bytesOf a = bytesOf (pktPath p')" and tu: "?t = ?u"
    by (blast dest: append_delim_eq)+
  from eq have "a = pktPath p'" by (metis stringOf_bytesOf)
  moreover from tu have "pktChannelId p' =
      getUint32 (byteOfChar c0) (byteOfChar c1) (byteOfChar c2) (byteOfChar c3)"
    by (metis append_Cons append_Nil bigEndian32.simps(1) bigEndian32_put putUint32_def)
  ultimately show ?thesis by simp
qed

theorem wire_nul_path_misframed_witness:
  "\<exists>pkt bs p' r. CreateNetPacket pkt = Inr bs \<and> pktChannelId pkt = 3 \<and>
     ReadPacket [bs] = Inr (p', r) \<and> pktPath p' = ''/a'' \<and> pktChannelId p' = 7"
proof -
  let ?path = "''/a'' @ CHR 0x00 # CHR 0x00 # CHR 0x00 # CHR 0x00 # CHR 0x07 #
     [CHR 0x00, CHR 0x00, CHR 0x00, CHR 0x01, CHR 0x58]"
  let ?pkt = "\<lparr>pktType = 0, pktStatus = 1, pktPath = ?path, pktChannelId = 3,
    pktData = [65], pktDontChunk = False, pktChannel = None, pktParams = None\<rparr>"
  let ?bs = "[1, 47, 97, 0, 0, 0, 0, 7, 0, 0, 0, 1, 88, 0, 0, 0, 0, 3, 0, 0, 0, 1, 65]"
  let ?p = "\<lparr>pktType = PacketTypeResponse, pktStatus = 1, pktPath = ''/a'', pktChannelId = 7,
    pktData = [88], pktDontChunk = False, pktChannel = None, pktParams = None\<rparr>"
  have c: "CreateNetPacket ?pkt = Inr ?bs"
    by (simp add: CreateNetPacket_def putUint32_def drop_bit_eq_div bytesOf_def byteOfChar_def)
  have r: "ReadPacket [?bs] = Inr (?p, [])"
    by (simp add: ReadPacket_def bufReadByte_def bufReadUint32_def bufReadSlice.simps bufReadFull.simps Let_def
        readPacketOf_def stringOf_def charOfByte_def char_of_def bit_simps getUint32_def)
  have "pktPath ?p = ''/a'' \<and> pktChannelId ?p = getUint32 (byteOfChar (CHR 0x00))
      (byteOfChar (CHR 0x00)) (byteOfChar (CHR 0x00)) (byteOfChar (CHR 0x07))"
    by (rule wire_nul_path_misframed [OF c _ _ _ r, of _ _ _ _ _ _ "[]"]) simp_all
  with c r show ?thesis by fastforce
qed

end
