(* ===== verification/Status.thy ===== *)
theory Status
  imports Consts
begin

text \<open>
  The status byte of \<open>protocol.go\<close>: the predicates on status values and the checks
  \<open>CheckClientPacketStatus\<close> and \<open>CheckServerPacketStatus\<close> that the read loops apply to each
  packet against the previous status of its channel. Both checks meet one contract, the locale
  \<open>status_flow\<close>: the accepted status sequences are those of whole messages one after another,
  a message being one single packet or a first packet, any number of further packets and a last
  one, with possibly an unfinished message at the end.
\<close>

section \<open>Predicates and checks\<close>

definition isClientStatusCompleted :: "byte \<Rightarrow> bool" where
  "isClientStatusCompleted status \<longleftrightarrow> status = StatusC1 \<or> status = StatusC3"

definition isClientStatusUncompleted :: "byte \<Rightarrow> bool" where
  "isClientStatusUncompleted status \<longleftrightarrow> status = StatusC0 \<or> status = StatusC2"

definition isServerStatusCompleted :: "byte \<Rightarrow> bool" where
  "isServerStatusCompleted status \<longleftrightarrow> status = StatusS5 \<or> status = StatusS7"

definition isServerStatusUncompleted :: "byte \<Rightarrow> bool" where
  "isServerStatusUncompleted status \<longleftrightarrow> status = StatusS4 \<or> status = StatusS6"

definition invalidTransition :: "byte \<Rightarrow> byte \<Rightarrow> gerr" where
  "invalidTransition prev current =
     TextErr (''invalid protocol, prev status: '' @ showNat (unat prev) @ '', current '' @
       showNat (unat current))"

definition invalidStatus :: "byte \<Rightarrow> gerr" where
  "invalidStatus current = TextErr (''invalid status value: '' @ showNat (unat current))"

text \<open>The checks return Go's \<open>error\<close>: \<open>None\<close> for nil.\<close>

definition CheckClientPacketStatus :: "byte \<Rightarrow> byte \<Rightarrow> gerr option" where
  "CheckClientPacketStatus prev current =
     (if current = StatusC0 \<or> current = StatusC1 then
        (if prev \<noteq> 255 \<and> \<not> isClientStatusCompleted prev
         then Some (invalidTransition prev current) else None)
      else if current = StatusC2 \<or> current = StatusC3 then
        (if \<not> isClientStatusUncompleted prev
         then Some (invalidTransition prev current) else None)
      else if current = Status8 then None
      else Some (invalidStatus current))"

definition CheckServerPacketStatus :: "byte \<Rightarrow> byte \<Rightarrow> gerr option" where
  "CheckServerPacketStatus prev current =
     (if current = StatusS4 \<or> current = StatusS5 then
        (if prev \<noteq> 255 \<and> \<not> isServerStatusCompleted prev
         then Some (invalidTransition prev current) else None)
      else if current = StatusS6 \<or> current = StatusS7 then
        (if \<not> isServerStatusUncompleted prev
         then Some (invalidTransition prev current) else None)
      else if current = Status8 then None
      else Some (invalidStatus current))"

lemmas client_status_defs = CheckClientPacketStatus_def isClientStatusCompleted_def
  isClientStatusUncompleted_def status_defs
lemmas server_status_defs = CheckServerPacketStatus_def isServerStatusCompleted_def
  isServerStatusUncompleted_def status_defs

section \<open>Status sequences\<close>

text \<open>A channel's recent status is 255 at first and then the status of the last packet.\<close>

fun acceptsFrom :: "(byte \<Rightarrow> byte \<Rightarrow> gerr option) \<Rightarrow> byte \<Rightarrow> byte list \<Rightarrow> bool" where
  "acceptsFrom check prev [] = True"
| "acceptsFrom check prev (c # cs) = (check prev c = None \<and> acceptsFrom check c cs)"

text \<open>The statuses of one whole message, and of a message still under way (or of none).\<close>

definition wholeMessage :: "byte \<Rightarrow> byte \<Rightarrow> byte \<Rightarrow> byte \<Rightarrow> byte list \<Rightarrow> bool" where
  "wholeMessage fm fd nm nd m \<longleftrightarrow> m = [fd] \<or> (\<exists>n. m = fm # replicate n nm @ [nd])"

definition openMessage :: "byte \<Rightarrow> byte \<Rightarrow> byte list \<Rightarrow> bool" where
  "openMessage fm nm m \<longleftrightarrow> m = [] \<or> (\<exists>n. m = fm # replicate n nm)"

fun flow :: "byte \<Rightarrow> byte \<Rightarrow> byte \<Rightarrow> byte \<Rightarrow> bool \<Rightarrow> byte list \<Rightarrow> bool" where
  "flow fm fd nm nd b [] = True"
| "flow fm fd nm nd False (c # cs) =
     (c = fd \<and> flow fm fd nm nd False cs \<or> c = fm \<and> flow fm fd nm nd True cs)"
| "flow fm fd nm nd True (c # cs) =
     (c = nm \<and> flow fm fd nm nd True cs \<or> c = nd \<and> flow fm fd nm nd False cs)"

locale status_flow =
  fixes check :: "byte \<Rightarrow> byte \<Rightarrow> gerr option"
    and completed :: "byte \<Rightarrow> bool"
    and fm fd nm nd :: byte
  assumes distinct: "distinct [fm, fd, nm, nd, 8, 255]"
    and completed: "completed c \<longleftrightarrow> c = fd \<or> c = nd"
    and check: "check prev c = None \<longleftrightarrow>
      (c = fm \<or> c = fd) \<and> (prev = 255 \<or> completed prev) \<or>
      (c = nm \<or> c = nd) \<and> (prev = fm \<or> prev = nm) \<or> c = 8"
begin

lemma accepts_flow:
  assumes "8 \<notin> set cs"
  shows "prev = 255 \<or> completed prev \<Longrightarrow> acceptsFrom check prev cs = flow fm fd nm nd False cs"
    and "prev = fm \<or> prev = nm \<Longrightarrow> acceptsFrom check prev cs = flow fm fd nm nd True cs"
  using assms
proof (induction cs arbitrary: prev)
  case (Cons c cs)
  {
    case 1
    with Cons.IH [of c] distinct show ?case
      by (auto simp: check completed)
  next
    case 2
    with Cons.IH [of c] distinct show ?case
      by (auto simp: check completed)
  }
qed simp_all

lemma flow_repeat: "flow fm fd nm nd True (replicate n nm @ cs) = flow fm fd nm nd True cs"
  using distinct by (induction n) auto

lemma flow_whole:
  assumes "wholeMessage fm fd nm nd m"
  shows "flow fm fd nm nd False (m @ cs) = flow fm fd nm nd False cs"
  using assms distinct by (auto simp: wholeMessage_def flow_repeat)

lemma flow_open: "openMessage fm nm m \<Longrightarrow> flow fm fd nm nd False m"
  using distinct flow_repeat [of _ "[]"] by (auto simp: openMessage_def)

lemma completed_whole: "wholeMessage fm fd nm nd m \<Longrightarrow> length (filter completed m) = 1"
  using distinct by (auto simp: wholeMessage_def completed filter_replicate)

lemma completed_open: "openMessage fm nm m \<Longrightarrow> filter completed m = []"
  using distinct by (auto simp: openMessage_def completed filter_replicate)

lemma flow_split:
  shows "flow fm fd nm nd False cs \<Longrightarrow>
      \<exists>ms m. cs = concat ms @ m \<and> (\<forall>x \<in> set ms. wholeMessage fm fd nm nd x) \<and> openMessage fm nm m"
    and "flow fm fd nm nd True cs \<Longrightarrow>
      (\<exists>n. cs = replicate n nm) \<or>
      (\<exists>n ms m. cs = replicate n nm @ nd # concat ms @ m \<and>
        (\<forall>x \<in> set ms. wholeMessage fm fd nm nd x) \<and> openMessage fm nm m)"
proof (induction cs)
  case Nil
  {
    case 1
    show ?case by (intro exI [of _ "[]"]) (simp add: openMessage_def)
  next
    case 2
    show ?case by (rule disjI1) (rule exI [of _ 0], simp)
  }
next
  case (Cons c cs)
  {
    case 1
    then consider "c = fd" "flow fm fd nm nd False cs" | "c = fm" "flow fm fd nm nd True cs"
      by auto
    then show ?case
    proof cases
      case 1
      from Cons.IH(1) [OF 1(2)] obtain ms m where
        "cs = concat ms @ m" "\<forall>x \<in> set ms. wholeMessage fm fd nm nd x" "openMessage fm nm m"
        by blast
      with 1(1) show ?thesis
        by (intro exI [of _ "[fd] # ms"] exI [of _ m]) (simp add: wholeMessage_def)
    next
      case 2
      from Cons.IH(2) [OF 2(2)] show ?thesis
      proof (elim disjE exE conjE)
        fix n
        assume "cs = replicate n nm"
        with 2(1) show ?thesis
          by (intro exI [of _ "[]"] exI [of _ "c # cs"]) (auto simp: openMessage_def)
      next
        fix n ms m
        assume "cs = replicate n nm @ nd # concat ms @ m"
          "\<forall>x \<in> set ms. wholeMessage fm fd nm nd x" "openMessage fm nm m"
        with 2(1) show ?thesis
          by (intro exI [of _ "(fm # replicate n nm @ [nd]) # ms"] exI [of _ m])
            (auto simp: wholeMessage_def)
      qed
    qed
  next
    case 2
    then consider "c = nm" "flow fm fd nm nd True cs" | "c = nd" "flow fm fd nm nd False cs"
      by auto
    then show ?case
    proof cases
      case 1
      from Cons.IH(2) [OF 1(2)] 1(1) show ?thesis
        by (metis append_Cons replicate_Suc)
    next
      case 2
      from Cons.IH(1) [OF 2(2)] 2(1) show ?thesis
        by (metis append_Nil replicate_0)
    qed
  }
qed

lemma count_completed:
  assumes "\<forall>x \<in> set ms. wholeMessage fm fd nm nd x"
  shows "length (filter completed (concat ms)) = length ms"
  using assms by (induction ms) (auto simp: completed_whole)

lemma flow_concat:
  assumes "\<forall>x \<in> set ms. wholeMessage fm fd nm nd x"
  shows "flow fm fd nm nd False (concat ms @ m) = flow fm fd nm nd False m"
  using assms by (induction ms) (auto simp: flow_whole)

lemma accepted_language:
  assumes "8 \<notin> set cs"
  shows "acceptsFrom check 255 cs \<longleftrightarrow>
    (\<exists>ms m. cs = concat ms @ m \<and> (\<forall>x \<in> set ms. wholeMessage fm fd nm nd x) \<and> openMessage fm nm m \<and>
      length ms = length (filter completed cs))"
proof
  assume "acceptsFrom check 255 cs"
  then have "flow fm fd nm nd False cs" using accepts_flow(1) assms by blast
  from flow_split(1) [OF this] obtain ms m where cs: "cs = concat ms @ m"
    and ms: "\<forall>x \<in> set ms. wholeMessage fm fd nm nd x" and m: "openMessage fm nm m" by blast
  then have "length ms = length (filter completed cs)"
    by (simp add: count_completed completed_open)
  with cs ms m show "\<exists>ms m. cs = concat ms @ m \<and>
      (\<forall>x \<in> set ms. wholeMessage fm fd nm nd x) \<and> openMessage fm nm m \<and>
      length ms = length (filter completed cs)" by blast
next
  assume "\<exists>ms m. cs = concat ms @ m \<and> (\<forall>x \<in> set ms. wholeMessage fm fd nm nd x) \<and>
      openMessage fm nm m \<and> length ms = length (filter completed cs)"
  then have "flow fm fd nm nd False cs" by (auto simp: flow_concat flow_open)
  then show "acceptsFrom check 255 cs" using accepts_flow(1) assms by blast
qed

lemma whole_accepted:
  assumes "wholeMessage fm fd nm nd m" "prev = 255 \<or> completed prev"
  shows "acceptsFrom check prev m"
proof -
  have "8 \<notin> set m" using assms(1) distinct by (auto simp: wholeMessage_def)
  moreover have "flow fm fd nm nd False m"
    using flow_whole [OF assms(1), of "[]"] by simp
  ultimately show ?thesis using accepts_flow(1) assms(2) by blast
qed

end

interpretation client_flow: status_flow CheckClientPacketStatus isClientStatusCompleted
  StatusC0 StatusC1 StatusC2 StatusC3
  by unfold_locales (auto simp: client_status_defs)

interpretation server_flow: status_flow CheckServerPacketStatus isServerStatusCompleted
  StatusS4 StatusS5 StatusS6 StatusS7
  by unfold_locales (auto simp: server_status_defs)

section \<open>Properties of the status checks\<close>

text \<open>C7: The client statuses a server accepts on a channel (the closing status apart) are
  exactly those of whole requests one after another and possibly one request under way: each
  whole request is C1 alone, or C0, any number of C2, and C3; there are as many whole requests
  as statuses that complete one.\<close>

theorem client_status_language:
  assumes "Status8 \<notin> set cs"
  shows "acceptsFrom CheckClientPacketStatus 255 cs \<longleftrightarrow>
    (\<exists>ms m. cs = concat ms @ m \<and>
      (\<forall>x \<in> set ms. wholeMessage StatusC0 StatusC1 StatusC2 StatusC3 x) \<and>
      openMessage StatusC0 StatusC2 m \<and>
      length ms = length (filter isClientStatusCompleted cs))"
  by (rule client_flow.accepted_language) (use assms in \<open>simp add: Status8_def\<close>)

theorem client_status_language_witness:
  "\<exists>ms m. [1, 0, 2, 2, 3, 0] = concat ms @ m \<and>
      (\<forall>x \<in> set ms. wholeMessage StatusC0 StatusC1 StatusC2 StatusC3 x) \<and>
      openMessage StatusC0 StatusC2 m \<and>
      length ms = length (filter isClientStatusCompleted [1, 0, 2, 2, 3, 0])"
proof -
  have "Status8 \<notin> set [1, 0, 2, 2, 3, 0]" by (simp add: status_defs)
  moreover have "acceptsFrom CheckClientPacketStatus 255 [1, 0, 2, 2, 3, 0]"
    by (simp add: client_status_defs)
  ultimately show ?thesis using client_status_language by blast
qed

text \<open>The server statuses a client accepts on a channel are exactly those of whole responses
  one after another and possibly one response under way: each whole response is S5 alone, or
  S4, any number of S6, and S7.\<close>

theorem server_status_language:
  assumes "Status8 \<notin> set cs"
  shows "acceptsFrom CheckServerPacketStatus 255 cs \<longleftrightarrow>
    (\<exists>ms m. cs = concat ms @ m \<and>
      (\<forall>x \<in> set ms. wholeMessage StatusS4 StatusS5 StatusS6 StatusS7 x) \<and>
      openMessage StatusS4 StatusS6 m \<and>
      length ms = length (filter isServerStatusCompleted cs))"
  by (rule server_flow.accepted_language) (use assms in \<open>simp add: Status8_def\<close>)

theorem server_status_language_witness:
  "\<exists>ms m. [5, 4, 6, 7] = concat ms @ m \<and>
      (\<forall>x \<in> set ms. wholeMessage StatusS4 StatusS5 StatusS6 StatusS7 x) \<and>
      openMessage StatusS4 StatusS6 m \<and>
      length ms = length (filter isServerStatusCompleted [5, 4, 6, 7])"
proof -
  have "Status8 \<notin> set [5, 4, 6, 7]" by (simp add: status_defs)
  moreover have "acceptsFrom CheckServerPacketStatus 255 [5, 4, 6, 7]"
    by (simp add: server_status_defs)
  ultimately show ?thesis using server_status_language by blast
qed

end
