(* ===== verification/Statis.thy ===== *)
theory Statis
  imports Consts "HOL-Library.Multiset"
begin

text \<open>
  The counters and measurements of \<open>statis.go\<close>: \<open>Count\<close>, the time ranges, \<open>RangeStatis\<close>,
  \<open>TimeCount\<close>, \<open>Measure\<close> with its ring of 301 per-second slots, the ticker and the figures the
  method \<open>String\<close> prints. All numbers are \<open>int64\<close>: 64 bit words that wrap. The atomic additions
  of the code make each operation here one step: the ticker takes no lock, but an addition that took
  the current slot before a tick is the same as one made before it.
\<close>

section \<open>Counters\<close>

record count =
  PacketsSent :: i64
  PacketReceived :: i64
  WholePacketSent :: i64
  WholePacketReceived :: i64
  BytesSent :: i64
  BytesReceived :: i64

definition zeroCount :: count where
  "zeroCount = \<lparr>PacketsSent = 0, PacketReceived = 0, WholePacketSent = 0,
     WholePacketReceived = 0, BytesSent = 0, BytesReceived = 0\<rparr>"

definition Count_Add :: "count \<Rightarrow> count \<Rightarrow> count" where
  "Count_Add m v = \<lparr>PacketsSent = PacketsSent m + PacketsSent v,
     PacketReceived = PacketReceived m + PacketReceived v,
     WholePacketSent = WholePacketSent m + WholePacketSent v,
     WholePacketReceived = WholePacketReceived m + WholePacketReceived v,
     BytesSent = BytesSent m + BytesSent v,
     BytesReceived = BytesReceived m + BytesReceived v\<rparr>"

definition Count_AddPtr :: "count \<Rightarrow> count option \<Rightarrow> count" where
  "Count_AddPtr m v = (case v of None \<Rightarrow> m | Some c \<Rightarrow> Count_Add m c)"

section \<open>Time ranges\<close>

definition TimeRange1 :: i64 where "TimeRange1 = 0"
definition TimeRange2 :: i64 where "TimeRange2 = 1"
definition TimeRange3 :: i64 where "TimeRange3 = 2"
definition TimeRange4 :: i64 where "TimeRange4 = 3"
definition TimeRange5 :: i64 where "TimeRange5 = 4"
definition TimeRange6 :: i64 where "TimeRange6 = 5"
definition TimeRange7 :: i64 where "TimeRange7 = 6"
definition TimeRangeOther :: i64 where "TimeRangeOther = 7"

lemmas time_range_defs = TimeRange1_def TimeRange2_def TimeRange3_def TimeRange4_def
  TimeRange5_def TimeRange6_def TimeRange7_def TimeRangeOther_def

definition ensureTimeRangeDefault :: "i64 \<Rightarrow> i64" where
  "ensureTimeRangeDefault v =
     (if sint v \<le> 100 then TimeRange1
      else if sint v \<le> 200 then TimeRange2
      else if sint v \<le> 300 then TimeRange3
      else if sint v \<le> 500 then TimeRange4
      else if sint v \<le> 700 then TimeRange5
      else if sint v \<le> 1000 then TimeRange6
      else if sint v \<le> 1500 then TimeRange7
      else TimeRangeOther)"

text \<open>Durations are nanoseconds.\<close>

definition Nanosecond :: i64 where "Nanosecond = 1"
definition Microsecond :: i64 where "Microsecond = 1000"
definition Millisecond :: i64 where "Millisecond = 1000000"
definition Second :: i64 where "Second = 1000000000"

definition EnsureTimeRangeMicroSecond :: "i64 \<Rightarrow> i64" where
  "EnsureTimeRangeMicroSecond duration = ensureTimeRangeDefault (quot64 duration Microsecond)"

definition EnsureTimeRangeMilliSecond :: "i64 \<Rightarrow> i64" where
  "EnsureTimeRangeMilliSecond duration = ensureTimeRangeDefault (quot64 duration Millisecond)"

definition EnsureTimeRangeSecond :: "i64 \<Rightarrow> i64" where
  "EnsureTimeRangeSecond duration = ensureTimeRangeDefault (quot64 duration Second)"

section \<open>Range statistics\<close>

record rangeStatis =
  rsDuration :: i64
  rsCount :: i64

definition zeroRange :: rangeStatis where "zeroRange = \<lparr>rsDuration = 0, rsCount = 0\<rparr>"

definition RangeStatis_Add :: "rangeStatis \<Rightarrow> i64 \<Rightarrow> i64 \<Rightarrow> rangeStatis" where
  "RangeStatis_Add m duration cnt =
     \<lparr>rsDuration = rsDuration m + duration, rsCount = rsCount m + cnt\<rparr>"

definition RangeStatis_AddObj :: "rangeStatis \<Rightarrow> rangeStatis \<Rightarrow> rangeStatis" where
  "RangeStatis_AddObj m rs =
     \<lparr>rsDuration = rsDuration m + rsDuration rs, rsCount = rsCount m + rsCount rs\<rparr>"

text \<open>A \<open>TimeCount\<close> is its array of eight range statistics.\<close>

type_synonym timeCount = "rangeStatis list"

definition newTimeCount :: timeCount where "newTimeCount = replicate 8 zeroRange"

definition TimeCount_Clear :: "timeCount \<Rightarrow> timeCount" where
  "TimeCount_Clear m = map (\<lambda>_. zeroRange) m"

definition rangeIndex :: "i64 \<Rightarrow> nat" where
  "rangeIndex r =
     (if r = TimeRange1 then 0 else if r = TimeRange2 then 1 else if r = TimeRange3 then 2
      else if r = TimeRange4 then 3 else if r = TimeRange5 then 4 else if r = TimeRange6 then 5
      else if r = TimeRange7 then 6 else 7)"

definition TimeCount_Record :: "timeCount \<Rightarrow> i64 \<Rightarrow> (i64 \<Rightarrow> i64) option \<Rightarrow> timeCount" where
  "TimeCount_Record m duration ensureFunc =
     (case ensureFunc of None \<Rightarrow> m
      | Some f \<Rightarrow> let i = rangeIndex (f duration) in m[i := RangeStatis_Add (m ! i) duration 1])"

section \<open>Measures\<close>

record measure =
  FiveMinuteRequests :: "i64 list"
  FiveMinuteDuration :: "i64 list"
  AllRequests :: i64
  AllDuration :: i64
  FiveMinuteTimeCount :: "timeCount list"
  AllTimeCount :: timeCount
  currentSecond :: nat
  timeRangeEnsureFunc :: "(i64 \<Rightarrow> i64) option"

definition NewMesure :: "(i64 \<Rightarrow> i64) option \<Rightarrow> measure" where
  "NewMesure f =
     \<lparr>FiveMinuteRequests = replicate 301 0, FiveMinuteDuration = replicate 301 0,
      AllRequests = 0, AllDuration = 0,
      FiveMinuteTimeCount = replicate 301 newTimeCount, AllTimeCount = newTimeCount,
      currentSecond = 0,
      timeRangeEnsureFunc = (case f of None \<Rightarrow> Some EnsureTimeRangeMilliSecond | Some g \<Rightarrow> Some g)\<rparr>"

definition SetTimeRangeFunc :: "measure \<Rightarrow> (i64 \<Rightarrow> i64) option \<Rightarrow> measure" where
  "SetTimeRangeFunc m v = (case v of None \<Rightarrow> m | Some f \<Rightarrow> m\<lparr>timeRangeEnsureFunc := Some f\<rparr>)"

text \<open>
  One round of the loop of \<open>tickTack\<close>: \<open>tm\<close> is the second of the last round, \<open>tmNow\<close> the
  second the clock shows now. The result is the measure and the new \<open>tm\<close>.
\<close>

definition nextSecond :: "nat \<Rightarrow> nat" where
  "nextSecond idx = (if idx + 1 > 300 then 0 else idx + 1)"

definition tickTack :: "measure \<Rightarrow> nat \<Rightarrow> nat \<Rightarrow> measure \<times> nat" where
  "tickTack m tm tmNow =
     (if tmNow \<noteq> tm then
        let idx = nextSecond (currentSecond m); idxNext = nextSecond idx
        in (m\<lparr>currentSecond := idx,
              FiveMinuteRequests := (FiveMinuteRequests m)[idxNext := 0],
              FiveMinuteDuration := (FiveMinuteDuration m)[idxNext := 0],
              FiveMinuteTimeCount := (FiveMinuteTimeCount m)
                [idxNext := TimeCount_Clear (FiveMinuteTimeCount m ! idxNext)]\<rparr>, tmNow)
      else (m, tm))"

definition Measure_Add :: "measure \<Rightarrow> i64 \<Rightarrow> i64 \<Rightarrow> measure" where
  "Measure_Add m cnt dur =
     (let idx = currentSecond m
      in m\<lparr>FiveMinuteRequests := (FiveMinuteRequests m)[idx := FiveMinuteRequests m ! idx + cnt],
           AllRequests := AllRequests m + cnt,
           FiveMinuteDuration := (FiveMinuteDuration m)[idx := FiveMinuteDuration m ! idx + dur],
           AllDuration := AllDuration m + dur,
           FiveMinuteTimeCount := (FiveMinuteTimeCount m)
             [idx := TimeCount_Record (FiveMinuteTimeCount m ! idx) dur (timeRangeEnsureFunc m)],
           AllTimeCount := TimeCount_Record (AllTimeCount m) dur (timeRangeEnsureFunc m)\<rparr>)"

section \<open>The figures of \<open>String\<close>\<close>

text \<open>The loop over 300 slots of the ring, from the current one on.\<close>

fun stringLoop :: "measure \<Rightarrow> nat \<Rightarrow> nat \<Rightarrow> i64 \<times> i64 \<times> rangeStatis list \<Rightarrow>
    i64 \<times> i64 \<times> rangeStatis list" where
  "stringLoop m 0 idx acc = acc"
| "stringLoop m (Suc n) idx (dur5, req5, rcs) =
     stringLoop m n (if idx + 1 \<ge> 300 then 0 else idx + 1)
       (dur5 + FiveMinuteDuration m ! idx, req5 + FiveMinuteRequests m ! idx,
        map2 RangeStatis_AddObj rcs (FiveMinuteTimeCount m ! idx))"

definition ifZero :: "i64 \<Rightarrow> i64" where
  "ifZero v = (if v = 0 then 1 else v)"

text \<open>The three figures of one range: its count, its percentage, its average duration.\<close>

definition rangeFigures :: "i64 \<Rightarrow> i64 \<Rightarrow> rangeStatis \<Rightarrow> i64 \<Rightarrow> i64 list" where
  "rangeFigures timeUnit tot rc duration =
     [rsCount rc, quot64 (rsCount rc * 100) tot,
      quot64 (quot64 duration (ifZero (rsCount rc))) timeUnit]"

text \<open>
  The arguments of the final \<open>Sprintf\<close>, in order; \<open>None\<close> is the panic of a division by a zero
  time unit. The last eight averages take their durations from the five minute ranges, as the
  code does.
\<close>

definition Measure_String :: "measure \<Rightarrow> i64 \<Rightarrow> i64 list option" where
  "Measure_String m timeUnit =
     (if timeUnit = 0 then None
      else
        let (dur5, req5, rcs) =
              stringLoop m 300 (currentSecond m) (0, 0, replicate 8 zeroRange);
            all = map2 RangeStatis_AddObj (replicate 8 zeroRange) (AllTimeCount m);
            allTimeCount = ifZero (sum_list (map rsCount all));
            fTimeCount = ifZero (sum_list (map rsCount rcs));
            reqAll = (if sint (AllRequests m) \<le> 0 then 1 else AllRequests m);
            averageDurAll = quot64 (AllDuration m) reqAll
        in Some
          ([req5, quot64 (quot64 dur5 fTimeCount) timeUnit, AllRequests m,
            quot64 averageDurAll timeUnit]
           @ concat (map (\<lambda>rc. rangeFigures timeUnit fTimeCount rc (rsDuration rc)) rcs)
           @ concat (map2 (\<lambda>rc rc5. rangeFigures timeUnit allTimeCount rc (rsDuration rc5))
                       all rcs)))"

section \<open>Counters add up in any order\<close>

text \<open>
  The contract of everything that is counted with atomic additions: an addition that commutes,
  so that the result does not depend on the order in which the goroutines add.
\<close>

locale counter =
  fixes add :: "'c \<Rightarrow> 'c \<Rightarrow> 'c"
  assumes add_right_commute: "add (add c x) y = add (add c y) x"
begin

lemma fold_add_commute: "fold (\<lambda>x c. add c x) xs (add c y) = add (fold (\<lambda>x c. add c x) xs c) y"
  by (induction xs arbitrary: c) (auto simp: add_right_commute)

lemma order_irrelevant:
  assumes "mset xs = mset ys"
  shows "fold (\<lambda>x c. add c x) xs c = fold (\<lambda>x c. add c x) ys c"
  using assms
proof (induction xs arbitrary: ys c)
  case (Cons x xs)
  then have "x \<in> set ys" by (metis list.set_intros(1) set_mset_mset)
  then obtain us vs where ys: "ys = us @ x # vs" by (meson split_list)
  with Cons.prems have "mset xs = mset (us @ vs)" by simp
  from Cons.IH [OF this] show ?case
    by (simp add: ys fold_add_commute)
qed simp

end

lemma Count_Add_right_commute: "Count_Add (Count_Add c x) y = Count_Add (Count_Add c y) x"
  by (simp add: Count_Add_def add_ac)

interpretation counts: counter Count_Add
  by unfold_locales (rule Count_Add_right_commute)

interpretation ranges: counter RangeStatis_AddObj
  by unfold_locales (simp add: RangeStatis_AddObj_def add_ac)

lemma Count_Add_fields [simp]:
  "PacketsSent (Count_Add m v) = PacketsSent m + PacketsSent v"
  "PacketReceived (Count_Add m v) = PacketReceived m + PacketReceived v"
  "WholePacketSent (Count_Add m v) = WholePacketSent m + WholePacketSent v"
  "WholePacketReceived (Count_Add m v) = WholePacketReceived m + WholePacketReceived v"
  "BytesSent (Count_Add m v) = BytesSent m + BytesSent v"
  "BytesReceived (Count_Add m v) = BytesReceived m + BytesReceived v"
  by (simp_all add: Count_Add_def)

lemma fold_Count_Add_fields:
  "BytesSent (fold (\<lambda>x c. Count_Add c x) xs c) = BytesSent c + sum_list (map BytesSent xs)"
  "PacketsSent (fold (\<lambda>x c. Count_Add c x) xs c) = PacketsSent c + sum_list (map PacketsSent xs)"
  "PacketReceived (fold (\<lambda>x c. Count_Add c x) xs c) =
     PacketReceived c + sum_list (map PacketReceived xs)"
  "WholePacketSent (fold (\<lambda>x c. Count_Add c x) xs c) =
     WholePacketSent c + sum_list (map WholePacketSent xs)"
  "WholePacketReceived (fold (\<lambda>x c. Count_Add c x) xs c) =
     WholePacketReceived c + sum_list (map WholePacketReceived xs)"
  "BytesReceived (fold (\<lambda>x c. Count_Add c x) xs c) =
     BytesReceived c + sum_list (map BytesReceived xs)"
  by (induction xs arbitrary: c) (simp_all add: add.assoc)

section \<open>The state of a measure\<close>

lemma rangeIndex_less [simp]: "rangeIndex r < 8"
  by (simp add: rangeIndex_def)

lemma rangeIndex_default [simp]:
  "rangeIndex (ensureTimeRangeDefault v) = unat (ensureTimeRangeDefault v)"
  by (simp add: rangeIndex_def ensureTimeRangeDefault_def time_range_defs)

lemma length_newTimeCount [simp]: "length newTimeCount = 8"
  by (simp add: newTimeCount_def)

lemma length_TimeCount_Clear [simp]: "length (TimeCount_Clear m) = length m"
  by (simp add: TimeCount_Clear_def)

lemma TimeCount_Clear_replicate: "TimeCount_Clear m = replicate (length m) zeroRange"
  by (simp add: TimeCount_Clear_def map_replicate_const)

lemma length_TimeCount_Record [simp]: "length (TimeCount_Record m d f) = length m"
  by (simp add: TimeCount_Record_def Let_def split: option.split)

definition wfMeasure :: "measure \<Rightarrow> bool" where
  "wfMeasure m \<longleftrightarrow> length (FiveMinuteRequests m) = 301 \<and> length (FiveMinuteDuration m) = 301 \<and>
     length (FiveMinuteTimeCount m) = 301 \<and> (\<forall>tc \<in> set (FiveMinuteTimeCount m). length tc = 8) \<and>
     length (AllTimeCount m) = 8 \<and> currentSecond m \<le> 300 \<and> timeRangeEnsureFunc m \<noteq> None"

text \<open>The slot after the current one is empty: the ticker cleared it.\<close>

definition nextSlotEmpty :: "measure \<Rightarrow> bool" where
  "nextSlotEmpty m \<longleftrightarrow> (let i = nextSecond (currentSecond m) in
     FiveMinuteRequests m ! i = 0 \<and> FiveMinuteDuration m ! i = 0 \<and>
     FiveMinuteTimeCount m ! i = newTimeCount)"

lemma nextSecond_le [simp]: "nextSecond i \<le> 300"
  by (simp add: nextSecond_def)

lemma nextSecond_neq [simp]: "nextSecond i \<noteq> i"
  by (simp add: nextSecond_def)

lemma nextSecond_mod: "i \<le> 300 \<Longrightarrow> nextSecond i = (i + 1) mod 301"
  by (cases "i = 300") (auto simp: nextSecond_def)

lemma nextSecond_less [simp]: "nextSecond i < 301"
  by (simp add: nextSecond_def)

lemma wfMeasure_New [simp]: "wfMeasure (NewMesure f)"
  by (simp add: wfMeasure_def NewMesure_def split: option.split)

lemma nextSlotEmpty_New [simp]: "nextSlotEmpty (NewMesure f)"
  by (simp add: nextSlotEmpty_def NewMesure_def Let_def nextSecond_def)

lemma set_update_length:
  assumes "\<forall>x \<in> set xs. length x = n" "i < length xs" "length y = length (xs ! i)"
  shows "\<forall>x \<in> set (xs[i := y]). length x = n"
  using assms set_update_subset_insert [of xs i y] nth_mem [of i xs] by fastforce

lemma wfMeasure_Add:
  assumes "wfMeasure m"
  shows "wfMeasure (Measure_Add m cnt dur)"
proof -
  let ?i = "currentSecond m"
  have "\<forall>tc \<in> set ((FiveMinuteTimeCount m)[?i := TimeCount_Record (FiveMinuteTimeCount m ! ?i) dur
      (timeRangeEnsureFunc m)]). length tc = 8"
    by (rule set_update_length) (use assms in \<open>auto simp: wfMeasure_def\<close>)
  with assms show ?thesis by (simp add: wfMeasure_def Measure_Add_def Let_def del: set_update_memI)
qed

lemma wfMeasure_tickTack:
  assumes "wfMeasure m"
  shows "wfMeasure (fst (tickTack m tm tmNow))"
proof -
  let ?n = "nextSecond (nextSecond (currentSecond m))"
  have "\<forall>tc \<in> set ((FiveMinuteTimeCount m)[?n := TimeCount_Clear (FiveMinuteTimeCount m ! ?n)]).
      length tc = 8"
    by (rule set_update_length) (use assms in \<open>auto simp: wfMeasure_def\<close>)
  with assms show ?thesis by (simp add: wfMeasure_def tickTack_def Let_def)
qed

lemma nextSlotEmpty_Add:
  "wfMeasure m \<Longrightarrow> nextSlotEmpty m \<Longrightarrow> nextSlotEmpty (Measure_Add m cnt dur)"
  by (simp add: nextSlotEmpty_def Measure_Add_def Let_def not_sym [OF nextSecond_neq])

lemma nextSlotEmpty_tickTack:
  "wfMeasure m \<Longrightarrow> nextSlotEmpty m \<Longrightarrow> nextSlotEmpty (fst (tickTack m tm tmNow))"
  by (auto simp: nextSlotEmpty_def tickTack_def wfMeasure_def Let_def TimeCount_Clear_replicate
      newTimeCount_def less_Suc_eq_le)

section \<open>The ring of slots as a sliding window\<close>

text \<open>The slot used \<open>k\<close> seconds ago, and the last 300 slots, newest first.\<close>

definition slotBack :: "nat \<Rightarrow> nat \<Rightarrow> nat" where
  "slotBack cur k = (if k \<le> cur then cur - k else cur + 301 - k)"

definition ringWindow :: "'a list \<Rightarrow> nat \<Rightarrow> 'a list" where
  "ringWindow xs cur = map (\<lambda>k. xs ! slotBack cur k) [0..<300]"

lemma length_ringWindow [simp]: "length (ringWindow xs cur) = 300"
  by (simp add: ringWindow_def)

lemma ringWindow_update:
  assumes "length xs = 301" "cur \<le> 300"
  shows "ringWindow (xs[cur := y]) cur = (ringWindow xs cur)[0 := y]"
proof (rule nth_equalityI)
  fix k
  assume "k < length (ringWindow (xs[cur := y]) cur)"
  then have "k < 300" by simp
  with assms show "ringWindow (xs[cur := y]) cur ! k = (ringWindow xs cur)[0 := y] ! k"
    by (cases k) (auto simp: ringWindow_def slotBack_def nth_list_update)
qed simp

lemma slotBack_next:
  assumes "cur \<le> 300" "k < 299"
  shows "slotBack (nextSecond cur) (Suc k) = slotBack cur k"
    and "slotBack cur k \<noteq> nextSecond (nextSecond cur)"
  using assms by (auto simp: slotBack_def nextSecond_def)

lemma ringWindow_tick:
  assumes "length xs = 301" "cur \<le> 300"
  shows "ringWindow (xs[nextSecond (nextSecond cur) := z]) (nextSecond cur) =
    xs ! nextSecond cur # butlast (ringWindow xs cur)"
proof (rule nth_equalityI)
  fix k
  assume "k < length (ringWindow (xs[nextSecond (nextSecond cur) := z]) (nextSecond cur))"
  then have k: "k < 300" by simp
  show "ringWindow (xs[nextSecond (nextSecond cur) := z]) (nextSecond cur) ! k =
      (xs ! nextSecond cur # butlast (ringWindow xs cur)) ! k"
  proof (cases k)
    case 0
    have "slotBack (nextSecond cur) 0 = nextSecond cur" by (simp add: slotBack_def)
    with 0 show ?thesis by (simp add: ringWindow_def not_sym [OF nextSecond_neq])
  next
    case (Suc j)
    with k have "j < 299" by simp
    with slotBack_next [OF assms(2) this] Suc show ?thesis
      by (simp add: ringWindow_def nth_butlast)
  qed
qed simp

text \<open>What happens to a measure: additions, and rounds of its ticker at some second.\<close>

datatype measureEvent = AddE i64 i64 | RoundE nat

fun measureStep :: "measure \<times> nat \<Rightarrow> measureEvent \<Rightarrow> measure \<times> nat" where
  "measureStep (m, tm) (AddE cnt dur) = (Measure_Add m cnt dur, tm)"
| "measureStep (m, tm) (RoundE tmNow) = tickTack m tm tmNow"

definition measureRun :: "measure \<times> nat \<Rightarrow> measureEvent list \<Rightarrow> measure \<times> nat" where
  "measureRun = foldl measureStep"

text \<open>
  What a run of events means, without a ring: the second the ticker saw last, how often it saw the
  second change, and the additions (requests and duration) after which it saw it change \<open>k\<close> times.
\<close>

fun lastSeen :: "nat \<Rightarrow> measureEvent list \<Rightarrow> nat" where
  "lastSeen tm [] = tm"
| "lastSeen tm (AddE cnt dur # es) = lastSeen tm es"
| "lastSeen tm (RoundE tmNow # es) = lastSeen tmNow es"

fun changesSeen :: "nat \<Rightarrow> measureEvent list \<Rightarrow> nat" where
  "changesSeen tm [] = 0"
| "changesSeen tm (AddE cnt dur # es) = changesSeen tm es"
| "changesSeen tm (RoundE tmNow # es) = (if tmNow \<noteq> tm then 1 else 0) + changesSeen tmNow es"

fun addsAt :: "nat \<Rightarrow> nat \<Rightarrow> measureEvent list \<Rightarrow> (i64 \<times> i64) list" where
  "addsAt k tm [] = []"
| "addsAt k tm (AddE cnt dur # es) =
     (if changesSeen tm es = k then [(cnt, dur)] else []) @ addsAt k tm es"
| "addsAt k tm (RoundE tmNow # es) = addsAt k tmNow es"

fun addsOf :: "measureEvent list \<Rightarrow> (i64 \<times> i64) list" where
  "addsOf [] = []"
| "addsOf (AddE cnt dur # es) = (cnt, dur) # addsOf es"
| "addsOf (RoundE tmNow # es) = addsOf es"

text \<open>
  The eight ranges of some durations: for each range the sum and the number of the durations
  the range function puts there, the last range being the one for every other value.
\<close>

definition inRange :: "nat \<Rightarrow> i64 \<Rightarrow> bool" where
  "inRange j r = (if j < 7 then r = word_of_nat j else r \<notin> {0, 1, 2, 3, 4, 5, 6})"

definition rangesOf :: "(i64 \<Rightarrow> i64) \<Rightarrow> i64 list \<Rightarrow> timeCount" where
  "rangesOf f ds =
     map (\<lambda>j. \<lparr>rsDuration = sum_list (filter (\<lambda>d. inRange j (f d)) ds),
               rsCount = word_of_nat (length (filter (\<lambda>d. inRange j (f d)) ds))\<rparr>) [0..<8]"

definition timeFunc :: "(i64 \<Rightarrow> i64) option \<Rightarrow> i64 \<Rightarrow> i64" where
  "timeFunc f = (case f of None \<Rightarrow> EnsureTimeRangeMilliSecond | Some g \<Rightarrow> g)"

lemma rangeIndex_inRange:
  assumes "j < 8"
  shows "rangeIndex r = j \<longleftrightarrow> inRange j r"
proof -
  from assms have "j = 0 \<or> j = 1 \<or> j = 2 \<or> j = 3 \<or> j = 4 \<or> j = 5 \<or> j = 6 \<or> j = 7" by linarith
  then show ?thesis by (elim disjE) (auto simp: rangeIndex_def inRange_def time_range_defs)
qed

lemma length_rangesOf [simp]: "length (rangesOf f ds) = 8"
  by (simp add: rangesOf_def)

lemma rangesOf_Nil: "rangesOf f [] = newTimeCount"
  by (simp add: rangesOf_def newTimeCount_def zeroRange_def map_replicate_const)

lemma Record_rangesOf:
  "TimeCount_Record (rangesOf f ds) d (Some f) = rangesOf f (ds @ [d])"
proof (rule nth_equalityI)
  fix j
  assume "j < length (TimeCount_Record (rangesOf f ds) d (Some f))"
  then have j: "j < 8" by simp
  then show "TimeCount_Record (rangesOf f ds) d (Some f) ! j = rangesOf f (ds @ [d]) ! j"
    using rangeIndex_inRange [OF j, of "f d"]
    by (auto simp: TimeCount_Record_def Let_def rangesOf_def RangeStatis_Add_def nth_list_update)
qed simp

lemma changesSeen_snoc:
  "changesSeen tm (es @ [AddE cnt dur]) = changesSeen tm es"
  "changesSeen tm (es @ [RoundE now]) = changesSeen tm es + (if now \<noteq> lastSeen tm es then 1 else 0)"
  by (induction tm es rule: changesSeen.induct) auto

lemma lastSeen_snoc:
  "lastSeen tm (es @ [AddE cnt dur]) = lastSeen tm es" "lastSeen tm (es @ [RoundE now]) = now"
  by (induction tm es rule: lastSeen.induct) auto

lemma addsAt_snoc:
  "addsAt k tm (es @ [AddE cnt dur]) = addsAt k tm es @ (if k = 0 then [(cnt, dur)] else [])"
  "addsAt k tm (es @ [RoundE now]) =
     (if now = lastSeen tm es then addsAt k tm es
      else case k of 0 \<Rightarrow> [] | Suc j \<Rightarrow> addsAt j tm es)"
  by (induction k tm es rule: addsAt.induct) (auto simp: changesSeen_snoc split: nat.splits)

lemma addsOf_snoc:
  "addsOf (es @ [AddE cnt dur]) = addsOf es @ [(cnt, dur)]" "addsOf (es @ [RoundE now]) = addsOf es"
  by (induction es rule: addsOf.induct) auto

text \<open>The last 300 slots of the three rings, newest first.\<close>

definition recentRequests :: "measure \<Rightarrow> i64 list" where
  "recentRequests m = ringWindow (FiveMinuteRequests m) (currentSecond m)"

lemma measureStep_inv:
  assumes "wfMeasure m" "nextSlotEmpty m"
  shows "wfMeasure (fst (measureStep (m, tm) e))" "nextSlotEmpty (fst (measureStep (m, tm) e))"
  using assms by (cases e; simp add: wfMeasure_Add wfMeasure_tickTack nextSlotEmpty_Add
      nextSlotEmpty_tickTack)+

definition recentDurations :: "measure \<Rightarrow> i64 list" where
  "recentDurations m = ringWindow (FiveMinuteDuration m) (currentSecond m)"

definition recentTimeCounts :: "measure \<Rightarrow> timeCount list" where
  "recentTimeCounts m = ringWindow (FiveMinuteTimeCount m) (currentSecond m)"

lemma map_upt_first: "0 < n \<Longrightarrow> (map g [0..<n])[0 := y] = map (\<lambda>k. if k = 0 then y else g k) [0..<n]"
  by (rule nth_equalityI) (auto simp: nth_list_update)

lemma map_upt_shift:
  "0 < n \<Longrightarrow> y # butlast (map g [0..<n]) = map (case_nat y g) [0..<n]"
  by (rule nth_equalityI) (auto simp: nth_Cons nth_butlast split: nat.splits)

lemma ringWindow_first [simp]: "ringWindow xs cur ! 0 = xs ! cur"
  by (simp add: ringWindow_def slotBack_def)

text \<open>The three windows of one state are those of the events \<open>es\<close>.\<close>

definition windowOf :: "(i64 \<Rightarrow> i64) \<Rightarrow> nat \<Rightarrow> measureEvent list \<Rightarrow> measure \<Rightarrow> bool" where
  "windowOf f tm es m \<longleftrightarrow>
     recentRequests m = map (\<lambda>k. sum_list (map fst (addsAt k tm es))) [0..<300] \<and>
     recentDurations m = map (\<lambda>k. sum_list (map snd (addsAt k tm es))) [0..<300] \<and>
     recentTimeCounts m = map (\<lambda>k. rangesOf f (map snd (addsAt k tm es))) [0..<300]"

definition totalsOf :: "(i64 \<Rightarrow> i64) \<Rightarrow> measureEvent list \<Rightarrow> measure \<Rightarrow> bool" where
  "totalsOf f es m \<longleftrightarrow>
     AllRequests m = sum_list (map fst (addsOf es)) \<and>
     AllDuration m = sum_list (map snd (addsOf es)) \<and>
     AllTimeCount m = rangesOf f (map snd (addsOf es))"

lemma windowOf_Add:
  assumes "wfMeasure m" "windowOf f tm es m" "timeRangeEnsureFunc m = Some f"
  shows "windowOf f tm (es @ [AddE cnt dur]) (Measure_Add m cnt dur)"
proof -
  note w = assms(2) [unfolded windowOf_def recentRequests_def recentDurations_def recentTimeCounts_def]
  let ?i = "currentSecond m"
  have len: "length (FiveMinuteRequests m) = 301" "length (FiveMinuteDuration m) = 301"
    "length (FiveMinuteTimeCount m) = 301" and cur: "?i \<le> 300"
    using assms(1) by (simp_all add: wfMeasure_def)
  have first: "FiveMinuteRequests m ! ?i = sum_list (map fst (addsAt 0 tm es))"
    "FiveMinuteDuration m ! ?i = sum_list (map snd (addsAt 0 tm es))"
    "FiveMinuteTimeCount m ! ?i = rangesOf f (map snd (addsAt 0 tm es))"
    by (simp_all add: w flip: ringWindow_first [of _ ?i])
  show ?thesis
    using first w len cur assms(3)
    by (simp add: windowOf_def recentRequests_def recentDurations_def recentTimeCounts_def
        Measure_Add_def Let_def ringWindow_update map_upt_first Record_rangesOf addsAt_snoc)
qed

lemma windowOf_tick:
  assumes "wfMeasure m" "nextSlotEmpty m" "windowOf f tm es m"
  shows "windowOf f tm (es @ [RoundE now]) (fst (tickTack m (lastSeen tm es) now))"
proof (cases "now = lastSeen tm es")
  case True
  then show ?thesis using assms(3) by (simp add: tickTack_def windowOf_def addsAt_snoc)
next
  case False
  have len: "length (FiveMinuteRequests m) = 301" "length (FiveMinuteDuration m) = 301"
    "length (FiveMinuteTimeCount m) = 301" and cur: "currentSecond m \<le> 300"
    using assms(1) by (simp_all add: wfMeasure_def)
  have shift: "case_nat (h []) (\<lambda>k. h (addsAt k tm es)) =
      (\<lambda>k. h (case k of 0 \<Rightarrow> [] | Suc j \<Rightarrow> addsAt j tm es))" for h :: "(i64 \<times> i64) list \<Rightarrow> 'a"
    by (rule ext) (simp split: nat.split)
  note s = shift [of "\<lambda>as. sum_list (map fst as)"] shift [of "\<lambda>as. sum_list (map snd as)"]
    shift [of "\<lambda>as. rangesOf f (map snd as)"]
  show ?thesis
    using False assms(2,3) len cur s
    by (simp add: windowOf_def recentRequests_def recentDurations_def recentTimeCounts_def
        tickTack_def nextSlotEmpty_def Let_def ringWindow_tick map_upt_shift addsAt_snoc rangesOf_Nil)
qed

lemma windowOf_New: "windowOf f tm [] (NewMesure g)"
  by (auto simp: windowOf_def recentRequests_def recentDurations_def recentTimeCounts_def
      ringWindow_def NewMesure_def slotBack_def rangesOf_Nil)

lemma totalsOf_New: "totalsOf f [] (NewMesure g)"
  by (simp add: totalsOf_def NewMesure_def rangesOf_Nil)

lemma totalsOf_Add:
  "totalsOf f es m \<Longrightarrow> timeRangeEnsureFunc m = Some f \<Longrightarrow>
     totalsOf f (es @ [AddE cnt dur]) (Measure_Add m cnt dur)"
  by (simp add: totalsOf_def Measure_Add_def Let_def addsOf_snoc Record_rangesOf)

lemma totalsOf_tick: "totalsOf f es m \<Longrightarrow> totalsOf f (es @ [RoundE now]) (fst (tickTack m tm now))"
  by (simp add: totalsOf_def tickTack_def Let_def addsOf_snoc)

text \<open>Along a run from a new measure all of it holds.\<close>

lemma measureRun_inv:
  fixes f tm es
  defines "m \<equiv> fst (measureRun (NewMesure f, tm) es)"
  shows "wfMeasure m \<and> nextSlotEmpty m \<and> timeRangeEnsureFunc m = Some (timeFunc f) \<and>
    snd (measureRun (NewMesure f, tm) es) = lastSeen tm es \<and>
    windowOf (timeFunc f) tm es m \<and> totalsOf (timeFunc f) es m"
  unfolding m_def
proof (induction es rule: rev_induct)
  case Nil
  then show ?case
    by (simp add: measureRun_def windowOf_New totalsOf_New) (simp add: NewMesure_def timeFunc_def split: option.split)
next
  case (snoc e es)
  obtain m tm' where r: "measureRun (NewMesure f, tm) es = (m, tm')" by fastforce
  then have s: "measureRun (NewMesure f, tm) (es @ [e]) = measureStep (m, tm') e"
    by (simp add: measureRun_def)
  from snoc.IH r have m: "wfMeasure m" "nextSlotEmpty m" "timeRangeEnsureFunc m = Some (timeFunc f)"
    "tm' = lastSeen tm es" "windowOf (timeFunc f) tm es m" "totalsOf (timeFunc f) es m" by simp_all
  note inv = measureStep_inv [OF m(1,2), of tm' e]
  show ?case
  proof (cases e)
    case (AddE cnt dur)
    then show ?thesis
      using s inv m windowOf_Add [OF m(1,5,3), of cnt dur] totalsOf_Add [OF m(6,3), of cnt dur]
      by (simp add: lastSeen_snoc) (simp add: Measure_Add_def Let_def)
  next
    case (RoundE now)
    then show ?thesis
      using s inv m windowOf_tick [OF m(1,2,5), of now] totalsOf_tick [OF m(6), of now tm']
      by (simp add: lastSeen_snoc) (simp add: tickTack_def Let_def)
  qed
qed

section \<open>The slots \<open>String\<close> visits\<close>

fun stringIdx :: "nat \<Rightarrow> nat \<Rightarrow> nat list" where
  "stringIdx 0 idx = []"
| "stringIdx (Suc n) idx = idx # stringIdx n (if idx + 1 \<ge> 300 then 0 else idx + 1)"

lemma stringLoop_sums:
  "stringLoop m n idx (d, r, rcs) =
     (d + sum_list (map ((!) (FiveMinuteDuration m)) (stringIdx n idx)),
      r + sum_list (map ((!) (FiveMinuteRequests m)) (stringIdx n idx)),
      foldl (map2 RangeStatis_AddObj) rcs (map ((!) (FiveMinuteTimeCount m)) (stringIdx n idx)))"
  by (induction n arbitrary: idx d r rcs) (simp_all add: add.assoc)

lemma stringIdx_run:
  "idx + n \<le> 300 \<Longrightarrow> 0 < n \<Longrightarrow>
     stringIdx (n + k) idx = [idx..<idx + n] @ stringIdx k (if idx + n = 300 then 0 else idx + n)"
proof (induction n arbitrary: idx)
  case (Suc n)
  show ?case
  proof (cases "n = 0")
    case True
    with Suc.prems show ?thesis by simp
  next
    case False
    with Suc.prems Suc.IH [of "Suc idx"] show ?thesis
      by (simp add: upt_conv_Cons)
  qed
qed simp

lemma stringIdx_300:
  "stringIdx 300 idx = (if idx < 300 then [idx..<300] @ [0..<idx]
     else if idx = 300 then 300 # [0..<299] else stringIdx 300 idx)"
proof -
  have a: "stringIdx 300 idx = [idx..<300] @ [0..<idx]" if "idx < 300"
  proof (cases "idx = 0")
    case True
    then show ?thesis using stringIdx_run [of 0 300 0] by simp
  next
    case False
    then show ?thesis
      using that stringIdx_run [of idx "300 - idx" idx] stringIdx_run [of 0 idx 0] by simp
  qed
  have b: "stringIdx 300 300 = 300 # [0..<299]"
    using stringIdx_run [of 0 299 0] stringIdx.simps(2) [of 299 300] by simp
  show ?thesis using a b by simp
qed

text \<open>The one slot the loop leaves out.\<close>

definition missedSlot :: "nat \<Rightarrow> nat" where
  "missedSlot idx = (if idx = 300 then 299 else 300)"

lemma stringIdx_set:
  assumes "idx \<le> 300"
  shows "distinct (stringIdx 300 idx)" and "set (stringIdx 300 idx) = {..300} - {missedSlot idx}"
  using assms by (auto simp: stringIdx_300 missedSlot_def)

lemma slotBack_inj: "cur \<le> 300 \<Longrightarrow> inj_on (slotBack cur) {..<300}"
  by (auto simp: inj_on_def slotBack_def split: if_splits)

lemma slotBack_image:
  assumes "cur \<le> 300"
  shows "slotBack cur ` {..<300} = {..300} - {nextSecond cur}"
proof
  show "slotBack cur ` {..<300} \<subseteq> {..300} - {nextSecond cur}"
    using assms by (auto simp: slotBack_def nextSecond_def)
  show "{..300} - {nextSecond cur} \<subseteq> slotBack cur ` {..<300}"
  proof
    fix i
    assume i: "i \<in> {..300} - {nextSecond cur}"
    let ?k = "if i \<le> cur then cur - i else cur + 301 - i"
    from i assms have "?k < 300" "slotBack cur ?k = i"
      by (auto simp: slotBack_def nextSecond_def split: if_splits)
    then show "i \<in> slotBack cur ` {..<300}" by (metis image_eqI lessThan_iff)
  qed
qed

lemma slotBack_set:
  assumes "cur \<le> 300"
  shows "distinct (map (slotBack cur) [0..<300])"
    and "set (map (slotBack cur) [0..<300]) = {..300} - {nextSecond cur}"
  unfolding distinct_map set_map set_upt atLeast0LessThan
  using slotBack_inj [OF assms] slotBack_image [OF assms] distinct_upt by blast+

lemma sum_list_ringWindow:
  fixes xs :: "i64 list"
  assumes "length xs = 301" "cur \<le> 300" "xs ! nextSecond cur = 0"
  shows "sum_list (ringWindow xs cur) = (\<Sum>i\<le>300. xs ! i)"
proof -
  have "ringWindow xs cur = map ((!) xs) (map (slotBack cur) [0..<300])"
    by (simp add: ringWindow_def)
  then have "sum_list (ringWindow xs cur) = sum ((!) xs) ({..300} - {nextSecond cur})"
    using slotBack_set [OF assms(2)] by (simp only: sum_list_distinct_conv_sum_set)
  then show ?thesis using assms(3) by (simp add: sum_diff1)
qed

lemma sum_list_stringIdx:
  fixes xs :: "i64 list"
  assumes "idx \<le> 300"
  shows "sum_list (map ((!) xs) (stringIdx 300 idx)) + xs ! missedSlot idx = (\<Sum>i\<le>300. xs ! i)"
proof -
  have "sum_list (map ((!) xs) (stringIdx 300 idx)) = sum ((!) xs) ({..300} - {missedSlot idx})"
    using stringIdx_set [OF assms] by (simp only: sum_list_distinct_conv_sum_set)
  moreover have "missedSlot idx \<le> 300" by (simp add: missedSlot_def)
  ultimately show ?thesis by (simp add: sum_diff1)
qed

lemma ifZero_nonzero [simp]: "ifZero v \<noteq> 0"
  by (simp add: ifZero_def)

section \<open>Properties of the statistics\<close>

text \<open>Counters do not lose or reorder anything: however the additions of a multiset of counts
  are interleaved, every field ends as its start value plus the sum of the added fields.\<close>

theorem count_interleaving:
  assumes "mset xs = mset ys"
  shows "fold (\<lambda>v c. Count_Add c v) xs c = fold (\<lambda>v c. Count_Add c v) ys c \<and>
    BytesSent (fold (\<lambda>v c. Count_Add c v) xs c) = BytesSent c + sum_list (map BytesSent ys) \<and>
    PacketsSent (fold (\<lambda>v c. Count_Add c v) xs c) = PacketsSent c + sum_list (map PacketsSent ys) \<and>
    WholePacketReceived (fold (\<lambda>v c. Count_Add c v) xs c) =
      WholePacketReceived c + sum_list (map WholePacketReceived ys)"
  unfolding counts.order_irrelevant [OF assms] by (simp add: fold_Count_Add_fields)

theorem count_interleaving_witness:
  "PacketsSent (fold (\<lambda>v c. Count_Add c v)
     [zeroCount\<lparr>PacketsSent := 1\<rparr>, zeroCount\<lparr>BytesSent := 12\<rparr>] zeroCount) = 1"
  using count_interleaving [of "[zeroCount\<lparr>PacketsSent := 1\<rparr>, zeroCount\<lparr>BytesSent := 12\<rparr>]"
      "[zeroCount\<lparr>BytesSent := 12\<rparr>, zeroCount\<lparr>PacketsSent := 1\<rparr>]" zeroCount]
  by (simp add: zeroCount_def)

text \<open>C8: The ring of per-second slots is the sliding window it stands for: after any sequence of
  additions and ticker rounds on a new measure, the \<open>k\<close>-th newest of its last 300 slots holds the
  requests, the duration and the eight range counts of exactly the additions since which the
  ticker has seen the second of the clock change \<open>k\<close> times. (The ticker looks every 100 ms; when the
  second jumped by several it shifts the window by one only.)\<close>

theorem measure_refines_window:
  "recentRequests (fst (measureRun (NewMesure f, tm) es)) =
     map (\<lambda>k. sum_list (map fst (addsAt k tm es))) [0..<300] \<and>
   recentDurations (fst (measureRun (NewMesure f, tm) es)) =
     map (\<lambda>k. sum_list (map snd (addsAt k tm es))) [0..<300] \<and>
   recentTimeCounts (fst (measureRun (NewMesure f, tm) es)) =
     map (\<lambda>k. rangesOf (timeFunc f) (map snd (addsAt k tm es))) [0..<300]"
  using measureRun_inv [of f tm es] by (simp add: windowOf_def)

text \<open>The five minute request figure of \<open>String\<close> leaves out one slot of the window: it is
  the window's total less the requests of slot 300 (of slot 299 while 300 is the current slot),
  because its loop wraps at 300 although the ring has 301 slots.\<close>

theorem String_window_requests:
  assumes "wfMeasure m" "nextSlotEmpty m" "timeUnit \<noteq> 0"
  shows "\<exists>args. Measure_String m timeUnit = Some args \<and>
    args ! 0 + FiveMinuteRequests m ! missedSlot (currentSecond m) = sum_list (recentRequests m)"
proof -
  have len: "length (FiveMinuteRequests m) = 301" and cur: "currentSecond m \<le> 300"
    and nxt: "FiveMinuteRequests m ! nextSecond (currentSecond m) = 0"
    using assms(1,2) by (simp_all add: wfMeasure_def nextSlotEmpty_def Let_def)
  obtain args where args: "Measure_String m timeUnit = Some args"
    and r: "args ! 0 = sum_list (map ((!) (FiveMinuteRequests m)) (stringIdx 300 (currentSecond m)))"
    using assms(3) by (simp add: Measure_String_def stringLoop_sums Let_def)
  have "args ! 0 + FiveMinuteRequests m ! missedSlot (currentSecond m) =
      (\<Sum>i\<le>300. FiveMinuteRequests m ! i)"
    unfolding r by (rule sum_list_stringIdx) (rule cur)
  also have "\<dots> = sum_list (recentRequests m)"
    unfolding recentRequests_def by (rule sum_list_ringWindow [symmetric, OF len cur nxt])
  finally show ?thesis using args by blast
qed

text \<open>A state with its only request in slot 300, one second ago: nothing is reported.\<close>

definition lossyMeasure :: measure where
  "lossyMeasure = (NewMesure None)\<lparr>FiveMinuteRequests := (replicate 301 0)[300 := 1],
     currentSecond := 0\<rparr>"

theorem String_window_requests_witness:
  "\<exists>args. Measure_String lossyMeasure Microsecond = Some args \<and>
     args ! 0 + 1 = sum_list (recentRequests lossyMeasure)"
proof -
  have "wfMeasure lossyMeasure"
    using wfMeasure_New [of None] by (simp add: wfMeasure_def lossyMeasure_def)
  moreover have "nextSlotEmpty lossyMeasure"
    using nextSlotEmpty_New [of None]
    by (simp add: nextSlotEmpty_def lossyMeasure_def Let_def nextSecond_def NewMesure_def)
  moreover have "Microsecond \<noteq> 0" by (simp add: Microsecond_def)
  ultimately show ?thesis
    using String_window_requests [of lossyMeasure Microsecond]
    by (simp add: lossyMeasure_def missedSlot_def NewMesure_def)
qed

text \<open>The range averages that \<open>String\<close> prints for the whole lifetime do not depend on the
  lifetime durations at all: replacing them by any others leaves every printed figure as it is
  (they are computed from the five minute durations).\<close>

theorem String_all_averages_ignore_durations:
  assumes "map rsCount tc = map rsCount (AllTimeCount m)"
  shows "Measure_String (m\<lparr>AllTimeCount := tc\<rparr>) timeUnit = Measure_String m timeUnit"
proof -
  let ?z = "replicate 8 zeroRange"
  have loop: "stringLoop (m\<lparr>AllTimeCount := tc\<rparr>) 300 (currentSecond m) (0, 0, ?z) =
      stringLoop m 300 (currentSecond m) (0, 0, ?z)"
    by (simp add: stringLoop_sums)
  have "length tc = length (AllTimeCount m)" using assms by (metis length_map)
  then have counts: "map rsCount (map2 RangeStatis_AddObj ?z tc) =
      map rsCount (map2 RangeStatis_AddObj ?z (AllTimeCount m))"
    using assms by (auto simp: list_eq_iff_nth_eq RangeStatis_AddObj_def)
  have figures: "map2 (\<lambda>rc rc5. rangeFigures timeUnit t rc (rsDuration rc5)) xs rcs =
      map2 (\<lambda>rc rc5. rangeFigures timeUnit t rc (rsDuration rc5)) ys rcs"
    if "map rsCount xs = map rsCount ys" for t xs ys rcs
  proof -
    from that have "length xs = length ys" by (metis length_map)
    with that show ?thesis
      by (auto simp: list_eq_iff_nth_eq rangeFigures_def)
  qed
  show ?thesis
    by (simp add: Measure_String_def Let_def loop counts figures [OF counts] del: map_map
        split: prod.split)
qed

theorem String_all_averages_ignore_durations_witness:
  "Measure_String ((NewMesure None)\<lparr>AllTimeCount := replicate 8 \<lparr>rsDuration = 99, rsCount = 0\<rparr>\<rparr>)
     Second = Measure_String (NewMesure None) Second"
  by (rule String_all_averages_ignore_durations)
    (simp add: NewMesure_def newTimeCount_def zeroRange_def)

definition exceeded :: "int \<Rightarrow> nat" where
  "exceeded v = length (filter (\<lambda>t. t < v) [100, 200, 300, 500, 700, 1000, 1500])"

lemma sint_quot64:
  assumes "1 \<le> k" "k < 2 ^ 63"
  shows "sint (quot64 d (word_of_int k)) = sint d sdiv k"
proof -
  have k: "sint (word_of_int k :: i64) = k"
    using assms by (simp add: signed_of_int signed_take_bit_int_eq_self)
  have d: "- (2 ^ 63) \<le> sint d" "sint d < 2 ^ 63"
    using sint_ge [of d] sint_lt [of d] by simp_all
  have "\<bar>sint d sdiv k\<bar> = \<bar>sint d\<bar> div k"
    using assms(1) by (cases "sint d = 0")
      (simp_all add: signed_divide_int_def abs_mult abs_sgn_eq pos_imp_zdiv_nonneg_iff)
  moreover have "\<bar>sint d\<bar> div k \<le> \<bar>sint d\<bar>"
    using assms(1) by (metis abs_ge_zero div_by_1 zdiv_mono2 zero_less_one)
  moreover have "0 \<le> sint d sdiv k" if "0 \<le> sint d"
    using that assms(1)
    by (auto simp: signed_divide_int_def pos_imp_zdiv_nonneg_iff sgn_if)
  moreover have "sint d sdiv k \<le> 0" if "sint d < 0"
    using that assms(1)
    by (auto simp: signed_divide_int_def pos_imp_zdiv_nonneg_iff sgn_if)
  ultimately have "- (2 ^ 63) \<le> sint d sdiv k" "sint d sdiv k < 2 ^ 63"
    using d by linarith+
  then show ?thesis unfolding quot64_def k by (simp add: signed_of_int signed_take_bit_int_eq_self)
qed

lemma ensureTimeRangeDefault_exceeded:
  "rangeIndex (ensureTimeRangeDefault v) = exceeded (sint v)"
  by (simp add: rangeIndex_def ensureTimeRangeDefault_def time_range_defs exceeded_def)

text \<open>The range a duration is recorded in is the number of thresholds (100, 200, 300, 500,
  700, 1000, 1500) that its truncated value in the unit of the range function exceeds, so the
  ranges partition the durations and grow with them, for microseconds, milliseconds and
  seconds alike.\<close>

theorem time_range_thresholds:
  "rangeIndex (EnsureTimeRangeMicroSecond d) = exceeded (sint d sdiv 1000) \<and>
   rangeIndex (EnsureTimeRangeMilliSecond d) = exceeded (sint d sdiv 1000000) \<and>
   rangeIndex (EnsureTimeRangeSecond d) = exceeded (sint d sdiv 1000000000)"
  using sint_quot64 [of 1000 d] sint_quot64 [of 1000000 d] sint_quot64 [of 1000000000 d]
  by (simp add: EnsureTimeRangeMicroSecond_def EnsureTimeRangeMilliSecond_def
      EnsureTimeRangeSecond_def ensureTimeRangeDefault_exceeded Microsecond_def Millisecond_def
      Second_def del: rangeIndex_default)

lemma inRange_default:
  "j < 8 \<Longrightarrow> inRange j (EnsureTimeRangeMilliSecond d) \<longleftrightarrow> exceeded (sint d sdiv 1000000) = j"
  using rangeIndex_inRange [of j "EnsureTimeRangeMilliSecond d"] sint_quot64 [of 1000000 d]
  by (simp add: EnsureTimeRangeMilliSecond_def ensureTimeRangeDefault_exceeded Millisecond_def
      del: rangeIndex_default)

lemma rangesOf_default:
  "map rsCount (rangesOf (timeFunc None) ds) =
     map (\<lambda>j. word_of_nat (length (filter (\<lambda>d. exceeded (sint d sdiv 1000000) = j) ds))) [0..<8]"
  by (simp add: rangesOf_def timeFunc_def inRange_default del: upt_rec_numeral cong: map_cong)

text \<open>C9: The lifetime totals of a measure are exact (modulo the 64 bits): after any sequence of
  additions and ticks the requests and durations are the sums of those added, and each of the
  eight ranges holds the sum and the number of exactly the added durations that the range function
  puts there. With the default function these are the durations whose whole milliseconds exceed
  that many of the thresholds 100, 200, 300, 500, 700, 1000 and 1500.\<close>

theorem measure_totals:
  "AllRequests (fst (measureRun (NewMesure f, tm) es)) = sum_list (map fst (addsOf es)) \<and>
   AllDuration (fst (measureRun (NewMesure f, tm) es)) = sum_list (map snd (addsOf es)) \<and>
   AllTimeCount (fst (measureRun (NewMesure f, tm) es)) = rangesOf (timeFunc f) (map snd (addsOf es)) \<and>
   map rsCount (AllTimeCount (fst (measureRun (NewMesure None, tm) es))) =
     map (\<lambda>j. word_of_nat (length (filter (\<lambda>d. exceeded (sint d sdiv 1000000) = j)
       (map snd (addsOf es))))) [0..<8]"
  using measureRun_inv [of f tm es] measureRun_inv [of None tm es]
  by (simp add: totalsOf_def rangesOf_default)

end
