(* ===== verification/Utils.thy ===== *)
theory Utils
  imports Consts
begin

text \<open>
  The small types of \<open>utils.go\<close>: \<open>DefaultErrorHolder\<close>, \<open>DefaultContext\<close> (a dictionary that is
  allocated on first use), \<open>DefaultRequest\<close>, \<open>ValidatePath\<close> over the parser of package net/url,
  and the pool of notify channels.
\<close>

section \<open>Error holders\<close>

record errorHolder =
  ehErr :: "gerr option"

definition GetError :: "errorHolder \<Rightarrow> gerr option" where "GetError m = ehErr m"
definition SetError :: "errorHolder \<Rightarrow> gerr option \<Rightarrow> errorHolder" where
  "SetError m err = m\<lparr>ehErr := err\<rparr>"

section \<open>Contexts\<close>

text \<open>
  A value of type \<open>interface{}\<close> is \<open>None\<close> for nil. The dictionary itself is nil until the first
  \<open>SetCtxData\<close>.
\<close>

type_synonym 'v ctx_data = "(string \<times> 'v option) list option"

definition GetCtxData :: "'v ctx_data \<Rightarrow> string \<Rightarrow> 'v option" where
  "GetCtxData m key =
     (if key = '''' then None
      else case m of None \<Rightarrow> None
        | Some ctx \<Rightarrow> (case map_of ctx key of Some ret \<Rightarrow> ret | None \<Rightarrow> None))"

definition SetCtxData :: "'v ctx_data \<Rightarrow> string \<Rightarrow> 'v option \<Rightarrow> 'v ctx_data" where
  "SetCtxData m key value =
     (if key = '''' then m
      else Some (AList.update key value (case m of None \<Rightarrow> [] | Some ctx \<Rightarrow> ctx)))"

definition RemoveCtxData :: "'v ctx_data \<Rightarrow> string \<Rightarrow> 'v ctx_data" where
  "RemoveCtxData m key =
     (if key = '''' then m
      else case m of None \<Rightarrow> m | Some ctx \<Rightarrow> Some (AList.delete key ctx))"

text \<open>The contract of a context, for everything that stores request or channel data in one.\<close>

locale context_store =
  fixes get :: "'c \<Rightarrow> string \<Rightarrow> 'v option"
    and put :: "'c \<Rightarrow> string \<Rightarrow> 'v option \<Rightarrow> 'c"
    and del :: "'c \<Rightarrow> string \<Rightarrow> 'c"
    and new :: 'c
  assumes get_new: "get new k = None"
    and get_put: "get (put c k v) k' = (if k' = k \<and> k \<noteq> '''' then v else get c k')"
    and get_del: "get (del c k) k' = (if k' = k then None else get c k')"
    and get_empty: "get c '''' = None"
begin

lemma put_put: "get (put (put c k v) k w) k' = get (put c k w) k'"
  by (simp add: get_put)

lemma del_put: "get (del (put c k v) k) k' = get (del c k) k'"
  by (simp add: get_put get_del)

lemma put_other: "k' \<noteq> k \<Longrightarrow> get (put c k v) k' = get c k'"
  by (simp add: get_put)

end

interpretation default_context: context_store GetCtxData SetCtxData RemoveCtxData None
proof
  fix c :: "'v ctx_data" and k k' v
  show "GetCtxData None k = None" by (simp add: GetCtxData_def)
  show "GetCtxData c '''' = None" by (simp add: GetCtxData_def)
  show "GetCtxData (SetCtxData c k v) k' = (if k' = k \<and> k \<noteq> '''' then v else GetCtxData c k')"
    by (auto simp: GetCtxData_def SetCtxData_def update_conv split: option.splits)
  show "GetCtxData (RemoveCtxData c k) k' = (if k' = k then None else GetCtxData c k')"
    by (auto simp: GetCtxData_def RemoveCtxData_def delete_conv split: option.splits)
qed

section \<open>Requests\<close>

record 'v request =
  reqCtx :: "'v ctx_data"
  reqData :: "byte list"

definition NewDefaultRequest :: "byte list \<Rightarrow> 'v request" where
  "NewDefaultRequest data =
     \<lparr>reqCtx = None, reqData = (if length data = 0 then bytesOf ''{}'' else data)\<rparr>"

definition ValidatePath :: "(string \<Rightarrow> gerr + 'u) \<Rightarrow> string \<Rightarrow> bool" where
  "ValidatePath parse path =
     (if path = '''' then False else case parse path of Inl _ \<Rightarrow> False | Inr _ \<Rightarrow> True)"

section \<open>Notify channels and their pool\<close>

text \<open>
  A notify channel holds at most one response. The pool hands out any pooled channel or, when
  \<open>sync.Pool\<close> returns nil, none; \<open>pick\<close> is what it returns. The store maps the address of a
  channel to its buffered value.
\<close>

record notifyState =
  nsStore :: "byte list option list"
  nsPool :: "nat list"

definition acquireNotifyChan :: "nat option \<Rightarrow> notifyState \<Rightarrow> notifyState \<times> nat" where
  "acquireNotifyChan pick s =
     (case pick of
        None \<Rightarrow> (s\<lparr>nsStore := nsStore s @ [None]\<rparr>, length (nsStore s))
      | Some c \<Rightarrow> (s\<lparr>nsStore := (nsStore s)[c := None], nsPool := remove1 c (nsPool s)\<rparr>, c))"

definition releaseNotifyChan :: "nat \<Rightarrow> notifyState \<Rightarrow> notifyState" where
  "releaseNotifyChan c s = s\<lparr>nsStore := (nsStore s)[c := None], nsPool := c # nsPool s\<rparr>"

text \<open>
  The sender's side in \<open>handleClientLoop\<close>: a select that takes a buffered value away, or sends
  when the buffer is empty.
\<close>

definition notifyResponse :: "nat \<Rightarrow> byte list \<Rightarrow> notifyState \<Rightarrow> notifyState" where
  "notifyResponse c data s =
     (case nsStore s ! c of
        Some _ \<Rightarrow> s\<lparr>nsStore := (nsStore s)[c := None]\<rparr>
      | None \<Rightarrow> s\<lparr>nsStore := (nsStore s)[c := Some data]\<rparr>)"

definition pickOk :: "nat option \<Rightarrow> notifyState \<Rightarrow> bool" where
  "pickOk pick s \<longleftrightarrow> (case pick of None \<Rightarrow> True | Some c \<Rightarrow> c \<in> set (nsPool s))"

definition wfNotify :: "notifyState \<Rightarrow> bool" where
  "wfNotify s \<longleftrightarrow> (\<forall>c \<in> set (nsPool s). c < length (nsStore s))"

lemma acquireNotifyChan_fresh:
  assumes "wfNotify s" "pickOk pick s" "acquireNotifyChan pick s = (s', c)"
  shows "c < length (nsStore s') \<and> nsStore s' ! c = None"
  using assms by (auto simp: acquireNotifyChan_def wfNotify_def pickOk_def split: option.splits)

lemma NewDefaultRequest_nonempty: "reqData (NewDefaultRequest data) \<noteq> []"
  by (simp add: NewDefaultRequest_def bytesOf_def)

section \<open>Properties of contexts\<close>

text \<open>A context behaves as a dictionary with nil for absent keys: what was set under a
  non-empty key is read back, a removed key reads nil, the empty key is never stored, and other
  keys are untouched.\<close>

theorem context_laws:
  "GetCtxData (SetCtxData c k v) k' = (if k' = k \<and> k \<noteq> '''' then v else GetCtxData c k') \<and>
   GetCtxData (RemoveCtxData c k) k' = (if k' = k then None else GetCtxData c k') \<and>
   GetCtxData (SetCtxData c '''' v) k' = GetCtxData c k'"
  by (simp add: default_context.get_put default_context.get_del)

end
