(* ===== verification/Conn.thy ===== *)
theory Conn
  imports Wire Status Statis Utils
begin

text \<open>
  Channels and connections of \<open>protocol.go\<close>: their state, channel ids, creation, lookup,
  removal and closing. The channel objects of a connection are kept in a list and named by
  their index, as pointers name them in the code; the dictionary \<open>Channels\<close> maps ids to such
  addresses. The state of the goroutines of a channel and of its connection (the packet being
  merged, the packet the read loop holds, which loops have ended) is part of the records.
\<close>

section \<open>Owners\<close>

text \<open>What a connection shares with its \<open>Client\<close> or \<open>Server\<close>: counters and measures.\<close>

record owner =
  owCount :: count
  owMeasure :: measure
  owPathCount :: "(string \<times> count) list"
  owPathMeasure :: "(string \<times> measure) list"

definition Server_AddCount :: "string \<Rightarrow> count \<Rightarrow> owner \<Rightarrow> owner" where
  "Server_AddCount path cnt ow =
     (case map_of (owPathCount ow) path of
        None \<Rightarrow> ow
      | Some c \<Rightarrow> ow\<lparr>owPathCount := AList.update path (Count_Add c cnt) (owPathCount ow),
                   owCount := Count_Add (owCount ow) cnt\<rparr>)"

definition Server_AddMeasure :: "string \<Rightarrow> i64 \<Rightarrow> i64 \<Rightarrow> owner \<Rightarrow> owner" where
  "Server_AddMeasure path reqCount duration ow =
     (case map_of (owPathMeasure ow) path of
        None \<Rightarrow> ow
      | Some me \<Rightarrow> ow\<lparr>owPathMeasure :=
                       AList.update path (Measure_Add me reqCount duration) (owPathMeasure ow),
                    owMeasure := Measure_Add (owMeasure ow) reqCount duration\<rparr>)"

section \<open>Channels and connections\<close>

definition CtxServer :: string where "CtxServer = ''/ctx/sys/server''"
definition CtxClient :: string where "CtxClient = ''/ctx/sys/client''"
definition CtxResponseChan :: string where "CtxResponseChan = ''/ctx/sys/response_chan''"
definition CtxUncompletedRequestChan :: string where
  "CtxUncompletedRequestChan = ''/ctx/sys/uncreq_chan''"
definition CtxRequest :: string where "CtxRequest = ''/ctx/sys/request''"
definition CtxClientChannel :: string where "CtxClientChannel = ''/ctx/sys/client_chan''"
definition CtxLblClientChannel :: string where
  "CtxLblClientChannel = ''/ctx/sys/lbl_client_chan''"

lemmas ctx_key_defs = CtxServer_def CtxClient_def CtxResponseChan_def
  CtxUncompletedRequestChan_def CtxRequest_def CtxClientChannel_def CtxLblClientChannel_def

text \<open>
  What contexts hold: the owner, the queue of uncompleted requests (the one of the channel
  itself, its field \<open>chUcrq\<close>), the address of a client channel, of a request, of a notify channel.
\<close>

datatype ctxVal = CvServer | CvClient | CvQueue | CvClientChannel nat | CvRequest nat | CvNotify nat

record 'q channel =
  chId :: u32
  chErr :: "gerr option"
  chCtx :: "ctxVal ctx_data"
  chReceivedQueue :: "packet list"
  chQueueCap :: nat
  chPacketStatus :: byte
  chNotifyClosed :: bool
  chClosedMark :: bool
  chCount :: count
  chUcrq :: "'q option"
  chWhole :: "packet option"
  chLoopDone :: bool

record 'q conn =
  cnRole :: byte
  cnOwner :: owner
  cnErr :: "gerr option"
  cnCtx :: "ctxVal ctx_data"
  cnChans :: "'q channel list"
  cnChannels :: "(u32 \<times> nat) list"
  cnChannelCount :: u32
  cnMaxChannelId :: u32
  cnFree :: "u32 list"
  cnTcpOpen :: bool
  cnDeregistered :: bool
  cnWriteQueue :: "packet list"
  cnWriteCap :: nat
  cnNotifyClosed :: bool
  cnClosedMark :: bool
  cnCount :: count
  cnReadDone :: bool
  cnReadPending :: "(nat \<times> packet) option"
  cnWriteDone :: bool
  cnOut :: "byte list"

definition chanAt :: "'q conn \<Rightarrow> nat \<Rightarrow> 'q channel" where
  "chanAt c a = cnChans c ! a"

definition updChan :: "nat \<Rightarrow> ('q channel \<Rightarrow> 'q channel) \<Rightarrow> 'q conn \<Rightarrow> 'q conn" where
  "updChan a f c = c\<lparr>cnChans := (cnChans c)[a := f (cnChans c ! a)]\<rparr>"

definition updOwner :: "(owner \<Rightarrow> owner) \<Rightarrow> 'q conn \<Rightarrow> 'q conn" where
  "updOwner f c = c\<lparr>cnOwner := f (cnOwner c)\<rparr>"

text \<open>The three additions that follow every counted event.\<close>

definition addCounts :: "nat \<Rightarrow> string \<Rightarrow> count \<Rightarrow> 'q conn \<Rightarrow> 'q conn" where
  "addCounts a path cnt c =
     updOwner (\<lambda>ow. if cnRole c = RoleClient then ow\<lparr>owCount := Count_Add (owCount ow) cnt\<rparr>
                    else Server_AddCount path cnt ow)
       ((updChan a (\<lambda>ch. ch\<lparr>chCount := Count_Add (chCount ch) cnt\<rparr>) c)
          \<lparr>cnCount := Count_Add (cnCount c) cnt\<rparr>)"

section \<open>Channel ids\<close>

text \<open>
  \<open>makeNewChannelId\<close>: a freed id if there is one, \<open>pick\<close> standing for the order in which Go
  ranges over a dictionary; else the next one, until the ids are exhausted.
\<close>

definition makeNewChannelId :: "nat \<Rightarrow> 'q conn \<Rightarrow> 'q conn \<times> u32" where
  "makeNewChannelId pick c =
     (if cnFree c \<noteq> [] then
        let k = cnFree c ! (pick mod length (cnFree c)) in (c\<lparr>cnFree := remove1 k (cnFree c)\<rparr>, k)
      else if cnMaxChannelId c < 4294967295 then
        (c\<lparr>cnMaxChannelId := cnMaxChannelId c + 1\<rparr>, cnMaxChannelId c + 1)
      else (c, 0))"

text \<open>The second critical section of \<open>newChannel\<close>: the new object is entered under its id.\<close>

definition channelCtx ::
    "'q conn \<Rightarrow> (string \<times> ctxVal option) list \<Rightarrow> (string \<times> ctxVal option) list \<Rightarrow> ctxVal ctx_data" where
  "channelCtx c clientCtx serverCtx =
     (if cnRole c = RoleServer then
        SetCtxData (foldl (\<lambda>m (k, v). SetCtxData m k v) None serverCtx) CtxServer
          (GetCtxData (cnCtx c) CtxServer)
      else if cnRole c = RoleClient then
        SetCtxData (foldl (\<lambda>m (k, v). SetCtxData m k v) None clientCtx) CtxClient
          (GetCtxData (cnCtx c) CtxClient)
      else None)"

definition enterChannel :: "u32 \<Rightarrow> nat \<Rightarrow> (string \<times> ctxVal option) list \<Rightarrow>
    (string \<times> ctxVal option) list \<Rightarrow> 'q option \<Rightarrow> 'q conn \<Rightarrow> 'q conn \<times> nat" where
  "enterChannel cid queueLen clientCtx serverCtx ucrq c =
     (let ch = \<lparr>chId = cid, chErr = None, chCtx = channelCtx c clientCtx serverCtx,
                chReceivedQueue = [], chQueueCap = queueLen, chPacketStatus = 255,
                chNotifyClosed = False, chClosedMark = False, chCount = zeroCount,
                chUcrq = ucrq, chWhole = None, chLoopDone = False\<rparr>;
          a = length (cnChans c)
      in (c\<lparr>cnChans := cnChans c @ [ch], cnChannels := AList.update cid a (cnChannels c),
            cnChannelCount := cnChannelCount c + 1\<rparr>, a))"

definition newChannel :: "nat \<Rightarrow> bool \<Rightarrow> nat \<Rightarrow> (string \<times> ctxVal option) list \<Rightarrow>
    (string \<times> ctxVal option) list \<Rightarrow> 'q option \<Rightarrow> 'q conn \<Rightarrow> 'q conn \<times> nat" where
  "newChannel pick sys queueLen clientCtx serverCtx ucrq c =
     (let (c1, cid) = (if sys then (c, 0) else makeNewChannelId pick c)
      in enterChannel cid queueLen clientCtx serverCtx ucrq c1)"

definition getChannel :: "u32 \<Rightarrow> 'q conn \<Rightarrow> nat option" where
  "getChannel cid c = map_of (cnChannels c) cid"

definition removeChannel :: "nat \<Rightarrow> 'q conn \<Rightarrow> 'q conn" where
  "removeChannel a c =
     (let cid = chId (chanAt c a)
      in c\<lparr>cnChannels := AList.delete cid (cnChannels c), cnChannelCount := cnChannelCount c - 1,
           cnFree := List.insert cid (cnFree c)\<rparr>)"

section \<open>Closing\<close>

definition orUnknown :: "gerr option \<Rightarrow> gerr" where
  "orUnknown err = (case err of Some e \<Rightarrow> e | None \<Rightarrow> TextErr ''unknown'')"

text \<open>
  \<open>Channel.Close\<close> has three steps that other goroutines can come between: the mark (a compare and
  swap, only the first call goes on), \<open>removeChannel\<close> under the lock, and the rest. Closing
  \<open>closeNotify\<close> wakes a loop that waits on it, after which the field is nil: the flag
  \<open>chNotifyClosed\<close> says that it was closed, and whether a loop was waiting then is up to the
  schedule (the case \<open>Notified\<close> of the loops).
\<close>

definition Channel_mark :: "nat \<Rightarrow> 'q conn \<Rightarrow> 'q conn" where
  "Channel_mark a c = updChan a (\<lambda>ch. ch\<lparr>chClosedMark := True\<rparr>) c"

definition Channel_finish :: "nat \<Rightarrow> gerr option \<Rightarrow> 'q conn \<Rightarrow> 'q conn" where
  "Channel_finish a err c =
     updChan a (\<lambda>ch. ch\<lparr>chErr := Some (orUnknown err), chNotifyClosed := True\<rparr>) c"

definition Channel_Close :: "nat \<Rightarrow> gerr option \<Rightarrow> 'q conn \<Rightarrow> 'q conn" where
  "Channel_Close a err c =
     (if chClosedMark (chanAt c a) then c
      else Channel_finish a err (removeChannel a (Channel_mark a c)))"

text \<open>
  \<open>Connection.Close\<close>: once only, by the mark; then the error is set and the owner forgets the
  connection (\<open>cnDeregistered\<close>, see the client and the server), every channel in the dictionary is
  closed, and at the end the loop is notified, the write queue drained and the socket closed.
\<close>

definition Connection_mark :: "'q conn \<Rightarrow> 'q conn" where
  "Connection_mark c = c\<lparr>cnClosedMark := True\<rparr>"

definition Connection_leave :: "gerr option \<Rightarrow> 'q conn \<Rightarrow> 'q conn" where
  "Connection_leave err c =
     c\<lparr>cnErr := Some (orUnknown err),
       cnDeregistered := (GetCtxData (cnCtx c) CtxServer \<noteq> None \<or>
                          GetCtxData (cnCtx c) CtxClient \<noteq> None)\<rparr>"

definition Connection_finish :: "'q conn \<Rightarrow> 'q conn" where
  "Connection_finish c = c\<lparr>cnNotifyClosed := True, cnWriteQueue := [], cnTcpOpen := False\<rparr>"

definition Connection_rest :: "'q conn \<Rightarrow> 'q conn" where
  "Connection_rest c =
     Connection_finish
       (fold (\<lambda>(cid, a). Channel_Close a (Some (TextErr ''connection is closed''))) (cnChannels c) c)"

definition Connection_Close :: "gerr option \<Rightarrow> 'q conn \<Rightarrow> 'q conn" where
  "Connection_Close err c =
     (if cnClosedMark c then c else Connection_rest (Connection_leave err (Connection_mark c)))"

lemmas closing_defs = Channel_mark_def Channel_finish_def Connection_mark_def Connection_leave_def
  Connection_finish_def Connection_rest_def

definition Connection_Closed :: "'q conn \<Rightarrow> bool" where
  "Connection_Closed c = cnClosedMark c"

text \<open>
  \<open>NewConnection\<close>: an invalid role is an error; the context names the client or the server,
  and the system channel 0 is created with a queue of 100 packets.
\<close>

definition NewConnection :: "bool \<Rightarrow> bool \<Rightarrow> owner \<Rightarrow> byte \<Rightarrow> nat \<Rightarrow> 'q \<Rightarrow> gerr + 'q conn" where
  "NewConnection hasClient hasServer ow role writeQueueLen ucrq =
     (if role \<noteq> RoleClient \<and> role \<noteq> RoleServer then Inl (TextErr ''invalid role value'')
      else
        let ctx = (if hasClient then SetCtxData None CtxClient (Some CvClient)
                   else if hasServer then SetCtxData None CtxServer (Some CvServer) else None);
            c = \<lparr>cnRole = role, cnOwner = ow, cnErr = None, cnCtx = ctx, cnChans = [],
                 cnChannels = [], cnChannelCount = 0, cnMaxChannelId = 0, cnFree = [],
                 cnTcpOpen = True, cnDeregistered = False, cnWriteQueue = [],
                 cnWriteCap = writeQueueLen, cnNotifyClosed = False, cnClosedMark = False,
                 cnCount = zeroCount, cnReadDone = False, cnReadPending = None,
                 cnWriteDone = False, cnOut = []\<rparr>
        in Inr (fst (if role = RoleClient then
                  newChannel 0 True 100
                    [(CtxUncompletedRequestChan, Some CvQueue), (CtxClient, Some CvClient)] []
                    (Some ucrq) c
                else newChannel 0 True 100 [] [] None c)))"

section \<open>What the operations leave alone\<close>

lemma updChan_simps [simp]:
  "cnRole (updChan a f c) = cnRole c" "cnOwner (updChan a f c) = cnOwner c"
  "cnErr (updChan a f c) = cnErr c" "cnCtx (updChan a f c) = cnCtx c"
  "cnChannels (updChan a f c) = cnChannels c" "cnChannelCount (updChan a f c) = cnChannelCount c"
  "cnMaxChannelId (updChan a f c) = cnMaxChannelId c" "cnFree (updChan a f c) = cnFree c"
  "cnTcpOpen (updChan a f c) = cnTcpOpen c" "cnDeregistered (updChan a f c) = cnDeregistered c"
  "cnWriteQueue (updChan a f c) = cnWriteQueue c" "cnWriteCap (updChan a f c) = cnWriteCap c"
  "cnNotifyClosed (updChan a f c) = cnNotifyClosed c" "cnClosedMark (updChan a f c) = cnClosedMark c"
  "cnCount (updChan a f c) = cnCount c" "cnReadDone (updChan a f c) = cnReadDone c"
  "cnReadPending (updChan a f c) = cnReadPending c" "cnWriteDone (updChan a f c) = cnWriteDone c"
  "cnOut (updChan a f c) = cnOut c" "length (cnChans (updChan a f c)) = length (cnChans c)"
  by (simp_all add: updChan_def)

lemma chanAt_updChan:
  "b < length (cnChans c) \<Longrightarrow> chanAt (updChan a f c) b = (if a = b then f (chanAt c b) else chanAt c b)"
  by (simp add: chanAt_def updChan_def nth_list_update)

lemma chanAt_updChan_same [simp]:
  "a < length (cnChans c) \<Longrightarrow> chanAt (updChan a f c) a = f (chanAt c a)"
  by (simp add: chanAt_updChan)

lemma addCounts_simps [simp]:
  "cnRole (addCounts a p k c) = cnRole c" "cnErr (addCounts a p k c) = cnErr c"
  "cnCtx (addCounts a p k c) = cnCtx c" "cnChannels (addCounts a p k c) = cnChannels c"
  "cnChannelCount (addCounts a p k c) = cnChannelCount c"
  "cnMaxChannelId (addCounts a p k c) = cnMaxChannelId c" "cnFree (addCounts a p k c) = cnFree c"
  "cnTcpOpen (addCounts a p k c) = cnTcpOpen c"
  "cnDeregistered (addCounts a p k c) = cnDeregistered c"
  "cnWriteQueue (addCounts a p k c) = cnWriteQueue c" "cnWriteCap (addCounts a p k c) = cnWriteCap c"
  "cnNotifyClosed (addCounts a p k c) = cnNotifyClosed c"
  "cnClosedMark (addCounts a p k c) = cnClosedMark c" "cnReadDone (addCounts a p k c) = cnReadDone c"
  "cnReadPending (addCounts a p k c) = cnReadPending c"
  "cnWriteDone (addCounts a p k c) = cnWriteDone c" "cnOut (addCounts a p k c) = cnOut c"
  "length (cnChans (addCounts a p k c)) = length (cnChans c)"
  "cnCount (addCounts a p k c) = Count_Add (cnCount c) k"
  by (simp_all add: addCounts_def updOwner_def)

lemma chanAt_addCounts:
  "b < length (cnChans c) \<Longrightarrow> chanAt (addCounts a p k c) b =
     (if a = b then (chanAt c b)\<lparr>chCount := Count_Add (chCount (chanAt c b)) k\<rparr> else chanAt c b)"
  by (simp add: chanAt_def addCounts_def updOwner_def updChan_def nth_list_update)

section \<open>The part of the state that concerns ids\<close>

text \<open>Two states with the same view assign the same ids; most operations keep the view.\<close>

definition idView :: "'q conn \<Rightarrow> (u32 \<times> bool) list \<times> (u32 \<times> nat) list \<times> u32 list \<times> u32 \<times> u32" where
  "idView c = (map (\<lambda>ch. (chId ch, chClosedMark ch)) (cnChans c), cnChannels c, cnFree c,
               cnMaxChannelId c, cnChannelCount c)"

lemma idView_updChan:
  "(\<And>ch. chId (f ch) = chId ch \<and> chClosedMark (f ch) = chClosedMark ch) \<Longrightarrow>
    idView (updChan a f c) = idView c"
  by (simp add: idView_def updChan_def map_update_same)

lemma idView_addCounts [simp]: "idView (addCounts a p k c) = idView c"
  by (simp add: idView_def addCounts_def updOwner_def updChan_def map_update_same)

text \<open>
  The part of the state that neither reading from the socket nor writing to it changes, and
  what reading leaves to the writer.
\<close>

definition coreView where
  "coreView c = (cnRole c, cnErr c, cnClosedMark c, cnNotifyClosed c, cnWriteCap c, cnCtx c,
     map (\<lambda>ch. (chErr ch, chUcrq ch, chWhole ch, chLoopDone ch, chCtx ch)) (cnChans c), idView c)"

definition writeView :: "'q conn \<Rightarrow> packet list \<times> bool \<times> byte list" where
  "writeView c = (cnWriteQueue c, cnWriteDone c, cnOut c)"

lemma coreView_addCounts [simp]: "coreView (addCounts a p k c) = coreView c"
  by (simp add: coreView_def) (simp add: addCounts_def updOwner_def updChan_def map_update_same)

lemma coreView_updChan:
  assumes "\<And>ch. chErr (f ch) = chErr ch \<and> chUcrq (f ch) = chUcrq ch \<and> chWhole (f ch) = chWhole ch \<and>
      chLoopDone (f ch) = chLoopDone ch \<and> chCtx (f ch) = chCtx ch \<and> chId (f ch) = chId ch \<and>
      chClosedMark (f ch) = chClosedMark ch"
  shows "coreView (updChan a f c) = coreView c"
proof -
  have "map (\<lambda>ch. (chErr ch, chUcrq ch, chWhole ch, chLoopDone ch, chCtx ch)) (cnChans (updChan a f c)) =
      map (\<lambda>ch. (chErr ch, chUcrq ch, chWhole ch, chLoopDone ch, chCtx ch)) (cnChans c)"
    unfolding updChan_def by (simp add: assms map_update_same)
  moreover have "idView (updChan a f c) = idView c" by (rule idView_updChan) (simp add: assms)
  ultimately show ?thesis by (simp add: coreView_def)
qed

lemma writeView_simps [simp]:
  "writeView (addCounts a p k c) = writeView c" "writeView (updChan a f c) = writeView c"
  by (simp_all add: writeView_def)

lemma coreView_D:
  assumes "coreView c' = coreView c"
  shows "cnRole c' = cnRole c" "cnErr c' = cnErr c" "cnClosedMark c' = cnClosedMark c"
    "cnNotifyClosed c' = cnNotifyClosed c" "cnWriteCap c' = cnWriteCap c" "idView c' = idView c"
    "length (cnChans c') = length (cnChans c)" "getChannel k c' = getChannel k c"
    "a < length (cnChans c) \<Longrightarrow> chErr (chanAt c' a) = chErr (chanAt c a)"
    "a < length (cnChans c) \<Longrightarrow> chUcrq (chanAt c' a) = chUcrq (chanAt c a)"
    "a < length (cnChans c) \<Longrightarrow> chWhole (chanAt c' a) = chWhole (chanAt c a)"
    "a < length (cnChans c) \<Longrightarrow> chLoopDone (chanAt c' a) = chLoopDone (chanAt c a)"
    "a < length (cnChans c) \<Longrightarrow> chId (chanAt c' a) = chId (chanAt c a)"
proof -
  from assms have v: "map (\<lambda>ch. (chErr ch, chUcrq ch, chWhole ch, chLoopDone ch, chCtx ch)) (cnChans c') =
      map (\<lambda>ch. (chErr ch, chUcrq ch, chWhole ch, chLoopDone ch, chCtx ch)) (cnChans c)"
    and i: "map (\<lambda>ch. (chId ch, chClosedMark ch)) (cnChans c') =
      map (\<lambda>ch. (chId ch, chClosedMark ch)) (cnChans c)"
    by (simp_all add: coreView_def idView_def)
  show len: "length (cnChans c') = length (cnChans c)" by (rule map_eq_imp_length_eq [OF v])
  show "cnRole c' = cnRole c" "cnErr c' = cnErr c" "cnClosedMark c' = cnClosedMark c"
    "cnNotifyClosed c' = cnNotifyClosed c" "cnWriteCap c' = cnWriteCap c" "idView c' = idView c"
    "getChannel k c' = getChannel k c"
    using assms by (simp_all add: coreView_def idView_def getChannel_def)
  assume a: "a < length (cnChans c)"
  from arg_cong [OF v, of "\<lambda>l. l ! a"] arg_cong [OF i, of "\<lambda>l. l ! a"] a len
  show "chErr (chanAt c' a) = chErr (chanAt c a)" "chUcrq (chanAt c' a) = chUcrq (chanAt c a)"
    "chWhole (chanAt c' a) = chWhole (chanAt c a)" "chLoopDone (chanAt c' a) = chLoopDone (chanAt c a)"
    "chId (chanAt c' a) = chId (chanAt c a)"
    by (simp_all add: chanAt_def)
qed

text \<open>
  Counting leaves alone what reading looks at. \<open>readView\<close> is that part of the state.
\<close>

definition readView where
  "readView c = (cnErr c, cnChannels c, cnClosedMark c, cnReadDone c, cnReadPending c,
     map (\<lambda>ch. (chReceivedQueue ch, chQueueCap ch, chPacketStatus ch)) (cnChans c), idView c)"

lemma readView_D:
  assumes "readView c' = readView c"
  shows "cnErr c' = cnErr c" "cnChannels c' = cnChannels c" "cnClosedMark c' = cnClosedMark c"
    "cnReadDone c' = cnReadDone c" "cnReadPending c' = cnReadPending c"
    "length (cnChans c') = length (cnChans c)" "getChannel k c' = getChannel k c"
    "idView c' = idView c"
    "a < length (cnChans c) \<Longrightarrow> chReceivedQueue (chanAt c' a) = chReceivedQueue (chanAt c a)"
    "a < length (cnChans c) \<Longrightarrow> chQueueCap (chanAt c' a) = chQueueCap (chanAt c a)"
    "a < length (cnChans c) \<Longrightarrow> chPacketStatus (chanAt c' a) = chPacketStatus (chanAt c a)"
proof -
  from assms have v: "map (\<lambda>ch. (chReceivedQueue ch, chQueueCap ch, chPacketStatus ch)) (cnChans c') =
      map (\<lambda>ch. (chReceivedQueue ch, chQueueCap ch, chPacketStatus ch)) (cnChans c)"
    by (simp add: readView_def)
  show len: "length (cnChans c') = length (cnChans c)" by (rule map_eq_imp_length_eq [OF v])
  show "cnErr c' = cnErr c" "cnChannels c' = cnChannels c" "cnClosedMark c' = cnClosedMark c"
    "cnReadDone c' = cnReadDone c" "cnReadPending c' = cnReadPending c"
    "getChannel k c' = getChannel k c" "idView c' = idView c"
    using assms by (simp_all add: readView_def getChannel_def)
  assume a: "a < length (cnChans c)"
  with arg_cong [OF v, of "\<lambda>l. l ! a"] len
  have "(chReceivedQueue (cnChans c' ! a), chQueueCap (cnChans c' ! a), chPacketStatus (cnChans c' ! a)) =
      (chReceivedQueue (cnChans c ! a), chQueueCap (cnChans c ! a), chPacketStatus (cnChans c ! a))"
    by simp
  then show "chReceivedQueue (chanAt c' a) = chReceivedQueue (chanAt c a)"
    "chQueueCap (chanAt c' a) = chQueueCap (chanAt c a)"
    "chPacketStatus (chanAt c' a) = chPacketStatus (chanAt c a)"
    by (simp_all add: chanAt_def)
qed

lemma readView_addCounts [simp]: "readView (addCounts a p k c) = readView c"
  by (simp add: readView_def) (simp add: addCounts_def updOwner_def updChan_def map_update_same)

lemma readView_updChan:
  assumes "\<And>ch. chReceivedQueue (f ch) = chReceivedQueue ch \<and> chQueueCap (f ch) = chQueueCap ch \<and>
      chPacketStatus (f ch) = chPacketStatus ch \<and> chId (f ch) = chId ch \<and>
      chClosedMark (f ch) = chClosedMark ch"
  shows "readView (updChan a f c) = readView c"
proof -
  have "idView (updChan a f c) = idView c" by (rule idView_updChan) (simp add: assms)
  then show ?thesis by (simp add: readView_def updChan_def map_update_same assms)
qed

lemma readView_updCount [simp]: "readView (updChan a (\<lambda>ch. ch\<lparr>chCount := f ch\<rparr>) c) = readView c"
  unfolding readView_def idView_def by (simp add: updChan_def map_update_same)

text \<open>
  What can happen to a connection, step by step, with what the goroutines are in the middle of:
  the ids reserved by unfinished calls of \<open>newChannel\<close>, and the channels marked closed that are not
  removed from the dictionary yet. The last component is set once when \<open>makeNewChannelId\<close> finds no
  id left and returns 0. A whole \<open>Channel.Close\<close> or \<open>Connection.Close\<close> is a sequence of these steps.
\<close>

definition usedIds :: "'q conn \<Rightarrow> u32 list" where
  "usedIds c = map fst (cnChannels c)"

definition idsExhausted :: "'q conn \<Rightarrow> bool" where
  "idsExhausted c \<longleftrightarrow> cnFree c = [] \<and> \<not> cnMaxChannelId c < 4294967295"

type_synonym 'q idState = "'q conn \<times> u32 list \<times> nat list \<times> bool"

inductive idStep :: "'q idState \<Rightarrow> 'q idState \<Rightarrow> bool" where
  Reserve: "makeNewChannelId pick c = (c', k) \<Longrightarrow>
    idStep (c, res, cl, ex) (c', k # res, cl, ex \<or> idsExhausted c)"
| Enter: "k \<in> set res \<Longrightarrow>
    idStep (c, res, cl, ex) (fst (enterChannel k queueLen cc sc ucrq c), remove1 k res, cl, ex)"
| MarkChannel: "a < length (cnChans c) \<Longrightarrow> \<not> chClosedMark (chanAt c a) \<Longrightarrow>
    idStep (c, res, cl, ex) (Channel_mark a c, res, a # cl, ex)"
| RemoveChannel: "a \<in> set cl \<Longrightarrow>
    idStep (c, res, cl, ex) (removeChannel a c, res, remove1 a cl, ex)"
| FinishChannel: "idStep (c, res, cl, ex) (Channel_finish a err c, res, cl, ex)"
| MarkConnection: "idStep (c, res, cl, ex) (Connection_mark c, res, cl, ex)"
| LeaveConnection: "idStep (c, res, cl, ex) (Connection_leave err c, res, cl, ex)"
| FinishConnection: "idStep (c, res, cl, ex) (Connection_finish c, res, cl, ex)"
| Quiet: "idView c' = idView c \<Longrightarrow> idStep (c, res, cl, ex) (c', res, cl, ex)"

definition idStart :: "'q idState \<Rightarrow> bool" where
  "idStart = (\<lambda>(c, res, cl, ex). (\<exists>hc hs ow role wl ucrq. NewConnection hc hs ow role wl ucrq = Inr c) \<and>
     res = [] \<and> cl = [] \<and> \<not> ex)"

text \<open>
  The invariant, as long as the ids were not exhausted: the dictionary holds exactly the
  channels that are open or about to be removed, each under its own id; freed, reserved and used
  ids are disjoint and all at most the largest one handed out.
\<close>

definition inDict :: "'q conn \<Rightarrow> nat list \<Rightarrow> nat \<Rightarrow> bool" where
  "inDict c cl a \<longleftrightarrow> a < length (cnChans c) \<and> (\<not> chClosedMark (chanAt c a) \<or> a \<in> set cl)"

definition idInv :: "'q conn \<times> u32 list \<times> nat list \<Rightarrow> bool" where
  "idInv = (\<lambda>(c, res, cl).
     distinct (usedIds c @ cnFree c @ res) \<and>
     (\<forall>k \<in> set (usedIds c @ cnFree c @ res). k \<le> cnMaxChannelId c) \<and>
     (\<forall>cid a. map_of (cnChannels c) cid = Some a \<longleftrightarrow> inDict c cl a \<and> chId (chanAt c a) = cid) \<and>
     distinct cl \<and> (\<forall>a \<in> set cl. a < length (cnChans c) \<and> chClosedMark (chanAt c a)) \<and>
     cnChannelCount c = word_of_nat (length (cnChannels c)))"

definition idInvUntil :: "'q idState \<Rightarrow> bool" where
  "idInvUntil = (\<lambda>(c, res, cl, ex). ex \<or> idInv (c, res, cl))"

section \<open>The id invariant is preserved\<close>

lemma length_AList_delete:
  assumes "distinct (map fst al)" "k \<in> fst ` set al"
  shows "length (AList.delete k al) = length al - 1"
proof -
  have "length (AList.delete k al) = length (removeAll k (map fst al))"
    by (metis AList.delete_keys length_map)
  also have "\<dots> = length (remove1 k (map fst al))"
    using assms(1) by (simp add: distinct_remove1_removeAll)
  finally show ?thesis using assms(2) by (simp add: length_remove1)
qed

lemma set_AList_delete_keys: "fst ` set (AList.delete k al) = fst ` set al - {k}"
  by (metis AList.delete_keys list.set_map set_removeAll)

lemma AList_update_new: "k \<notin> fst ` set al \<Longrightarrow> AList.update k v al = al @ [(k, v)]"
  by (induction al) auto

lemma idInv_Reserve:
  assumes inv: "idInv (c, res, cl)" and ok: "\<not> idsExhausted c"
    and mk: "makeNewChannelId pick c = (c', k)"
  shows "idInv (c', k # res, cl)"
proof (cases "cnFree c = []")
  case False
  then have len: "pick mod length (cnFree c) < length (cnFree c)" by simp
  with False mk have k: "k \<in> set (cnFree c)" and c': "c' = c\<lparr>cnFree := remove1 k (cnFree c)\<rparr>"
    by (auto simp: makeNewChannelId_def Let_def)
  with inv show ?thesis
    by (auto simp: idInv_def inDict_def usedIds_def chanAt_def distinct_remove1 set_remove1_eq)
next
  case True
  with ok mk have k: "k = cnMaxChannelId c + 1" and c': "c' = c\<lparr>cnMaxChannelId := k\<rparr>"
    and lt: "cnMaxChannelId c < 4294967295" by (auto simp: makeNewChannelId_def idsExhausted_def)
  from lt have less: "cnMaxChannelId c < k"
    by (simp add: k word_less_nat_alt unat_plus_if')
  then have fresh: "k \<notin> set (usedIds c @ cnFree c @ res)"
    using inv less unfolding idInv_def by (auto simp del: set_append)
  have le: "\<forall>k' \<in> set (usedIds c @ cnFree c @ k # res). k' \<le> k"
  proof
    fix k'
    assume "k' \<in> set (usedIds c @ cnFree c @ k # res)"
    then have "k' = k \<or> k' \<in> set (usedIds c @ cnFree c @ res)" by auto
    moreover have "\<forall>k \<in> set (usedIds c @ cnFree c @ res). k \<le> cnMaxChannelId c"
      using inv unfolding idInv_def prod.case by blast
    ultimately show "k' \<le> k" using less by (metis dual_order.trans order.refl less_imp_le)
  qed
  have view: "usedIds c' = usedIds c" "cnFree c' = cnFree c" "cnMaxChannelId c' = k"
      "cnChannels c' = cnChannels c" "cnChannelCount c' = cnChannelCount c"
      "cnChans c' = cnChans c" "chanAt c' = chanAt c" "inDict c' cl = inDict c cl"
    by (simp_all add: c' usedIds_def chanAt_def inDict_def fun_eq_iff)
  show ?thesis using inv fresh le unfolding idInv_def prod.case view by auto
qed

lemma idInv_dict:
  "idInv (c, res, cl) \<Longrightarrow>
     map_of (cnChannels c) cid = Some a \<longleftrightarrow> inDict c cl a \<and> chId (chanAt c a) = cid"
  by (simp add: idInv_def)

lemma idInv_closing:
  "idInv (c, res, cl) \<Longrightarrow> a \<in> set cl \<Longrightarrow> a < length (cnChans c) \<and> chClosedMark (chanAt c a)"
  by (simp add: idInv_def)

lemma idInv_Enter:
  assumes inv: "idInv (c, res, cl)" and k: "k \<in> set res"
  shows "idInv (fst (enterChannel k queueLen cc sc ucrq c), remove1 k res, cl)"
proof -
  from inv k have fresh: "k \<notin> fst ` set (cnChannels c)" and notfree: "k \<notin> set (cnFree c)"
    and d: "distinct res"
    by (auto simp: idInv_def usedIds_def)
  note dict = idInv_dict [OF inv]
  note cl = idInv_closing [OF inv]
  from fresh have none: "map_of (cnChannels c) k = None" by (simp add: map_of_eq_None_iff)
  let ?c = "fst (enterChannel k queueLen cc sc ucrq c)"
  have old: "chanAt ?c a = chanAt c a" "inDict ?c cl a = inDict c cl a" if "a < length (cnChans c)" for a
    using that by (simp_all add: inDict_def enterChannel_def Let_def chanAt_def nth_append)
  have new: "chId (chanAt ?c (length (cnChans c))) = k" "inDict ?c cl (length (cnChans c))"
    by (simp_all add: inDict_def enterChannel_def Let_def chanAt_def)
  have len: "length (cnChans ?c) = length (cnChans c) + 1" by (simp add: enterChannel_def Let_def)
  have chs: "cnChannels ?c = cnChannels c @ [(k, length (cnChans c))]"
    using fresh by (simp add: enterChannel_def Let_def AList_update_new)
  have "map_of (cnChannels ?c) cid = Some a \<longleftrightarrow> inDict ?c cl a \<and> chId (chanAt ?c a) = cid" for cid a
  proof -
    consider "a < length (cnChans c)" | "a = length (cnChans c)" | "length (cnChans c) < a" by linarith
    then show ?thesis
    proof cases
      case 1
      then show ?thesis using dict [of cid a] none old [of a] fresh unfolding chs
        by (auto simp: map_of_append map_add_Some_iff)
    next
      case 2
      have "map_of (cnChannels c) cid \<noteq> Some a" using dict [of cid a] 2 by (auto simp: inDict_def)
      then show ?thesis using 2 none new unfolding chs by (auto simp: map_of_append map_add_Some_iff)
    next
      case 3
      then show ?thesis using dict [of cid a] len unfolding chs
        by (auto simp: inDict_def map_of_append map_add_Some_iff)
    qed
  qed
  moreover have "\<forall>a \<in> set cl. a < length (cnChans ?c) \<and> chClosedMark (chanAt ?c a)"
    using cl old len by (metis less_SucI Suc_eq_plus1)
  moreover have "distinct cl" using inv by (simp add: idInv_def)
  ultimately show ?thesis using inv k fresh notfree d
    by (auto simp: idInv_def usedIds_def enterChannel_def Let_def AList_update_new
        set_remove1_eq distinct_remove1)
qed

lemma idInv_Mark:
  assumes inv: "idInv (c, res, cl)" and a: "a < length (cnChans c)" "\<not> chClosedMark (chanAt c a)"
  shows "idInv (Channel_mark a c, res, a # cl)"
proof -
  let ?c = "Channel_mark a c"
  have id: "chId (chanAt ?c b) = chId (chanAt c b)" if "b < length (cnChans c)" for b
    using that by (simp add: Channel_mark_def chanAt_updChan)
  have dict: "inDict ?c (a # cl) b = inDict c cl b" for b
    using a by (cases "b = a") (auto simp: inDict_def Channel_mark_def chanAt_updChan)
  have "map_of (cnChannels ?c) cid = Some b \<longleftrightarrow> inDict ?c (a # cl) b \<and> chId (chanAt ?c b) = cid" for cid b
    using idInv_dict [OF inv, of cid b] id [of b] unfolding dict
    by (auto simp: Channel_mark_def inDict_def)
  moreover have "a \<notin> set cl" using idInv_closing [OF inv] a(2) by blast
  moreover have "\<forall>b \<in> set (a # cl). b < length (cnChans ?c) \<and> chClosedMark (chanAt ?c b)"
    using idInv_closing [OF inv] a(1) by (auto simp: Channel_mark_def chanAt_updChan)
  ultimately show ?thesis using inv by (simp add: idInv_def usedIds_def) (simp add: Channel_mark_def)
qed

lemma removeChannel_simps [simp]:
  "cnChans (removeChannel a c) = cnChans c" "chanAt (removeChannel a c) b = chanAt c b"
  "cnChannels (removeChannel a c) = AList.delete (chId (chanAt c a)) (cnChannels c)"
  "cnFree (removeChannel a c) = List.insert (chId (chanAt c a)) (cnFree c)"
  "cnMaxChannelId (removeChannel a c) = cnMaxChannelId c"
  "cnChannelCount (removeChannel a c) = cnChannelCount c - 1"
  by (simp_all add: removeChannel_def Let_def chanAt_def)

lemma idInv_Remove:
  assumes inv: "idInv (c, res, cl)" and a: "a \<in> set cl"
  shows "idInv (removeChannel a c, res, remove1 a cl)"
proof -
  let ?k = "chId (chanAt c a)" and ?c = "removeChannel a c"
  note dict = idInv_dict [OF inv]
  from idInv_closing [OF inv a] a have mem: "map_of (cnChannels c) ?k = Some a"
    by (simp add: dict inDict_def)
  then have k: "?k \<in> fst ` set (cnChannels c)" by (force dest: map_of_SomeD)
  from inv have d: "distinct (map fst (cnChannels c))" and dcl: "distinct cl"
    by (simp_all add: idInv_def usedIds_def)
  have pos: "0 < length (cnChannels c)" using k by auto
  have "map_of (cnChannels ?c) cid = Some b \<longleftrightarrow> inDict ?c (remove1 a cl) b \<and> chId (chanAt ?c b) = cid" for cid b
  proof (cases "b = a")
    case True
    then show ?thesis using idInv_closing [OF inv a] dict [of cid a] dcl
      by (auto simp: delete_conv' inDict_def)
  next
    case False
    then have "inDict ?c (remove1 a cl) b = inDict c cl b" by (simp add: inDict_def)
    moreover have "chId (chanAt c b) \<noteq> ?k" if "inDict c cl b"
      using dict [of ?k b] mem that False by auto
    ultimately show ?thesis using dict [of cid b] by (auto simp: delete_conv')
  qed
  moreover have "cnChannelCount ?c = word_of_nat (length (cnChannels ?c))"
    using inv pos of_nat_diff [of 1 "length (cnChannels c)", where 'a = u32]
    by (simp add: length_AList_delete d k idInv_def Suc_le_eq)
  moreover have "distinct (usedIds ?c @ cnFree ?c @ res)"
    using inv k by (auto simp: idInv_def usedIds_def set_AList_delete_keys distinct_delete)
  moreover have "\<forall>k \<in> set (usedIds ?c @ cnFree ?c @ res). k \<le> cnMaxChannelId ?c"
    using inv k by (auto simp: idInv_def usedIds_def set_AList_delete_keys)
  ultimately show ?thesis using idInv_closing [OF inv] dcl by (auto simp: idInv_def)
qed

lemma Channel_Close_closed [simp]: "chClosedMark (chanAt c a) \<Longrightarrow> Channel_Close a err c = c"
  by (simp add: Channel_Close_def)

lemma Channel_Close_open:
  assumes "a < length (cnChans c)" "\<not> chClosedMark (chanAt c a)"
  shows "Channel_Close a err c =
    c\<lparr>cnChans := (cnChans c)[a := (chanAt c a)\<lparr>chClosedMark := True,
        chErr := Some (orUnknown err), chNotifyClosed := True\<rparr>],
      cnChannels := AList.delete (chId (chanAt c a)) (cnChannels c),
      cnChannelCount := cnChannelCount c - 1,
      cnFree := List.insert (chId (chanAt c a)) (cnFree c)\<rparr>"
  using assms
  by (simp add: Channel_Close_def closing_defs removeChannel_def updChan_def Let_def chanAt_def)

lemma Channel_Close_length [simp]: "length (cnChans (Channel_Close a err c)) = length (cnChans c)"
  by (simp add: Channel_Close_def closing_defs removeChannel_def updChan_def Let_def)

lemma Channel_Close_frame [simp]:
  "cnRole (Channel_Close a err c) = cnRole c" "cnOwner (Channel_Close a err c) = cnOwner c"
  "cnErr (Channel_Close a err c) = cnErr c" "cnCtx (Channel_Close a err c) = cnCtx c"
  "cnMaxChannelId (Channel_Close a err c) = cnMaxChannelId c"
  "cnTcpOpen (Channel_Close a err c) = cnTcpOpen c"
  "cnDeregistered (Channel_Close a err c) = cnDeregistered c"
  "cnWriteQueue (Channel_Close a err c) = cnWriteQueue c"
  "cnWriteCap (Channel_Close a err c) = cnWriteCap c"
  "cnNotifyClosed (Channel_Close a err c) = cnNotifyClosed c"
  "cnClosedMark (Channel_Close a err c) = cnClosedMark c" "cnCount (Channel_Close a err c) = cnCount c"
  "cnReadDone (Channel_Close a err c) = cnReadDone c"
  "cnReadPending (Channel_Close a err c) = cnReadPending c"
  "cnWriteDone (Channel_Close a err c) = cnWriteDone c" "cnOut (Channel_Close a err c) = cnOut c"
  by (simp_all add: Channel_Close_def closing_defs removeChannel_def Let_def)

lemma chanAt_Channel_Close:
  assumes "a < length (cnChans c)" "b < length (cnChans c)"
  shows "chanAt (Channel_Close a err c) b =
    (if a = b \<and> \<not> chClosedMark (chanAt c a)
     then (chanAt c a)\<lparr>chClosedMark := True, chErr := Some (orUnknown err), chNotifyClosed := True\<rparr>
     else chanAt c b)"
proof (cases "chClosedMark (chanAt c a)")
  case False
  with assms show ?thesis
    by (simp add: Channel_Close_open) (simp add: chanAt_def nth_list_update)
qed simp

lemma idInv_view:
  assumes "idInv (c, res, cl)" "idView c' = idView c"
  shows "idInv (c', res, cl)"
proof -
  from assms(2) have v: "map (\<lambda>ch. (chId ch, chClosedMark ch)) (cnChans c') =
      map (\<lambda>ch. (chId ch, chClosedMark ch)) (cnChans c)"
    and e: "cnChannels c' = cnChannels c" "cnFree c' = cnFree c"
      "cnMaxChannelId c' = cnMaxChannelId c" "cnChannelCount c' = cnChannelCount c"
    by (simp_all add: idView_def)
  from v have len: "length (cnChans c') = length (cnChans c)" by (metis length_map)
  have at: "chId (chanAt c' a) = chId (chanAt c a)" "chClosedMark (chanAt c' a) = chClosedMark (chanAt c a)"
    if "a < length (cnChans c)" for a
    using arg_cong [OF v, of "\<lambda>l. l ! a"] that len by (simp_all add: chanAt_def)
  then have d: "inDict c' cl a = inDict c cl a" for a using len by (auto simp: inDict_def)
  then have "map_of (cnChannels c') cid = Some a \<longleftrightarrow> inDict c' cl a \<and> chId (chanAt c' a) = cid" for cid a
    unfolding e idInv_dict [OF assms(1)] d
    using at(1) [of a] by (auto simp: inDict_def)
  moreover have "\<forall>a \<in> set cl. a < length (cnChans c') \<and> chClosedMark (chanAt c' a)"
    using idInv_closing [OF assms(1)] at len by auto
  ultimately show ?thesis using assms(1) e by (simp add: idInv_def usedIds_def)
qed

lemma idView_finish [simp]:
  "idView (Channel_finish a err c) = idView c" "idView (Connection_mark c) = idView c"
  "idView (Connection_leave err c) = idView c" "idView (Connection_finish c) = idView c"
proof -
  show "idView (Channel_finish a err c) = idView c"
    unfolding closing_defs by (rule idView_updChan) simp
qed (simp_all add: idView_def closing_defs)

text \<open>The whole of \<open>Channel.Close\<close>, undisturbed.\<close>

lemma idInv_Close:
  assumes inv: "idInv (c, res, cl)" and a: "a < length (cnChans c)"
  shows "idInv (Channel_Close a err c, res, cl)"
proof (cases "chClosedMark (chanAt c a)")
  case False
  from idInv_Remove [OF idInv_Mark [OF inv a False], of a]
  have "idInv (removeChannel a (Channel_mark a c), res, cl)" by simp
  then have "idInv (Channel_finish a err (removeChannel a (Channel_mark a c)), res, cl)"
    by (rule idInv_view) simp
  with False show ?thesis by (simp add: Channel_Close_def)
qed (use inv in simp)

text \<open>Closing several channels, as \<open>Connection.Close\<close> does.\<close>

definition closeAll :: "gerr option \<Rightarrow> (u32 \<times> nat) list \<Rightarrow> 'q conn \<Rightarrow> 'q conn" where
  "closeAll err xs c = fold (\<lambda>(cid, a). Channel_Close a err) xs c"

lemma closeAll_simps [simp]:
  "closeAll err [] c = c"
  "closeAll err ((cid, a) # xs) c = closeAll err xs (Channel_Close a err c)"
  by (simp_all add: closeAll_def)

lemma closeAll_frame [simp]:
  "cnRole (closeAll err xs c) = cnRole c" "cnErr (closeAll err xs c) = cnErr c"
  "cnCtx (closeAll err xs c) = cnCtx c" "cnOwner (closeAll err xs c) = cnOwner c"
  "cnMaxChannelId (closeAll err xs c) = cnMaxChannelId c"
  "cnTcpOpen (closeAll err xs c) = cnTcpOpen c"
  "cnDeregistered (closeAll err xs c) = cnDeregistered c"
  "cnWriteQueue (closeAll err xs c) = cnWriteQueue c"
  "cnWriteCap (closeAll err xs c) = cnWriteCap c"
  "cnNotifyClosed (closeAll err xs c) = cnNotifyClosed c"
  "cnClosedMark (closeAll err xs c) = cnClosedMark c" "cnCount (closeAll err xs c) = cnCount c"
  "cnReadDone (closeAll err xs c) = cnReadDone c"
  "cnReadPending (closeAll err xs c) = cnReadPending c"
  "cnWriteDone (closeAll err xs c) = cnWriteDone c" "cnOut (closeAll err xs c) = cnOut c"
  "length (cnChans (closeAll err xs c)) = length (cnChans c)"
  by (induction xs arbitrary: c) auto

lemma closeAll_closed:
  assumes "a < length (cnChans c)" "\<forall>(cid, b) \<in> set xs. b < length (cnChans c)"
  shows "chClosedMark (chanAt (closeAll err xs c) a) \<longleftrightarrow>
    chClosedMark (chanAt c a) \<or> a \<in> snd ` set xs"
  using assms
proof (induction xs arbitrary: c)
  case (Cons x xs)
  obtain cid b where x: "x = (cid, b)" by (cases x)
  with Cons.prems have b: "b < length (cnChans c)" by simp
  from Cons.IH [of "Channel_Close b err c"] Cons.prems
  have "chClosedMark (chanAt (closeAll err (x # xs) c) a) \<longleftrightarrow>
      chClosedMark (chanAt (Channel_Close b err c) a) \<or> a \<in> snd ` set xs"
    by (simp add: x)
  then show ?case using chanAt_Channel_Close [OF b Cons.prems(1)] by (auto simp: x)
qed simp

lemma closeAll_id:
  assumes "a < length (cnChans c)" "\<forall>(cid, b) \<in> set xs. b < length (cnChans c)"
  shows "chId (chanAt (closeAll err xs c) a) = chId (chanAt c a)"
  using assms by (induction xs arbitrary: c) (auto simp: chanAt_Channel_Close)

lemma idInv_closeAll:
  assumes "idInv (c, res, cl)" "\<forall>(cid, b) \<in> set xs. b < length (cnChans c)"
  shows "idInv (closeAll err xs c, res, cl)"
  using assms
proof (induction xs arbitrary: c)
  case (Cons x xs)
  obtain cid b where x: "x = (cid, b)" by (cases x)
  with Cons.prems have "idInv (Channel_Close b err c, res, cl)" by (auto intro: idInv_Close)
  with Cons x show ?case by simp
qed simp

lemma Connection_Close_open:
  assumes "\<not> cnClosedMark c"
  shows "Connection_Close err c =
    (closeAll (Some (TextErr ''connection is closed'')) (cnChannels c)
      (c\<lparr>cnClosedMark := True, cnErr := Some (orUnknown err),
         cnDeregistered := (GetCtxData (cnCtx c) CtxServer \<noteq> None \<or>
                            GetCtxData (cnCtx c) CtxClient \<noteq> None)\<rparr>))
      \<lparr>cnNotifyClosed := True, cnWriteQueue := [], cnTcpOpen := False\<rparr>"
  using assms by (simp add: Connection_Close_def closing_defs closeAll_def Let_def split_def)

lemma Connection_Close_closed [simp]: "cnClosedMark c \<Longrightarrow> Connection_Close err c = c"
  by (simp add: Connection_Close_def)

lemma Connection_Close_marks [simp]: "cnClosedMark (Connection_Close err c)"
  by (cases "cnClosedMark c") (simp_all add: Connection_Close_open)

lemma Connection_Close_frame [simp]:
  "cnRole (Connection_Close err c) = cnRole c" "cnOwner (Connection_Close err c) = cnOwner c"
  "cnCtx (Connection_Close err c) = cnCtx c"
  "cnReadDone (Connection_Close err c) = cnReadDone c" "cnOut (Connection_Close err c) = cnOut c"
  "cnReadPending (Connection_Close err c) = cnReadPending c"
  "cnWriteDone (Connection_Close err c) = cnWriteDone c"
  "length (cnChans (Connection_Close err c)) = length (cnChans c)"
  by (cases "cnClosedMark c"; simp add: Connection_Close_open)+

lemma idInv_entries:
  "idInv (c, res, cl) \<Longrightarrow> \<forall>(cid, b) \<in> set (cnChannels c). b < length (cnChans c)"
  by (auto simp: idInv_def usedIds_def inDict_def)

lemma idInv_CloseConnection:
  assumes inv: "idInv (c, res, cl)"
  shows "idInv (Connection_Close err c, res, cl)"
proof (cases "cnClosedMark c")
  case False
  let ?c1 = "Connection_leave err (Connection_mark c)"
  have "idInv (?c1, res, cl)" by (rule idInv_view [OF inv]) simp
  then have "idInv (closeAll (Some (TextErr ''connection is closed'')) (cnChannels c) ?c1, res, cl)"
    by (rule idInv_closeAll) (use idInv_entries [OF inv] in \<open>auto simp: closing_defs\<close>)
  then have "idInv (Connection_finish (closeAll (Some (TextErr ''connection is closed'')) (cnChannels c) ?c1), res, cl)"
    by (rule idInv_view) simp
  moreover have "Connection_Close err c =
      Connection_finish (closeAll (Some (TextErr ''connection is closed'')) (cnChannels c) ?c1)"
    using False by (simp add: Connection_Close_def closeAll_def closing_defs Let_def)
  ultimately show ?thesis by simp
qed (use inv in simp)

lemma Connection_Close_closed_iff:
  assumes inv: "idInv (c, res, cl)" and "\<not> cnClosedMark c" and b: "b < length (cnChans c)"
  shows "chClosedMark (chanAt (Connection_Close err c) b) \<longleftrightarrow>
    chClosedMark (chanAt c b) \<or> b \<in> snd ` set (cnChannels c)"
proof -
  define c1 where "c1 = c\<lparr>cnClosedMark := True, cnErr := Some (orUnknown err),
         cnDeregistered := (GetCtxData (cnCtx c) CtxServer \<noteq> None \<or>
                            GetCtxData (cnCtx c) CtxClient \<noteq> None)\<rparr>"
  have eq: "Connection_Close err c = (closeAll (Some (TextErr ''connection is closed''))
      (cnChannels c) c1)\<lparr>cnNotifyClosed := True, cnWriteQueue := [], cnTcpOpen := False\<rparr>"
    by (simp only: Connection_Close_open [OF assms(2)] c1_def)
  have c1: "cnChans c1 = cnChans c" "chanAt c1 b = chanAt c b"
    by (simp_all add: c1_def chanAt_def)
  have "\<forall>(cid, b) \<in> set (cnChannels c). b < length (cnChans c1)"
    using idInv_entries [OF inv] c1 by auto
  from closeAll_closed [OF _ this, of b] b c1 show ?thesis
    by (simp add: eq chanAt_def)
qed

lemma NewConnection_Inr:
  assumes "NewConnection hc hs ow role wl ucrq = Inr c"
  shows "(role = RoleClient \<or> role = RoleServer) \<and> cnRole c = role \<and>
    cnChannels c = [(0, 0)] \<and> cnChannelCount c = 1 \<and> cnMaxChannelId c = 0 \<and> cnFree c = [] \<and>
    length (cnChans c) = 1 \<and> chId (chanAt c 0) = 0 \<and> \<not> chClosedMark (chanAt c 0) \<and>
    chReceivedQueue (chanAt c 0) = [] \<and> chPacketStatus (chanAt c 0) = 255 \<and>
    chQueueCap (chanAt c 0) = 100 \<and> \<not> chLoopDone (chanAt c 0) \<and>
    (role = RoleClient \<longrightarrow> chUcrq (chanAt c 0) = Some ucrq) \<and> cnWriteCap c = wl \<and> cnCount c = zeroCount \<and> \<not> cnNotifyClosed c \<and>
    chWhole (chanAt c 0) = None \<and> chErr (chanAt c 0) = None \<and>
    \<not> cnClosedMark c \<and> cnErr c = None \<and> cnOut c = [] \<and> cnWriteQueue c = [] \<and> cnTcpOpen c \<and>
    cnOwner c = ow \<and> cnReadPending c = None \<and> \<not> cnReadDone c \<and> \<not> cnWriteDone c"
  using assms
  by (auto simp: NewConnection_def newChannel_def enterChannel_def Let_def chanAt_def
      split: if_splits)

lemma idInv_start:
  assumes "idStart s"
  shows "idInvUntil s"
proof -
  obtain c res cl ex where s: "s = (c, res, cl, ex)" by (cases s)
  with assms obtain hc hs ow role wl ucrq where
    "NewConnection hc hs ow role wl ucrq = Inr c" and r: "res = []" "cl = []"
    by (auto simp: idStart_def)
  note f = NewConnection_Inr [OF this(1)]
  have "map_of (cnChannels c) cid = Some a \<longleftrightarrow> inDict c cl a \<and> chId (chanAt c a) = cid" for cid a
    using f r by (auto simp: inDict_def)
  with f r s show ?thesis unfolding idInvUntil_def idInv_def s prod.case by (auto simp: usedIds_def)
qed

interpretation channel_ids: invariant_of idStart idStep idInvUntil
proof
  fix s t :: "'q idState"
  show "idStart s \<Longrightarrow> idInvUntil s" by (rule idInv_start)
  assume "idInvUntil s" and "idStep s t"
  from this(2,1) show "idInvUntil t"
    by cases (auto simp: idInvUntil_def intro: idInv_Reserve idInv_Enter idInv_Mark idInv_Remove idInv_view)
qed

lemma idInv_reach: "reach idStart idStep (c, res, cl, False) \<Longrightarrow> idInv (c, res, cl)"
  using channel_ids.reach_inv [of "(c, res, cl, False)"] by (simp add: idInvUntil_def)

section \<open>Properties of channel ids and closing\<close>

text \<open>C11: However creations, closings of channels and of the connection and other work
  interleave (a creation reserves its id and enters its channel in two critical sections, a closing
  marks the channel, removes it and finishes in three steps), the lookup of an id finds exactly
  the channel with that id that is open, or marked closed and not removed yet: no two of these
  share an id, and no id that is reserved for a channel under creation, or free, belongs to one
  of them. This holds as long as no creation has met the exhaustion of the ids. There it ends: with all
  ids handed out and none free, a new channel gets id 0 and replaces the system channel, which stays
  open.\<close>

theorem channel_ids_unique:
  assumes "reach idStart idStep (c, res, cl, False)"
  shows "(getChannel cid c = Some a \<longleftrightarrow>
           a < length (cnChans c) \<and> (\<not> chClosedMark (chanAt c a) \<or> a \<in> set cl) \<and> chId (chanAt c a) = cid) \<and>
         (cid \<in> set res \<union> set (cnFree c) \<longrightarrow> getChannel cid c = None) \<and>
         set res \<inter> set (cnFree c) = {} \<and> distinct res \<and> distinct (cnFree c) \<and>
         cnChannelCount c = word_of_nat (length (cnChannels c)) \<and>
         (cnFree c = [] \<and> cnMaxChannelId c = 4294967295 \<and> getChannel 0 c = Some b \<longrightarrow>
           getChannel 0 (fst (newChannel pick False queueLen cc sc ucrq c)) = Some (length (cnChans c)) \<and>
           chId (chanAt (fst (newChannel pick False queueLen cc sc ucrq c)) b) = 0 \<and>
           chanAt (fst (newChannel pick False queueLen cc sc ucrq c)) b = chanAt c b \<and>
           b < length (cnChans c))"
proof -
  have inv: "idInv (c, res, cl)" using assms by (rule idInv_reach)
  note dict = idInv_dict [OF inv]
  have "cid \<in> set res \<union> set (cnFree c) \<longrightarrow> getChannel cid c = None"
    using inv unfolding idInv_def prod.case getChannel_def usedIds_def
    by (auto simp: map_of_eq_None_iff)
  moreover have "getChannel 0 (fst (newChannel pick False queueLen cc sc ucrq c)) = Some (length (cnChans c)) \<and>
      chId (chanAt (fst (newChannel pick False queueLen cc sc ucrq c)) b) = 0 \<and>
      chanAt (fst (newChannel pick False queueLen cc sc ucrq c)) b = chanAt c b \<and> b < length (cnChans c)"
    if "cnFree c = [] \<and> cnMaxChannelId c = 4294967295 \<and> getChannel 0 c = Some b"
  proof -
    have n: "newChannel pick False queueLen cc sc ucrq c = enterChannel 0 queueLen cc sc ucrq c"
      using that by (simp add: newChannel_def makeNewChannelId_def)
    from that dict [of 0 b] have "b < length (cnChans c)" "chId (chanAt c b) = 0"
      by (auto simp: getChannel_def inDict_def)
    then show ?thesis unfolding n
      by (simp add: enterChannel_def Let_def getChannel_def update_conv' chanAt_def nth_append)
  qed
  moreover have "set res \<inter> set (cnFree c) = {} \<and> distinct res \<and> distinct (cnFree c) \<and>
      cnChannelCount c = word_of_nat (length (cnChannels c))"
    using inv unfolding idInv_def prod.case by auto
  ultimately show ?thesis using dict [of cid a] unfolding getChannel_def inDict_def by blast
qed

definition ownerZero :: owner where
  "ownerZero = \<lparr>owCount = zeroCount, owMeasure = NewMesure None, owPathCount = [],
                owPathMeasure = []\<rparr>"

definition freshConn :: "byte \<Rightarrow> nat conn" where
  "freshConn role = (case NewConnection (role = RoleClient) (role = RoleServer) ownerZero role 100 0
     of Inr c \<Rightarrow> c | Inl _ \<Rightarrow> undefined)"

lemma freshConn_New: "role = RoleClient \<or> role = RoleServer \<Longrightarrow>
    NewConnection (role = RoleClient) (role = RoleServer) ownerZero role 100 0 =
    Inr (freshConn role)"
  by (auto simp: freshConn_def NewConnection_def)

lemma freshConn_reach:
  "role = RoleClient \<or> role = RoleServer \<Longrightarrow> reach idStart idStep (freshConn role, [], [], False)"
proof (rule reach_start)
  assume "role = RoleClient \<or> role = RoleServer"
  from freshConn_New [OF this] show "idStart (freshConn role, [], [], False)"
    unfolding idStart_def prod.case by blast
qed

definition samplePacket :: "byte \<Rightarrow> u32 \<Rightarrow> byte \<Rightarrow> packet" where
  "samplePacket status cid b = \<lparr>pktType = PacketTypeRequest, pktStatus = status,
     pktPath = ''/echo'', pktChannelId = cid, pktData = [b], pktDontChunk = False,
     pktChannel = None, pktParams = None\<rparr>"

theorem channel_ids_unique_witness:
  "\<exists>c res. reach idStart idStep (c :: nat conn, res, [0], False) \<and> 1 \<in> set res \<and> getChannel 1 c = None \<and>
     getChannel 0 c = Some 0 \<and> chClosedMark (chanAt c 0)"
proof -
  let ?c = "freshConn RoleServer"
  let ?d = "?c\<lparr>cnMaxChannelId := 1\<rparr>"
  let ?e = "Channel_mark 0 ?d"
  note f = NewConnection_Inr [OF freshConn_New [of RoleServer]]
  have mk: "makeNewChannelId 0 ?c = (?d, 1)" using f by (simp add: makeNewChannelId_def)
  have "idStep (?c, [], [], False) (?d, [1], [], False)"
    using idStep.Reserve [OF mk, of "[]" "[]" False] f by (simp add: idsExhausted_def)
  with freshConn_reach [of RoleServer] have r1: "reach idStart idStep (?d, [1], [], False)"
    by (auto intro: reach_step)
  have "idStep (?d, [1], [], False) (?e, [1], [0], False)"
    by (rule idStep.MarkChannel) (use f in \<open>simp_all add: chanAt_def\<close>)
  with r1 have r: "reach idStart idStep (?e, [1], [0], False)" by (rule reach_step)
  have closed: "chClosedMark (chanAt ?e 0)" using f by (simp add: Channel_mark_def)
  have "getChannel 1 ?e = None" and "getChannel 0 ?e = Some 0"
    using channel_ids_unique [OF r, of 1 0] channel_ids_unique [OF r, of 0 0] f
    by (auto simp: Channel_mark_def chanAt_def updChan_def)
  with r closed show ?thesis by (intro exI [of _ ?e] exI [of _ "[1]"]) simp
qed

text \<open>C12: \<open>Connection.Close\<close> closes the connection for good, whatever the reachable state (ids never
  exhausted): it is marked closed with the given error (or ``unknown'') if it was open before,
  every channel object is closed, no id finds a channel any more but one that another goroutine
  is just closing and about to remove, nothing waits to be written, the socket is closed, and a
  second call changes nothing.\<close>

theorem Connection_Close_closes_all:
  assumes "reach idStart idStep (c, res, cl, False)" and "\<not> cnClosedMark c"
  shows "Connection_Closed (Connection_Close err c) \<and>
         cnErr (Connection_Close err c) = Some (orUnknown err) \<and>
         (getChannel cid (Connection_Close err c) = None \<or>
            (\<exists>b \<in> set cl. getChannel cid (Connection_Close err c) = Some b)) \<and>
         (cl = [] \<longrightarrow> getChannel cid (Connection_Close err c) = None) \<and>
         (a < length (cnChans c) \<longrightarrow> chClosedMark (chanAt (Connection_Close err c) a)) \<and>
         cnWriteQueue (Connection_Close err c) = [] \<and> \<not> cnTcpOpen (Connection_Close err c) \<and>
         Connection_Close err' (Connection_Close err c) = Connection_Close err c"
proof -
  have inv: "idInv (c, res, cl)" using assms(1) by (rule idInv_reach)
  then have inv': "idInv (Connection_Close err c, res, cl)" by (rule idInv_CloseConnection)
  have closed: "chClosedMark (chanAt (Connection_Close err c) b)" if b: "b < length (cnChans c)" for b
  proof -
    have "(chId (chanAt c b), b) \<in> set (cnChannels c)" if "\<not> chClosedMark (chanAt c b)"
      using that b idInv_dict [OF inv, of "chId (chanAt c b)" b]
      by (auto simp: inDict_def dest: map_of_SomeD)
    then show ?thesis using Connection_Close_closed_iff [OF inv assms(2) b] by force
  qed
  have "b \<in> set cl" if "getChannel cid (Connection_Close err c) = Some b" for b
    using that closed idInv_dict [OF inv', of cid b] by (auto simp: getChannel_def inDict_def)
  then have "getChannel cid (Connection_Close err c) = None \<or>
      (\<exists>b \<in> set cl. getChannel cid (Connection_Close err c) = Some b)"
    by (cases "getChannel cid (Connection_Close err c)") auto
  moreover from this have "cl = [] \<longrightarrow> getChannel cid (Connection_Close err c) = None" by auto
  ultimately show ?thesis using closed assms(2)
    by (simp add: Connection_Closed_def) (simp add: Connection_Close_open)
qed

theorem Connection_Close_closes_all_witness:
  "\<not> cnClosedMark (freshConn RoleClient) \<and>
   getChannel 0 (freshConn RoleClient) = Some 0 \<and>
   getChannel 0 (Connection_Close None (freshConn RoleClient)) = None \<and>
   cnErr (Connection_Close None (freshConn RoleClient)) = Some (TextErr ''unknown'')"
proof -
  note f = NewConnection_Inr [OF freshConn_New [of RoleClient]]
  have "\<not> cnClosedMark (freshConn RoleClient)" using f by simp
  with Connection_Close_closes_all [OF freshConn_reach, of RoleClient None 0] f
  show ?thesis by (simp add: getChannel_def orUnknown_def)
qed

end
