(* ===== verification/Send.thy ===== *)
theory Send
  imports Conn
begin

text \<open>
  The sending side of \<open>protocol.go\<close>: \<open>Channel.SendPacket\<close> with \<open>sendPacket\<close> and
  \<open>packetToSendQueue\<close>, which put packets into the write queue of the connection, and the write
  loop with \<open>WritePacket\<close>, which encodes them onto the socket. While a sender waits for room in
  the queue the other goroutines go on: \<open>env n\<close> is what they do to the connection before the
  n-th select of a call is decided. The socket is the parameter \<open>wr\<close>: for the bytes it is given,
  how many it takes and the error it reports.
\<close>

section \<open>Queueing\<close>

definition errQueueTimeout :: gerr where
  "errQueueTimeout = TextErr ''push packet to sendQueue timeout''"

text \<open>
  The select of \<open>packetToSendQueue\<close>: the packet goes in when there is room within the second the
  call waits.
\<close>

definition packetToSendQueue ::
    "('q conn \<Rightarrow> 'q conn) \<Rightarrow> packet \<Rightarrow> 'q conn \<Rightarrow> 'q conn \<times> gerr option" where
  "packetToSendQueue env pkt c =
     (let c1 = env c
      in if length (cnWriteQueue c1) < cnWriteCap c1
         then (c1\<lparr>cnWriteQueue := cnWriteQueue c1 @ [pkt]\<rparr>, None)
         else (c1, Some errQueueTimeout))"

text \<open>The status of a chunk: the first or a later one, the last or not. No status for other roles.\<close>

definition chunkStatus :: "byte \<Rightarrow> bool \<Rightarrow> bool \<Rightarrow> byte option" where
  "chunkStatus role firstSend isLast =
     (if isLast then
        (if role = RoleClient then Some (if firstSend then StatusC1 else StatusC3)
         else if role = RoleServer then Some (if firstSend then StatusS5 else StatusS7)
         else None)
      else
        (if role = RoleClient then Some (if firstSend then StatusC0 else StatusC2)
         else if role = RoleServer then Some (if firstSend then StatusS4 else StatusS6)
         else None))"

text \<open>
  The loop over the chunks. Each iteration builds a chunk (\<open>chunkAt\<close>) and then pushes the packet
  \<open>pkt\<close> itself; the error of the push is dropped.
\<close>

definition chunkAt :: "nat \<Rightarrow> packet \<Rightarrow> u32 \<Rightarrow> nat \<Rightarrow> nat \<Rightarrow> byte \<Rightarrow> packet" where
  "chunkAt a pkt cid start chunkSize status =
     \<lparr>pktType = pktType pkt, pktStatus = status, pktPath = pktPath pkt, pktChannelId = cid,
      pktData = take chunkSize (drop start (pktData pkt)), pktDontChunk = False,
      pktChannel = Some a, pktParams = None\<rparr>"


definition cntPacketSent :: count where "cntPacketSent = zeroCount\<lparr>PacketsSent := 1\<rparr>"
definition cntWholeSent :: count where "cntWholeSent = zeroCount\<lparr>WholePacketSent := 1\<rparr>"
definition cntBothSent :: count where
  "cntBothSent = zeroCount\<lparr>PacketsSent := 1, WholePacketSent := 1\<rparr>"

function chunkLoop :: "(nat \<Rightarrow> 'q conn \<Rightarrow> 'q conn) \<Rightarrow> nat \<Rightarrow> packet \<Rightarrow> nat \<Rightarrow> bool \<Rightarrow> nat \<Rightarrow>
    'q conn \<Rightarrow> 'q conn \<times> gerr option" where
  "chunkLoop env a pkt remainDataSize firstSend n c =
     (let chunkSize = (if remainDataSize < unat MaxPacketSize then remainDataSize
                       else unat MaxPacketSize);
          start = length (pktData pkt) - remainDataSize
      in case chunkStatus (cnRole c) firstSend (chunkSize = remainDataSize) of
           None \<Rightarrow> (c, Some (TextErr ''protocol error''))
         | Some status \<Rightarrow>
             let chunk = chunkAt a pkt (chId (chanAt c a)) start chunkSize status;
                 c1 = addCounts a (pktPath pkt) cntPacketSent (fst (packetToSendQueue (env n) pkt c))
             in if remainDataSize - chunkSize = 0 then (c1, None)
                else chunkLoop env a pkt (remainDataSize - chunkSize) False (n + 1) c1)"
  by pat_completeness auto
termination
  by (relation "measure (\<lambda>(env, a, pkt, r, f, n, c). r)") (auto simp: split: if_splits)

declare chunkLoop.simps [simp del]

definition sendPacket :: "(nat \<Rightarrow> 'q conn \<Rightarrow> 'q conn) \<Rightarrow> nat \<Rightarrow> packet \<Rightarrow> 'q conn \<Rightarrow>
    'q conn \<times> gerr option" where
  "sendPacket env a pkt c =
     (if Connection_Closed c then (c, Some (TextErr ''connect is closed''))
      else if pktStatus pkt = Status8 then (fst (packetToSendQueue (env 0) pkt c), None)
      else if length (pktData pkt) \<le> unat MaxPacketSize \<or> pktDontChunk pkt then
        let status = (if cnRole c = RoleClient then StatusC1
                      else if cnRole c = RoleServer then StatusS5 else pktStatus pkt);
            pkt' = pkt\<lparr>pktStatus := status\<rparr>
        in (addCounts a (pktPath pkt) cntBothSent (fst (packetToSendQueue (env 0) pkt' c)), None)
      else
        case chunkLoop env a pkt (length (pktData pkt)) True 0 c of
          (c1, Some e) \<Rightarrow> (c1, Some e)
        | (c1, None) \<Rightarrow> (addCounts a (pktPath pkt) cntWholeSent c1, None))"

definition SendPacket :: "(nat \<Rightarrow> 'q conn \<Rightarrow> 'q conn) \<Rightarrow> nat \<Rightarrow> packet \<Rightarrow> 'q conn \<Rightarrow>
    'q conn \<times> gerr option" where
  "SendPacket env a pkt c =
     (case chErr (chanAt c a) of
        Some e \<Rightarrow> (c, Some (TextErr (''current channel is invalid, '' @ errorText e)))
      | None \<Rightarrow>
          (case sendPacket env a pkt c of
             (c1, Some e) \<Rightarrow> (Connection_Close (Some e) (Channel_Close a (Some e) c1), Some e)
           | (c1, None) \<Rightarrow> (c1, None)))"

section \<open>Writing\<close>

type_synonym writer = "byte list \<Rightarrow> nat \<times> gerr option"

definition WritePacket :: "writer \<Rightarrow> packet \<Rightarrow> 'q conn \<Rightarrow> 'q conn \<times> nat \<times> gerr option" where
  "WritePacket wr pkt c =
     (case CreateNetPacket pkt of
        Inl e \<Rightarrow> (c, 0, Some e)
      | Inr data \<Rightarrow>
          let (n, err) = wr data; c1 = c\<lparr>cnOut := cnOut c @ take n data\<rparr>
          in case err of
               Some e \<Rightarrow> (c1, n, Some e)
             | None \<Rightarrow>
                 if n \<noteq> length data then
                   (c1, n, Some (TextErr (''writepacket not complete, totoal '' @
                      showNat (length data) @ '' bytes, '' @ showNat n @ '' bytes writted. '')))
                 else
                   (case pktChannel pkt of
                      None \<Rightarrow> c1
                    | Some a \<Rightarrow> addCounts a (pktPath pkt)
                                  (zeroCount\<lparr>BytesSent := word_of_nat n\<rparr>) c1,
                    n, None))"

text \<open>
  One round of the write loop. \<open>notified\<close> says that the select takes the case of \<open>closeNotify\<close>: it can
  when the loop waited there while the connection was closed (afterwards the field is nil and a loop
  that comes to wait then is not notified any more).
\<close>

definition writeLoop :: "bool \<Rightarrow> writer \<Rightarrow> 'q conn \<Rightarrow> 'q conn" where
  "writeLoop notified wr c =
     (if cnWriteDone c then c
      else if cnNotifyClosed c \<and> notified then c\<lparr>cnWriteDone := True\<rparr>
      else case cnWriteQueue c of
        [] \<Rightarrow> c
      | pkt # rest \<Rightarrow>
          let c1 = c\<lparr>cnWriteQueue := rest\<rparr>
          in if Connection_Closed c1 then c1\<lparr>cnWriteDone := True\<rparr>
             else case WritePacket wr pkt c1 of
               (c2, _, Some e) \<Rightarrow> (Connection_Close (Some e) c2)\<lparr>cnWriteDone := True\<rparr>
             | (c2, _, None) \<Rightarrow> c2)"

section \<open>Facts about sending\<close>

text \<open>No other goroutine intervenes.\<close>

definition alone :: "nat \<Rightarrow> 'q conn \<Rightarrow> 'q conn" where
  "alone n c = c"

lemma alone_simps [simp]:
  "cnRole (alone n c) = cnRole c" "cnCount (alone n c) = cnCount c"
  "cnClosedMark (alone n c) = cnClosedMark c" "cnOut (alone n c) = cnOut c"
  "cnWriteCap (alone n c) = cnWriteCap c" "cnWriteDone (alone n c) = cnWriteDone c"
  "cnNotifyClosed (alone n c) = cnNotifyClosed c" "cnChans (alone n c) = cnChans c"
  "cnWriteQueue (alone n c) = cnWriteQueue c" "idView (alone n c) = idView c"
  by (simp_all add: alone_def)

lemma packetToSendQueue_frame [simp]:
  "cnRole (fst (packetToSendQueue env pkt c)) = cnRole (env c)"
  "cnCount (fst (packetToSendQueue env pkt c)) = cnCount (env c)"
  "cnClosedMark (fst (packetToSendQueue env pkt c)) = cnClosedMark (env c)"
  "cnOut (fst (packetToSendQueue env pkt c)) = cnOut (env c)"
  "cnWriteCap (fst (packetToSendQueue env pkt c)) = cnWriteCap (env c)"
  "cnWriteDone (fst (packetToSendQueue env pkt c)) = cnWriteDone (env c)"
  "cnNotifyClosed (fst (packetToSendQueue env pkt c)) = cnNotifyClosed (env c)"
  "cnChans (fst (packetToSendQueue env pkt c)) = cnChans (env c)"
  "idView (fst (packetToSendQueue env pkt c)) = idView (env c)"
  by (simp_all add: packetToSendQueue_def Let_def idView_def)

lemma packetToSendQueue_queue:
  "cnWriteQueue (fst (packetToSendQueue env pkt c)) = cnWriteQueue (env c) @
     (if length (cnWriteQueue (env c)) < cnWriteCap (env c) then [pkt] else [])"
  by (simp add: packetToSendQueue_def Let_def)

lemma chunkStatus_role:
  "role = RoleClient \<or> role = RoleServer \<Longrightarrow> \<exists>s. chunkStatus role f l = Some s"
  by (auto simp: chunkStatus_def)

definition chunkNumber :: "nat \<Rightarrow> nat" where
  "chunkNumber r = (r + 16777215) div 16777216"

lemma chunkNumber_step:
  "16777216 < r \<Longrightarrow> chunkNumber r = Suc (chunkNumber (r - 16777216))"
proof -
  assume "16777216 < r"
  then have "r + 16777215 = (r - 16777216 + 16777215) + 16777216" by simp
  then show ?thesis unfolding chunkNumber_def by (metis Suc_eq_plus1 div_add_self2 zero_neq_numeral)
qed

lemma chunkNumber_last: "0 < r \<Longrightarrow> r \<le> 16777216 \<Longrightarrow> chunkNumber r = 1"
  by (simp add: chunkNumber_def div_nat_eqI)

lemma take_push:
  assumes "length q \<le> cap"
  shows "take cap ((q @ (if length q < cap then [x] else [])) @ ys) = take cap (q @ x # ys)"
  using assms by (auto simp: Suc_diff_Suc take_Cons')

lemma chunkLoop_queue:
  assumes "0 < r" "cnRole c = RoleClient \<or> cnRole c = RoleServer"
    "length (cnWriteQueue c) \<le> cnWriteCap c"
  shows "\<exists>c'. chunkLoop alone a pkt r f n c = (c', None) \<and>
    cnWriteQueue c' = take (cnWriteCap c) (cnWriteQueue c @ replicate (chunkNumber r) pkt) \<and>
    cnOut c' = cnOut c \<and> cnClosedMark c' = cnClosedMark c \<and> cnWriteDone c' = cnWriteDone c \<and>
    cnNotifyClosed c' = cnNotifyClosed c \<and> cnWriteCap c' = cnWriteCap c \<and> cnRole c' = cnRole c \<and>
    idView c' = idView c"
  using assms
proof (induction r arbitrary: f n c rule: less_induct)
  case (less r)
  let ?c1 = "addCounts a (pktPath pkt) cntPacketSent (fst (packetToSendQueue (alone n) pkt c))"
  obtain st where st: "chunkStatus (cnRole c) f True = Some st"
    using chunkStatus_role [OF less.prems(2)] by blast
  obtain st' where st': "chunkStatus (cnRole c) f False = Some st'"
    using chunkStatus_role [OF less.prems(2)] by blast
  have q1: "cnWriteQueue ?c1 = cnWriteQueue c @
      (if length (cnWriteQueue c) < cnWriteCap c then [pkt] else [])"
    by (simp add: packetToSendQueue_queue)
  then have len1: "length (cnWriteQueue ?c1) \<le> cnWriteCap ?c1" using less.prems(3) by simp
  show ?case
  proof (cases "r \<le> 16777216")
    case True
    then have e: "(if r < unat MaxPacketSize then r else unat MaxPacketSize) = r" by simp
    have one: "chunkLoop alone a pkt r f n c = (?c1, None)"
      using st by (subst chunkLoop.simps) (simp add: e Let_def del: unat_sizes)
    from q1 chunkNumber_last [OF less.prems(1) True] less.prems(3) show ?thesis
      unfolding one by (intro exI [of _ ?c1]) simp
  next
    case False
    then have e: "(if r < unat MaxPacketSize then r else unat MaxPacketSize) = 16777216" by simp
    from False have "r - 16777216 \<noteq> 0" by simp
    then have "chunkLoop alone a pkt r f n c =
        chunkLoop alone a pkt (r - 16777216) False (n + 1) ?c1"
      using st' False by (subst chunkLoop.simps) (simp add: e Let_def del: unat_sizes)
    moreover have "r - 16777216 < r" "0 < r - 16777216" using False by simp_all
    moreover from less.IH [OF this, of ?c1 False "n + 1"] less.prems(2) len1
    obtain c' where "chunkLoop alone a pkt (r - 16777216) False (n + 1) ?c1 = (c', None)"
      "cnWriteQueue c' = take (cnWriteCap c) (cnWriteQueue ?c1 @ replicate (chunkNumber (r - 16777216)) pkt)"
      "cnOut c' = cnOut c" "cnClosedMark c' = cnClosedMark c" "cnWriteDone c' = cnWriteDone c"
      "cnNotifyClosed c' = cnNotifyClosed c" "cnWriteCap c' = cnWriteCap c" "cnRole c' = cnRole c"
      "idView c' = idView c" by auto
    moreover have "take (cnWriteCap c) (cnWriteQueue ?c1 @ replicate (chunkNumber (r - 16777216)) pkt) =
        take (cnWriteCap c) (cnWriteQueue c @ replicate (chunkNumber r) pkt)"
      unfolding q1 take_push [OF less.prems(3)] using False chunkNumber_step [of r] by simp
    ultimately show ?thesis by (intro exI [of _ c']) (simp only:)
  qed
qed

lemma Channel_Close_queue: "cnWriteQueue (Channel_Close a err c) = cnWriteQueue c"
  by simp

lemma writeLoop_refused:
  assumes "\<not> cnWriteDone c" "\<not> cnClosedMark c" "cnWriteQueue c = pkt # rest"
    "CreateNetPacket pkt = Inl e" "\<not> cnNotifyClosed c"
  shows "writeLoop notified wr c =
    (Connection_Close (Some e) (c\<lparr>cnWriteQueue := rest\<rparr>))\<lparr>cnWriteDone := True\<rparr>"
  using assms by (simp add: writeLoop_def WritePacket_def Connection_Closed_def Let_def)

text \<open>A socket that takes all it is given.\<close>

definition fullWriter :: writer where
  "fullWriter bs = (length bs, None)"

lemma WritePacket_full:
  assumes "CreateNetPacket pkt = Inr bs"
  shows "\<exists>c'. WritePacket fullWriter pkt c = (c', length bs, None) \<and> cnOut c' = cnOut c @ bs \<and>
    cnWriteQueue c' = cnWriteQueue c \<and> cnClosedMark c' = cnClosedMark c \<and>
    cnWriteDone c' = cnWriteDone c \<and> cnNotifyClosed c' = cnNotifyClosed c \<and>
    coreView c' = coreView c \<and> readView c' = readView c"
proof -
  let ?c1 = "c\<lparr>cnOut := cnOut c @ bs\<rparr>"
  have "coreView ?c1 = coreView c" "readView ?c1 = readView c"
    by (simp_all add: coreView_def readView_def idView_def)
  with assms show ?thesis
    by (cases "pktChannel pkt") (simp_all add: WritePacket_def fullWriter_def)
qed

lemma writeLoop_full:
  assumes "\<not> cnWriteDone c" "\<not> cnClosedMark c" "\<not> cnNotifyClosed c"
    "cnWriteQueue c = map fst ps @ qs" "\<forall>(p, bs) \<in> set ps. CreateNetPacket p = Inr bs"
  shows "\<exists>c'. (writeLoop notified fullWriter ^^ length ps) c = c' \<and>
    cnOut c' = cnOut c @ concat (map snd ps) \<and> cnWriteQueue c' = qs \<and> \<not> cnClosedMark c' \<and>
    \<not> cnWriteDone c' \<and> \<not> cnNotifyClosed c' \<and> coreView c' = coreView c \<and>
    readView c' = readView c"
  using assms
proof (induction ps arbitrary: c)
  case (Cons x ps)
  obtain p bs where x: "x = (p, bs)" by (cases x)
  let ?c0 = "c\<lparr>cnWriteQueue := map fst ps @ qs\<rparr>"
  from Cons.prems(5) x have "CreateNetPacket p = Inr bs" by simp
  from WritePacket_full [OF this, of ?c0] obtain c1 where
    w: "WritePacket fullWriter p ?c0 = (c1, length bs, None)"
    and c1: "cnOut c1 = cnOut c @ bs" "cnWriteQueue c1 = map fst ps @ qs"
      "cnClosedMark c1 = cnClosedMark c" "cnWriteDone c1 = cnWriteDone c"
      "cnNotifyClosed c1 = cnNotifyClosed c" "coreView c1 = coreView ?c0" "readView c1 = readView ?c0"
    by auto
  have c0: "coreView ?c0 = coreView c" "readView ?c0 = readView c"
    by (simp_all add: coreView_def readView_def idView_def)
  have "writeLoop notified fullWriter c = c1"
    using Cons.prems x w by (simp add: writeLoop_def Connection_Closed_def Let_def)
  moreover from Cons.IH [of c1] Cons.prems c1 obtain c' where
    "(writeLoop notified fullWriter ^^ length ps) c1 = c'"
    "cnOut c' = (cnOut c @ bs) @ concat (map snd ps)" "cnWriteQueue c' = qs" "\<not> cnClosedMark c'"
    "\<not> cnWriteDone c'" "\<not> cnNotifyClosed c'" "coreView c' = coreView c" "readView c' = readView c"
    using c0 by auto
  ultimately show ?case by (simp add: x funpow_swap1)
qed simp

section \<open>Properties of sending\<close>

text \<open>\<open>SendPacket\<close> of a packet that needs no splitting, on a usable channel, always reports
  success and counts the packet as sent. The packet, with the status of a single whole message,
  goes to the end of the write queue when there is room after what the other goroutines did
  within the second it waits; when there is none the packet is dropped without a trace.\<close>

theorem SendPacket_single:
  assumes "chErr (chanAt c a) = None" "\<not> cnClosedMark c" "pktStatus pkt \<noteq> Status8"
    and "length (pktData pkt) \<le> unat MaxPacketSize \<or> pktDontChunk pkt"
    and "cnRole c = RoleClient \<or> cnRole c = RoleServer"
  shows "\<exists>c'. SendPacket env a pkt c = (c', None) \<and>
    cnWriteQueue c' = cnWriteQueue (env 0 c) @
      (if length (cnWriteQueue (env 0 c)) < cnWriteCap (env 0 c)
       then [pkt\<lparr>pktStatus := if cnRole c = RoleClient then StatusC1 else StatusS5\<rparr>] else []) \<and>
    PacketsSent (cnCount c') = PacketsSent (cnCount (env 0 c)) + 1 \<and>
    WholePacketSent (cnCount c') = WholePacketSent (cnCount (env 0 c)) + 1 \<and>
    cnOut c' = cnOut (env 0 c)"
  using assms
  by (auto simp: SendPacket_def sendPacket_def Connection_Closed_def packetToSendQueue_queue
      cntBothSent_def zeroCount_def Let_def)

theorem SendPacket_single_witness:
  "\<exists>c'. SendPacket alone 0 (samplePacket StatusC0 0 7) ((freshConn RoleClient)\<lparr>cnWriteCap := 0\<rparr>) =
     (c', None) \<and> cnWriteQueue c' = [] \<and> PacketsSent (cnCount c') = 1"
proof -
  let ?c = "(freshConn RoleClient)\<lparr>cnWriteCap := 0\<rparr>"
  note f = NewConnection_Inr [OF freshConn_New [of RoleClient]]
  have "chErr (chanAt ?c 0) = None" using f by (simp add: chanAt_def)
  moreover have "cnCount ?c = zeroCount" using f by simp
  ultimately show ?thesis
    using SendPacket_single [of ?c 0 "samplePacket StatusC0 0 7" alone] f
    by (auto simp: samplePacket_def status_defs size_defs zeroCount_def)
qed

text \<open>C15: A packet larger than \<open>MaxPacketSize\<close> that may be split is not delivered but ends the
  connection: \<open>SendPacket\<close> reports success after pushing the unsplit packet itself, with its
  status unset, once for every chunk, and the write loop refuses the first of them, sends no
  byte of it and closes the connection.\<close>

theorem SendPacket_oversize:
  assumes "chErr (chanAt c a) = None" "\<not> cnClosedMark c" "pktStatus pkt \<noteq> Status8"
    and "unat MaxPacketSize < length (pktData pkt)" "\<not> pktDontChunk pkt"
    and "cnRole c = RoleClient \<or> cnRole c = RoleServer"
    and "cnWriteQueue c = []" "0 < cnWriteCap c" "\<not> cnWriteDone c" "\<not> cnNotifyClosed c"
  shows "\<exists>c'. SendPacket alone a pkt c = (c', None) \<and>
    cnWriteQueue c' = replicate (min (cnWriteCap c) (chunkNumber (length (pktData pkt)))) pkt \<and>
    cnOut (writeLoop notified wr c') = cnOut c \<and>
    Connection_Closed (writeLoop notified wr c') \<and> \<not> cnTcpOpen (writeLoop notified wr c')"
proof -
  from assms(4) have big: "16777216 < length (pktData pkt)" by simp
  then have pos: "0 < length (pktData pkt)" by linarith
  obtain c1 where c1: "chunkLoop alone a pkt (length (pktData pkt)) True 0 c = (c1, None)"
    "cnWriteQueue c1 = take (cnWriteCap c) (replicate (chunkNumber (length (pktData pkt))) pkt)"
    "cnOut c1 = cnOut c" "cnClosedMark c1 = cnClosedMark c" "cnWriteDone c1 = cnWriteDone c"
    "cnNotifyClosed c1 = cnNotifyClosed c"
    using chunkLoop_queue [OF pos, of c a pkt True 0] assms(6,7) by auto
  let ?c' = "addCounts a (pktPath pkt) cntWholeSent c1"
  have send: "SendPacket alone a pkt c = (?c', None)"
    using assms c1(1) by (simp add: SendPacket_def sendPacket_def Connection_Closed_def)
  obtain n where n: "min (cnWriteCap c) (chunkNumber (length (pktData pkt))) = Suc n"
    using assms(8) chunkNumber_step [OF big] by (cases "cnWriteCap c") auto
  have q: "cnWriteQueue ?c' = pkt # replicate n pkt"
    using c1(2) n by (simp add: take_replicate)
  obtain e where e: "CreateNetPacket pkt = Inl e"
    using assms(4) by (cases "CreateNetPacket pkt") (auto simp: CreateNetPacket_Inr)
  have "writeLoop notified wr ?c' =
      (Connection_Close (Some e) (?c'\<lparr>cnWriteQueue := replicate n pkt\<rparr>))\<lparr>cnWriteDone := True\<rparr>"
    by (rule writeLoop_refused [OF _ _ q e]) (use c1 assms in simp_all)
  moreover have "\<not> cnClosedMark (?c'\<lparr>cnWriteQueue := replicate n pkt\<rparr>)"
    using c1 assms(2) by simp
  ultimately show ?thesis
    using send q c1(3) n
    by (intro exI [of _ ?c']) (simp add: Connection_Closed_def, simp add: Connection_Close_open)
qed

theorem SendPacket_oversize_witness:
  "\<exists>c'. SendPacket alone 0 ((samplePacket 0 0 7)\<lparr>pktData := replicate 16777217 0\<rparr>)
      (freshConn RoleServer) = (c', None) \<and> Connection_Closed (writeLoop False fullWriter c')"
proof -
  note f = NewConnection_Inr [OF freshConn_New [of RoleServer]]
  have "\<not> pktDontChunk (samplePacket 0 0 7)" "pktStatus (samplePacket 0 0 7) \<noteq> Status8"
    by (simp_all add: samplePacket_def Status8_def)
  with SendPacket_oversize [of "freshConn RoleServer" 0
      "(samplePacket 0 0 7)\<lparr>pktData := replicate 16777217 0\<rparr>" False fullWriter] f
  show ?thesis by auto
qed

text \<open>C16: The write loop sends the queued packets in the order of the queue, each as
  \<open>CreateNetPacket\<close> encodes it and with nothing between them, as long as the socket takes what
  it is given; then the queue is empty and the connection still open.\<close>

theorem writeLoop_fifo:
  assumes "\<not> cnWriteDone c" "\<not> cnClosedMark c" "\<not> cnNotifyClosed c"
    and "cnWriteQueue c = map fst ps @ qs" "\<forall>(p, bs) \<in> set ps. CreateNetPacket p = Inr bs"
  shows "cnOut ((writeLoop notified fullWriter ^^ length ps) c) = cnOut c @ concat (map snd ps) \<and>
    cnWriteQueue ((writeLoop notified fullWriter ^^ length ps) c) = qs \<and>
    \<not> cnClosedMark ((writeLoop notified fullWriter ^^ length ps) c)"
  using writeLoop_full [OF assms] by blast

theorem writeLoop_fifo_witness:
  "cnOut ((writeLoop False fullWriter ^^ 2) ((freshConn RoleClient)\<lparr>cnWriteQueue :=
      [testPacket, testPacket]\<rparr>)) =
    concat (replicate 2 ([8] @ bytesOf ''/testpath'' @ [0, 0, 0, 4, 210, 0, 0, 0, 4, 116, 101, 115, 116]))"
proof -
  note f = NewConnection_Inr [OF freshConn_New [of RoleClient]]
  let ?b = "[8] @ bytesOf ''/testpath'' @ [0, 0, 0, 4, 210, 0, 0, 0, 4, 116, 101, 115, 116]"
  show ?thesis
    using writeLoop_fifo [of "(freshConn RoleClient)\<lparr>cnWriteQueue := [testPacket, testPacket]\<rparr>"
        "[(testPacket, ?b), (testPacket, ?b)]" "[]" False] f testPacket_bytes
    by (simp add: numeral_2_eq_2)
qed

end
