(* ===== verification/ReadLoop.thy ===== *)
theory ReadLoop
  imports Send
begin

text \<open>
  The read loops \<open>clientReadLoop\<close> and \<open>serverReadLoop\<close> of \<open>protocol.go\<close>. The argument \<open>s\<close>
  holds the bytes the peer sends until the socket fails. A round of a loop reads one packet and
  then pushes it to the queue of its channel; the push blocks while the queue is full, so the
  packet is first held in \<open>cnReadPending\<close> and goes into the queue in a round of its own.
\<close>

section \<open>The loops\<close>

definition readDataFail :: "gerr \<Rightarrow> gerr" where
  "readDataFail e = TextErr (''read data fail, '' @ errorText e)"

definition failRead :: "gerr \<Rightarrow> 'q conn \<Rightarrow> byte list \<Rightarrow> 'q conn \<times> byte list" where
  "failRead e c s = ((Connection_Close (Some e) c)\<lparr>cnReadDone := True\<rparr>, s)"

definition receivedCount :: "packet \<Rightarrow> count" where
  "receivedCount pkt = zeroCount\<lparr>PacketReceived := 1,
     BytesReceived := word_of_nat (length (pktData pkt) + 1 + length (pktPath pkt) + 1 + 4 + 4)\<rparr>"

text \<open>
  The body of both loops: \<open>check\<close> is the status check, \<open>account\<close> the counting of a packet.
\<close>

definition readBody :: "(byte \<Rightarrow> byte \<Rightarrow> gerr option) \<Rightarrow>
    (nat \<Rightarrow> packet \<Rightarrow> 'q conn \<Rightarrow> 'q conn) \<Rightarrow> 'q conn \<Rightarrow> byte list \<Rightarrow> 'q conn \<times> byte list" where
  "readBody check account c s =
     (case ReadByte s of Inl e \<Rightarrow> failRead (readDataFail e) c s | Inr (status, s1) \<Rightarrow>
      if status = Status8 then failRead (TextErr ''connection closed by peer command'') c s1 else
      case ReadSlice 0 s1 of Inl e \<Rightarrow> failRead (readDataFail e) c s1 | Inr (path, s2) \<Rightarrow>
      case ReadUint32 s2 of Inl e \<Rightarrow> failRead (readDataFail e) c s2 | Inr (channelId, s3) \<Rightarrow>
      case getChannel channelId c of
        None \<Rightarrow> failRead (TextErr (''invalid channel id: '' @ showNat (unat channelId))) c s3
      | Some a \<Rightarrow>
      case check (chPacketStatus (chanAt c a)) status of Some e \<Rightarrow> failRead e c s3 | None \<Rightarrow>
      case ReadUint32 s3 of Inl e \<Rightarrow> failRead (readDataFail e) c s3 | Inr (dataLen, s4) \<Rightarrow>
      if dataLen > MaxPacketSize then
        failRead (TextErr ''read data len meta > max-packet-size'') c s4
      else if dataLen = 0 then failRead (TextErr ''invalid data len: 0'') c s4
      else
      case ReadFull (unat dataLen) s4 of Inl e \<Rightarrow> failRead e c s4 | Inr (data, s5) \<Rightarrow>
        let pkt = \<lparr>pktType = PacketTypeResponse, pktStatus = status,
                   pktPath = stringOf (butlast path), pktChannelId = channelId, pktData = data,
                   pktDontChunk = False, pktChannel = Some a, pktParams = None\<rparr>;
            c1 = account a pkt (updChan a (\<lambda>ch. ch\<lparr>chPacketStatus := status\<rparr>) c)
        in (c1\<lparr>cnReadPending := Some (a, pkt)\<rparr>, s5))"

text \<open>The push \<open>channel.receivedQueue <- pkt\<close>: it waits for room.\<close>

definition pushReceived :: "nat \<Rightarrow> packet \<Rightarrow> 'q conn \<Rightarrow> 'q conn" where
  "pushReceived a pkt c =
     (if length (chReceivedQueue (chanAt c a)) < chQueueCap (chanAt c a)
      then (updChan a (\<lambda>ch. ch\<lparr>chReceivedQueue := chReceivedQueue ch @ [pkt]\<rparr>) c)
             \<lparr>cnReadPending := None\<rparr>
      else c)"

text \<open>The client counts a packet on the channel, the connection and the client.\<close>

definition clientReadLoop :: "'q conn \<times> byte list \<Rightarrow> 'q conn \<times> byte list" where
  "clientReadLoop = (\<lambda>(c, s).
     if cnReadDone c then (c, s)
     else case cnReadPending c of
       Some (a, pkt) \<Rightarrow> (pushReceived a pkt c, s)
     | None \<Rightarrow>
         if Connection_Closed c then (c\<lparr>cnReadDone := True\<rparr>, s)
         else readBody CheckServerPacketStatus
                (\<lambda>a pkt. addCounts a (pktPath pkt) (receivedCount pkt)) c s)"

text \<open>The server counts it on the channel only.\<close>

definition serverReadLoop :: "'q conn \<times> byte list \<Rightarrow> 'q conn \<times> byte list" where
  "serverReadLoop = (\<lambda>(c, s).
     if cnReadDone c then (c, s)
     else case cnReadPending c of
       Some (a, pkt) \<Rightarrow> (pushReceived a pkt c, s)
     | None \<Rightarrow>
         if Connection_Closed c then (c\<lparr>cnReadDone := True\<rparr>, s)
         else if cnErr c \<noteq> None then (c\<lparr>cnReadDone := True\<rparr>, s)
         else readBody CheckClientPacketStatus
                (\<lambda>a pkt. updChan a (\<lambda>ch. ch\<lparr>chCount := Count_Add (chCount ch) (receivedCount pkt)\<rparr>))
                c s)"

section \<open>Reading a well-formed packet\<close>

text \<open>The packet as the reader makes it, for the channel at address \<open>a\<close>.\<close>

definition received :: "nat \<Rightarrow> packet \<Rightarrow> packet" where
  "received a pkt = (wireView pkt)\<lparr>pktChannel := Some a\<rparr>"

text \<open>What a reader accepts of one packet.\<close>

definition sendable :: "packet \<Rightarrow> bool" where
  "sendable pkt \<longleftrightarrow> pktStatus pkt \<noteq> Status8 \<and> pktPath pkt \<noteq> '''' \<and>
     length (pktPath pkt) \<le> unat MaxPathLen \<and> noNul pkt \<and>
     0 < length (pktData pkt) \<and> length (pktData pkt) \<le> unat MaxPacketSize"

definition encode :: "packet \<Rightarrow> byte list" where
  "encode pkt = (case CreateNetPacket pkt of Inr bs \<Rightarrow> bs | Inl _ \<Rightarrow> [])"

lemma CreateNetPacket_sendable: "sendable pkt \<Longrightarrow> CreateNetPacket pkt = Inr (encode pkt)"
  by (auto simp: sendable_def CreateNetPacket_def encode_def)

lemma readBody_packet:
  assumes "sendable pkt" "getChannel (pktChannelId pkt) c = Some a"
    "check (chPacketStatus (chanAt c a)) (pktStatus pkt) = None"
  shows "readBody check account c (encode pkt @ s) =
    ((account a (received a pkt) (updChan a (\<lambda>ch. ch\<lparr>chPacketStatus := pktStatus pkt\<rparr>) c))
       \<lparr>cnReadPending := Some (a, received a pkt)\<rparr>, s)"
proof -
  from assms(1) have len: "length (pktData pkt) \<le> 16777216" "pktData pkt \<noteq> []"
    and path: "length (pktPath pkt) \<le> 2048" "CHR 0x00 \<notin> set (pktPath pkt)"
      "pktPath pkt \<noteq> ''''" and st: "pktStatus pkt \<noteq> Status8"
    by (auto simp: sendable_def noNul_def)
  have enc: "encode pkt @ s = pktStatus pkt # bytesOf (pktPath pkt) @ 0 #
      putUint32 (pktChannelId pkt) @ putUint32 (word_of_nat (length (pktData pkt))) @ pktData pkt @ s"
    using CreateNetPacket_sendable [OF assms(1)] len path st
    by (auto simp: CreateNetPacket_def encode_def)
  have u: "unat (word_of_nat (length (pktData pkt)) :: u32) = length (pktData pkt)"
    using len(1) by (simp add: unat_of_nat take_bit_eq_mod)
  then have pos: "(word_of_nat (length (pktData pkt)) :: u32) \<noteq> 0" using len(2) by force
  have le: "\<not> (word_of_nat (length (pktData pkt)) :: u32) > MaxPacketSize"
    using len(1) u by (simp add: word_less_nat_alt size_defs)
  have slice: "ReadSlice 0 (bytesOf (pktPath pkt) @ 0 # t) = Inr (bytesOf (pktPath pkt) @ [0], t)"
    for t using path by (intro ReadSlice_delim) simp_all
  show ?thesis
    using assms(2,3) st pos le
    by (simp add: readBody_def enc slice wire_simps u Let_def received_def wireView_def)
qed

section \<open>The contract of a read loop\<close>

text \<open>
  The packets of a stream a loop will deliver, given the dictionary of the channels and the
  recent status of each: every packet is well-formed, names a channel and passes the check.
\<close>

fun deliverable :: "(byte \<Rightarrow> byte \<Rightarrow> gerr option) \<Rightarrow> (u32 \<Rightarrow> nat option) \<Rightarrow> (nat \<Rightarrow> byte) \<Rightarrow>
    packet list \<Rightarrow> bool" where
  "deliverable check get st [] = True"
| "deliverable check get st (p # ps) =
     (sendable p \<and>
      (case get (pktChannelId p) of
         None \<Rightarrow> False
       | Some a \<Rightarrow> check (st a) (pktStatus p) = None \<and>
                   deliverable check get (st(a := pktStatus p)) ps))"

lemma deliverable_cong:
  "\<forall>k b. get k = Some b \<longrightarrow> st b = st' b \<Longrightarrow>
    deliverable check get st ps = deliverable check get st' ps"
proof (induction ps arbitrary: st st')
  case (Cons p ps)
  show ?case
  proof (cases "get (pktChannelId p)")
    case (Some a)
    have "deliverable check get (st(a := x)) ps = deliverable check get (st'(a := x)) ps" for x
      by (rule Cons.IH) (use Cons.prems in auto)
    with Some Cons.prems show ?thesis by simp
  qed simp
qed simp

definition toChannel :: "(u32 \<Rightarrow> nat option) \<Rightarrow> nat \<Rightarrow> packet list \<Rightarrow> packet list" where
  "toChannel get a ps = filter (\<lambda>p. get (pktChannelId p) = Some a) ps"

definition hasRoom :: "'q conn \<Rightarrow> packet list \<Rightarrow> bool" where
  "hasRoom c ps \<longleftrightarrow> (\<forall>a < length (cnChans c).
     length (chReceivedQueue (chanAt c a)) + length (toChannel (\<lambda>k. getChannel k c) a ps)
       \<le> chQueueCap (chanAt c a))"

definition wellAddressed :: "'q conn \<Rightarrow> bool" where
  "wellAddressed c \<longleftrightarrow> (\<forall>k a. getChannel k c = Some a \<longrightarrow> a < length (cnChans c))"

locale read_loop =
  fixes loop :: "'q conn \<times> byte list \<Rightarrow> 'q conn \<times> byte list"
    and check :: "byte \<Rightarrow> byte \<Rightarrow> gerr option"
    and account :: "nat \<Rightarrow> packet \<Rightarrow> 'q conn \<Rightarrow> 'q conn"
    and ready :: "'q conn \<Rightarrow> bool"
  assumes loop_body: "ready c \<Longrightarrow> cnReadPending c = None \<Longrightarrow> loop (c, s) = readBody check account c s"
    and loop_push: "ready c \<Longrightarrow> cnReadPending c = Some (a, pkt) \<Longrightarrow> loop (c, s) = (pushReceived a pkt c, s)"
    and account_view: "readView (account a pkt c) = readView c"
    and account_core: "coreView (account a pkt c) = coreView c"
    and account_write: "writeView (account a pkt c) = writeView c"
    and ready_iff: "ready c \<longleftrightarrow> \<not> cnReadDone c \<and> \<not> cnClosedMark c \<and> cnErr c = None"
begin

lemma deliver_one:
  assumes r: "ready c" "cnReadPending c = None" and p: "sendable p"
    and g: "getChannel (pktChannelId p) c = Some a" and a: "a < length (cnChans c)"
    and st: "check (chPacketStatus (chanAt c a)) (pktStatus p) = None"
    and room: "length (chReceivedQueue (chanAt c a)) < chQueueCap (chanAt c a)"
  obtains c' where "(loop ^^ 2) (c, encode p @ s) = (c', s)" "ready c'" "cnReadPending c' = None"
    "idView c' = idView c" "\<And>k. getChannel k c' = getChannel k c"
    "length (cnChans c') = length (cnChans c)"
    "\<And>b. b < length (cnChans c) \<Longrightarrow> chQueueCap (chanAt c' b) = chQueueCap (chanAt c b)"
    "\<And>b. b < length (cnChans c) \<Longrightarrow> chPacketStatus (chanAt c' b) =
       (if b = a then pktStatus p else chPacketStatus (chanAt c b))"
    "\<And>b. b < length (cnChans c) \<Longrightarrow> chReceivedQueue (chanAt c' b) =
       chReceivedQueue (chanAt c b) @ (if b = a then [received a p] else [])"
    "coreView c' = coreView c" "writeView c' = writeView c"
proof -
  define c0 where "c0 = updChan a (\<lambda>ch. ch\<lparr>chPacketStatus := pktStatus p\<rparr>) c"
  define c1 where "c1 = account a (received a p) c0"
  define c2 where "c2 = c1\<lparr>cnReadPending := Some (a, received a p)\<rparr>"
  define c3 where "c3 = (updChan a (\<lambda>ch. ch\<lparr>chReceivedQueue := chReceivedQueue ch @ [received a p]\<rparr>) c2)
    \<lparr>cnReadPending := None\<rparr>"
  have v: "readView c1 = readView c0" by (simp add: c1_def account_view)
  note d = readView_D [OF v]
  have chan2: "chanAt c2 b = chanAt c1 b" for b by (simp add: c2_def chanAt_def)
  have one: "loop (c, encode p @ s) = (c2, s)"
    by (simp add: loop_body r readBody_packet [OF p g] st c2_def c1_def c0_def)
  have ready2: "ready c2" using r d by (simp add: ready_iff c2_def) (simp add: c0_def)
  have len: "length (cnChans c1) = length (cnChans c)" using d(6) by (simp add: c0_def)
  have chan0: "chanAt c0 b = (if a = b then (chanAt c b)\<lparr>chPacketStatus := pktStatus p\<rparr> else chanAt c b)"
    if "b < length (cnChans c)" for b using that by (simp add: c0_def chanAt_updChan)
  have len0: "length (cnChans c0) = length (cnChans c)" by (simp add: c0_def)
  have "length (chReceivedQueue (chanAt c2 a)) < chQueueCap (chanAt c2 a)"
    using d(9,10) [of a] chan0 [OF a] a room len0 by (simp add: chan2)
  then have "pushReceived a (received a p) c2 = c3" by (simp add: pushReceived_def c3_def)
  with loop_push [OF ready2, of a "received a p"] have two: "loop (c2, s) = (c3, s)"
    by (simp add: c2_def)
  have idv: "idView c3 = idView c1"
    by (simp add: idView_def c3_def c2_def updChan_def map_update_same)
  have idv0: "idView c0 = idView c"
    unfolding c0_def by (rule idView_updChan) simp
  have chan3: "chanAt c3 b = (if a = b then (chanAt c1 b)
      \<lparr>chReceivedQueue := chReceivedQueue (chanAt c1 b) @ [received a p]\<rparr> else chanAt c1 b)"
    if "b < length (cnChans c)" for b
    using that len by (simp add: c3_def c2_def chanAt_def updChan_def nth_list_update)
  show ?thesis
  proof
    have "coreView c3 = coreView (updChan a (\<lambda>ch. ch\<lparr>chReceivedQueue := chReceivedQueue ch @ [received a p]\<rparr>) c2)"
      by (simp add: c3_def coreView_def idView_def)
    also have "\<dots> = coreView c2" by (rule coreView_updChan) simp
    also have "\<dots> = coreView c1" by (simp add: c2_def coreView_def idView_def)
    also have "\<dots> = coreView c0" unfolding c1_def by (rule account_core)
    also have "\<dots> = coreView c" unfolding c0_def by (rule coreView_updChan) simp
    finally show "coreView c3 = coreView c" .
    have "writeView c3 = writeView c1" by (simp add: c3_def c2_def writeView_def)
    also have "\<dots> = writeView c0" unfolding c1_def by (rule account_write)
    finally show "writeView c3 = writeView c" by (simp add: c0_def)
    show "(loop ^^ 2) (c, encode p @ s) = (c3, s)" by (simp add: numeral_2_eq_2 one two)
    show "ready c3" using ready2 by (simp add: ready_iff c3_def)
    show "cnReadPending c3 = None" by (simp add: c3_def)
    show "idView c3 = idView c" using idv d(8) idv0 by simp
    show "getChannel k c3 = getChannel k c" for k
      using d(2) by (simp add: getChannel_def c3_def c2_def) (simp add: c0_def)
    show "length (cnChans c3) = length (cnChans c)" using len by (simp add: c3_def c2_def)
    show "chQueueCap (chanAt c3 b) = chQueueCap (chanAt c b)" if "b < length (cnChans c)" for b
      using that chan3 chan0 d(10) len0 by simp
    show "chPacketStatus (chanAt c3 b) = (if b = a then pktStatus p else chPacketStatus (chanAt c b))"
      if "b < length (cnChans c)" for b
      using that chan3 chan0 d(11) len0 by simp
    show "chReceivedQueue (chanAt c3 b) =
        chReceivedQueue (chanAt c b) @ (if b = a then [received a p] else [])"
      if "b < length (cnChans c)" for b
      using that chan3 chan0 d(9) len0 by simp
  qed
qed

end

context read_loop begin

lemma deliver_many:
  assumes "ready c" "cnReadPending c = None" "wellAddressed c" "hasRoom c ps"
    "deliverable check (\<lambda>k. getChannel k c) (\<lambda>a. chPacketStatus (chanAt c a)) ps"
  shows "\<exists>c'. (loop ^^ (2 * length ps)) (c, concat (map encode ps) @ s) = (c', s) \<and> ready c' \<and>
    cnReadPending c' = None \<and> idView c' = idView c \<and>
    coreView c' = coreView c \<and> writeView c' = writeView c \<and>
    (\<forall>a < length (cnChans c). chReceivedQueue (chanAt c' a) =
       chReceivedQueue (chanAt c a) @ map (received a) (toChannel (\<lambda>k. getChannel k c) a ps))"
  using assms
proof (induction ps arbitrary: c)
  case Nil
  then show ?case by (simp add: toChannel_def)
next
  case (Cons p ps)
  let ?get = "\<lambda>k. getChannel k c"
  from Cons.prems(5) obtain a where p: "sendable p" and g: "getChannel (pktChannelId p) c = Some a"
    and st: "check (chPacketStatus (chanAt c a)) (pktStatus p) = None"
    and more: "deliverable check ?get
      ((\<lambda>a. chPacketStatus (chanAt c a))(a := pktStatus p)) ps"
    by (auto split: option.splits)
  from Cons.prems(3) g have a: "a < length (cnChans c)" by (simp add: wellAddressed_def)
  have room: "length (chReceivedQueue (chanAt c b)) + length (toChannel ?get b (p # ps))
      \<le> chQueueCap (chanAt c b)" if "b < length (cnChans c)" for b
    using Cons.prems(4) that by (simp add: hasRoom_def)
  from room [OF a] g have "length (chReceivedQueue (chanAt c a)) < chQueueCap (chanAt c a)"
    by (simp add: toChannel_def)
  from deliver_one [OF Cons.prems(1,2) p g a st this, of "concat (map encode ps) @ s"]
  obtain c' where c': "(loop ^^ 2) (c, encode p @ concat (map encode ps) @ s) =
        (c', concat (map encode ps) @ s)" "ready c'" "cnReadPending c' = None"
      "idView c' = idView c" and get: "\<And>k. getChannel k c' = getChannel k c"
      and len: "length (cnChans c') = length (cnChans c)"
      and cap: "\<And>b. b < length (cnChans c) \<Longrightarrow> chQueueCap (chanAt c' b) = chQueueCap (chanAt c b)"
      and sta: "\<And>b. b < length (cnChans c) \<Longrightarrow> chPacketStatus (chanAt c' b) =
        (if b = a then pktStatus p else chPacketStatus (chanAt c b))"
      and que: "\<And>b. b < length (cnChans c) \<Longrightarrow> chReceivedQueue (chanAt c' b) =
        chReceivedQueue (chanAt c b) @ (if b = a then [received a p] else [])"
      and view: "coreView c' = coreView c" "writeView c' = writeView c" by metis
  have wa: "wellAddressed c'" using Cons.prems(3) by (simp add: wellAddressed_def get len)
  have "hasRoom c' ps"
    unfolding hasRoom_def
  proof (intro allI impI)
    fix b
    assume b: "b < length (cnChans c')"
    with room [of b] que [of b] cap [of b] g show "length (chReceivedQueue (chanAt c' b)) +
        length (toChannel (\<lambda>k. getChannel k c') b ps) \<le> chQueueCap (chanAt c' b)"
      by (auto simp: len get toChannel_def split: if_splits)
  qed
  moreover have "deliverable check (\<lambda>k. getChannel k c') (\<lambda>a. chPacketStatus (chanAt c' a)) ps"
    using deliverable_cong [of ?get "(\<lambda>a. chPacketStatus (chanAt c a))(a := pktStatus p)"
        "\<lambda>a. chPacketStatus (chanAt c' a)" check ps] more Cons.prems(3) sta
    by (simp add: get wellAddressed_def)
  ultimately obtain d where d: "(loop ^^ (2 * length ps)) (c', concat (map encode ps) @ s) = (d, s)"
      "ready d" "cnReadPending d = None" "idView d = idView c'"
      "coreView d = coreView c'" "writeView d = writeView c'"
      "\<forall>a < length (cnChans c'). chReceivedQueue (chanAt d a) =
       chReceivedQueue (chanAt c' a) @ map (received a) (toChannel (\<lambda>k. getChannel k c') a ps)"
    using Cons.IH [OF c'(2,3) wa] by blast
  have "2 * length (p # ps) = 2 * length ps + 2" by simp
  then have "(loop ^^ (2 * length (p # ps))) (c, concat (map encode (p # ps)) @ s) = (d, s)"
    by (simp only: funpow_add comp_apply concat.simps list.map append_assoc c'(1) d(1))
  with d c'(4) view show ?case using que g by (intro exI [of _ d]) (auto simp: len get toChannel_def)
qed

end

interpretation client_loop: read_loop clientReadLoop CheckServerPacketStatus
  "\<lambda>a pkt. addCounts a (pktPath pkt) (receivedCount pkt)"
  "\<lambda>c. \<not> cnReadDone c \<and> \<not> cnClosedMark c \<and> cnErr c = None"
  by unfold_locales (auto simp: clientReadLoop_def Connection_Closed_def)

interpretation server_loop: read_loop serverReadLoop CheckClientPacketStatus
  "\<lambda>a pkt. updChan a (\<lambda>ch. ch\<lparr>chCount := Count_Add (chCount ch) (receivedCount pkt)\<rparr>)"
  "\<lambda>c. \<not> cnReadDone c \<and> \<not> cnClosedMark c \<and> cnErr c = None"
  by unfold_locales (auto simp: serverReadLoop_def Connection_Closed_def intro: coreView_updChan)

section \<open>One round of a loop\<close>

lemma failRead_view [simp]:
  "cnReadPending (fst (failRead e c s)) = cnReadPending c" "cnReadDone (fst (failRead e c s))"
  "cnClosedMark (fst (failRead e c s))" "cnOwner (fst (failRead e c s)) = cnOwner c"
  "length (cnChans (fst (failRead e c s))) = length (cnChans c)"
  by (simp_all add: failRead_def)

lemma failRead_err: "\<not> cnClosedMark c \<Longrightarrow> cnErr (fst (failRead e c s)) = Some e"
  by (simp add: failRead_def Connection_Close_open orUnknown_def)

text \<open>The packet a round of the loop read, when it read one.\<close>

definition goodFrame :: "(byte \<Rightarrow> byte \<Rightarrow> gerr option) \<Rightarrow> 'q conn \<Rightarrow> byte list \<Rightarrow> nat \<Rightarrow> packet \<Rightarrow>
    byte list \<Rightarrow> bool" where
  "goodFrame check c s a pkt s' \<longleftrightarrow>
     decodePacket s = Inr (pkt\<lparr>pktChannel := None\<rparr>, s') \<and> pktChannel pkt = Some a \<and>
     getChannel (pktChannelId pkt) c = Some a \<and>
     check (chPacketStatus (chanAt c a)) (pktStatus pkt) = None \<and> pktStatus pkt \<noteq> Status8 \<and>
     0 < length (pktData pkt) \<and> length (pktData pkt) \<le> unat MaxPacketSize"

lemma readBody_cases:
  assumes "cnReadPending c = None"
  shows "(\<exists>a pkt s'. goodFrame check c s a pkt s' \<and>
      readBody check account c s =
        ((account a pkt (updChan a (\<lambda>ch. ch\<lparr>chPacketStatus := pktStatus pkt\<rparr>) c))
           \<lparr>cnReadPending := Some (a, pkt)\<rparr>, s')) \<or>
    (\<exists>e s'. readBody check account c s = failRead e c s')"
proof (cases "\<exists>e s'. readBody check account c s = failRead e c s'")
  case False
  then obtain status s1 path s2 cid s3 a len s4 dat s5 where
    r: "ReadByte s = Inr (status, s1)" "status \<noteq> Status8" "ReadSlice 0 s1 = Inr (path, s2)"
      "ReadUint32 s2 = Inr (cid, s3)" "getChannel cid c = Some a"
      "check (chPacketStatus (chanAt c a)) status = None" "ReadUint32 s3 = Inr (len, s4)"
      "\<not> len > MaxPacketSize" "len \<noteq> 0" "ReadFull (unat len) s4 = Inr (dat, s5)"
    unfolding readBody_def by (fastforce split: sum.splits option.splits if_splits prod.splits)
  let ?pkt = "\<lparr>pktType = PacketTypeResponse, pktStatus = status,
      pktPath = stringOf (butlast path), pktChannelId = cid, pktData = dat,
      pktDontChunk = False, pktChannel = Some a, pktParams = None\<rparr>"
  from r(10) have "length dat = unat len" by (simp add: ReadFull_Inr)
  moreover have "0 < unat len" using r(9) by (simp add: unat_gt_0)
  moreover have "unat len \<le> unat MaxPacketSize" using r(8) by (simp add: word_le_nat_alt not_less)
  ultimately have "goodFrame check c s a ?pkt s5"
    using r by (simp add: goodFrame_def decodePacket_def readPacketOf_def)
  moreover have "readBody check account c s =
        ((account a ?pkt (updChan a (\<lambda>ch. ch\<lparr>chPacketStatus := pktStatus ?pkt\<rparr>) c))
           \<lparr>cnReadPending := Some (a, ?pkt)\<rparr>, s5)"
    using r by (simp add: readBody_def Let_def)
  ultimately show ?thesis by blast
qed blast

context read_loop begin

lemma round_sound:
  assumes "ready c" "cnReadPending c = None" "wellAddressed c" "loop (c, s) = (c', s')"
  shows "(\<exists>a pkt. cnReadPending c' = Some (a, pkt) \<and> goodFrame check c s a pkt s' \<and>
      chPacketStatus (chanAt c' a) = pktStatus pkt \<and> \<not> cnClosedMark c') \<or>
    (cnReadPending c' = None \<and> cnReadDone c' \<and> cnClosedMark c' \<and> cnErr c' \<noteq> None)"
  using readBody_cases [of c check s account, OF assms(2)]
proof (elim disjE exE conjE)
  fix a pkt t
  assume f: "goodFrame check c s a pkt t" and e: "readBody check account c s =
        ((account a pkt (updChan a (\<lambda>ch. ch\<lparr>chPacketStatus := pktStatus pkt\<rparr>) c))
           \<lparr>cnReadPending := Some (a, pkt)\<rparr>, t)"
  let ?c1 = "updChan a (\<lambda>ch. ch\<lparr>chPacketStatus := pktStatus pkt\<rparr>) c"
  from f assms(3) have a: "a < length (cnChans c)" unfolding goodFrame_def wellAddressed_def by blast
  have "loop (c, s) = ((account a pkt ?c1)\<lparr>cnReadPending := Some (a, pkt)\<rparr>, t)"
    by (simp add: loop_body assms(1,2) e)
  with assms(4) have c': "c' = (account a pkt ?c1)\<lparr>cnReadPending := Some (a, pkt)\<rparr>" "s' = t"
    by auto
  note d = readView_D [OF account_view [of a pkt ?c1]]
  have "chPacketStatus (chanAt c' a) = chPacketStatus (chanAt (account a pkt ?c1) a)"
    by (simp add: c' chanAt_def)
  then have "chPacketStatus (chanAt c' a) = pktStatus pkt" using d(11) a by simp
  moreover have "\<not> cnClosedMark c'" using d(3) assms(1) by (simp add: c' ready_iff)
  ultimately show ?thesis using f c' by simp
next
  fix e t
  assume "readBody check account c s = failRead e c t"
  with assms loop_body have "failRead e c t = (c', s')" by simp
  then have "c' = fst (failRead e c t)" by simp
  with assms(1,2) show ?thesis by (simp add: failRead_err ready_iff)
qed

end

section \<open>Properties of the read loops\<close>

text \<open>C17: Every round of a read loop that starts idle on an open connection either reads exactly
  one packet, the one \<open>decodePacket\<close> decodes from the stream, for an open channel of the
  connection, with a status allowed after the last one of that channel and with 1 to
  \<open>MaxPacketSize\<close> bytes of data, or closes the connection with an error and ends the loop; no
  other bytes ever become a packet.\<close>

theorem read_round_sound:
  assumes "(loop, check) \<in> {(serverReadLoop, CheckClientPacketStatus),
      (clientReadLoop, CheckServerPacketStatus)}"
    and "\<not> cnReadDone c" "\<not> cnClosedMark c" "cnErr c = None" "cnReadPending c = None"
    and "wellAddressed c" and "loop (c, s) = (c', s')"
  shows "(\<exists>a pkt. cnReadPending c' = Some (a, pkt) \<and>
           decodePacket s = Inr (pkt\<lparr>pktChannel := None\<rparr>, s') \<and> pktChannel pkt = Some a \<and>
           getChannel (pktChannelId pkt) c = Some a \<and>
           check (chPacketStatus (chanAt c a)) (pktStatus pkt) = None \<and> pktStatus pkt \<noteq> Status8 \<and>
           0 < length (pktData pkt) \<and> length (pktData pkt) \<le> unat MaxPacketSize \<and>
           chPacketStatus (chanAt c' a) = pktStatus pkt \<and> \<not> cnClosedMark c') \<or>
         (cnReadPending c' = None \<and> cnReadDone c' \<and> cnClosedMark c' \<and> cnErr c' \<noteq> None)"
  using assms server_loop.round_sound [of c s c' s'] client_loop.round_sound [of c s c' s']
  by (fastforce simp: goodFrame_def)

lemma freshConn_addressed: "role = RoleClient \<or> role = RoleServer \<Longrightarrow> wellAddressed (freshConn role)"
  using NewConnection_Inr [OF freshConn_New] by (auto simp: wellAddressed_def getChannel_def)

theorem read_round_sound_witness:
  "\<exists>c' s'. serverReadLoop (freshConn RoleServer, [StatusC2, 0]) = (c', s') \<and>
     cnReadDone c' \<and> cnClosedMark c'"
proof -
  let ?c = "freshConn RoleServer"
  note f = NewConnection_Inr [OF freshConn_New [of RoleServer]]
  obtain c' s' where e: "serverReadLoop (?c, [StatusC2, 0]) = (c', s')" by fastforce
  have "decodePacket [StatusC2, 0] \<noteq> Inr (p, s')" for p by (auto simp: decodePacket_Inr putUint32_def)
  with read_round_sound [of serverReadLoop CheckClientPacketStatus ?c "[StatusC2, 0]" c' s']
    f e freshConn_addressed [of RoleServer]
  show ?thesis by auto
qed

text \<open>C18: Delivery: when the stream starts with the encodings of packets that name open channels
  and follow the status rules of each channel, the server's read loop puts every packet into the
  queue of its own channel, in the order of the stream, loses and invents none, stays open and
  leaves the rest of the stream unread (the queues having room for the packets).\<close>

theorem server_stream_delivery:
  assumes "\<not> cnReadDone c" "\<not> cnClosedMark c" "cnErr c = None" "cnReadPending c = None"
    and "wellAddressed c" and "hasRoom c ps"
    and "deliverable CheckClientPacketStatus (\<lambda>k. getChannel k c)
           (\<lambda>a. chPacketStatus (chanAt c a)) ps"
  shows "\<exists>c'. (serverReadLoop ^^ (2 * length ps)) (c, concat (map encode ps) @ s) = (c', s) \<and>
    \<not> cnClosedMark c' \<and> \<not> cnReadDone c' \<and> idView c' = idView c \<and>
    (\<forall>a < length (cnChans c). chReceivedQueue (chanAt c' a) = chReceivedQueue (chanAt c a) @
       map (received a) (filter (\<lambda>p. getChannel (pktChannelId p) c = Some a) ps))"
  using server_loop.deliver_many [of c ps s] assms unfolding toChannel_def by blast

lemma sendable_sample: "status \<noteq> Status8 \<Longrightarrow> sendable (samplePacket status cid b)"
  by (simp add: sendable_def samplePacket_def noNul_def)

theorem server_stream_delivery_witness:
  "\<exists>c'. (serverReadLoop ^^ 4) (freshConn RoleServer,
        encode (samplePacket StatusC0 0 7) @ encode (samplePacket StatusC3 0 8)) = (c', []) \<and>
     map pktData (chReceivedQueue (chanAt c' 0)) = [[7], [8]]"
proof -
  let ?c = "freshConn RoleServer"
  let ?ps = "[samplePacket StatusC0 0 7, samplePacket StatusC3 0 8]"
  note f = NewConnection_Inr [OF freshConn_New [of RoleServer]]
  have cap: "chQueueCap (chanAt ?c 0) = 100"
    using f by simp
  have "deliverable CheckClientPacketStatus (\<lambda>k. getChannel k ?c)
      (\<lambda>a. chPacketStatus (chanAt ?c a)) ?ps"
    using f sendable_sample [of StatusC0 0 7] sendable_sample [of StatusC3 0 8]
    by (simp add: getChannel_def samplePacket_def client_status_defs)
  moreover have "hasRoom ?c ?ps" using f cap by (auto simp: hasRoom_def toChannel_def getChannel_def)
  ultimately obtain c' where "(serverReadLoop ^^ 4) (?c, concat (map encode ?ps) @ []) = (c', [])"
    and "\<forall>a < length (cnChans ?c). chReceivedQueue (chanAt c' a) = chReceivedQueue (chanAt ?c a) @
       map (received a) (filter (\<lambda>p. getChannel (pktChannelId p) ?c = Some a) ?ps)"
    using server_stream_delivery [of ?c ?ps "[]"] f freshConn_addressed [of RoleServer] by auto
  with f show ?thesis
    by (intro exI [of _ c'])
      (simp add: getChannel_def received_def wireView_def samplePacket_def)
qed

text \<open>Delivery of responses: under the server's status rules the client's read loop puts every
  response packet of a stream into the queue of its own channel, in order, and stays open.\<close>

theorem client_stream_delivery:
  assumes "\<not> cnReadDone c" "\<not> cnClosedMark c" "cnErr c = None" "cnReadPending c = None"
    and "wellAddressed c" and "hasRoom c ps"
    and "deliverable CheckServerPacketStatus (\<lambda>k. getChannel k c)
           (\<lambda>a. chPacketStatus (chanAt c a)) ps"
  shows "\<exists>c'. (clientReadLoop ^^ (2 * length ps)) (c, concat (map encode ps) @ s) = (c', s) \<and>
    \<not> cnClosedMark c' \<and> \<not> cnReadDone c' \<and> idView c' = idView c \<and>
    (\<forall>a < length (cnChans c). chReceivedQueue (chanAt c' a) = chReceivedQueue (chanAt c a) @
       map (received a) (filter (\<lambda>p. getChannel (pktChannelId p) c = Some a) ps))"
  using client_loop.deliver_many [of c ps s] assms unfolding toChannel_def by blast

theorem client_stream_delivery_witness:
  "\<exists>c'. (clientReadLoop ^^ 2) (freshConn RoleClient, encode (samplePacket StatusS5 0 9)) = (c', []) \<and>
     map pktData (chReceivedQueue (chanAt c' 0)) = [[9]]"
proof -
  let ?c = "freshConn RoleClient"
  let ?ps = "[samplePacket StatusS5 0 9]"
  note f = NewConnection_Inr [OF freshConn_New [of RoleClient]]
  have cap: "chQueueCap (chanAt ?c 0) = 100"
    using f by simp
  have "deliverable CheckServerPacketStatus (\<lambda>k. getChannel k ?c)
      (\<lambda>a. chPacketStatus (chanAt ?c a)) ?ps"
    using f sendable_sample [of StatusS5 0 9]
    by (simp add: getChannel_def samplePacket_def server_status_defs)
  moreover have "hasRoom ?c ?ps" using f cap by (auto simp: hasRoom_def toChannel_def getChannel_def)
  ultimately obtain c' where "(clientReadLoop ^^ 2) (?c, concat (map encode ?ps) @ []) = (c', [])"
    and "\<forall>a < length (cnChans ?c). chReceivedQueue (chanAt c' a) = chReceivedQueue (chanAt ?c a) @
       map (received a) (filter (\<lambda>p. getChannel (pktChannelId p) ?c = Some a) ?ps)"
    using client_stream_delivery [of ?c ?ps "[]"] f freshConn_addressed [of RoleClient] by auto
  with f show ?thesis
    by (intro exI [of _ c'])
      (simp add: getChannel_def received_def wireView_def samplePacket_def)
qed

end
