(* ===== verification/Handle.thy ===== *)
theory Handle
  imports ReadLoop
begin

text \<open>
  The handlers of \<open>handle.go\<close>: the dictionaries of handlers by path, the responses the package
  itself produces, \<open>serverHandler.Handle\<close> and \<open>clientHandler.Handle\<close>. The handlers of the
  application are named by values of a type \<open>'h\<close>; what a call of one does, to return or to
  panic, is the parameter \<open>run\<close> of the operation that calls it. The parser of package net/url
  is the parameter \<open>parse\<close>.
\<close>

section \<open>JSON text of the package's responses\<close>

text \<open>
  \<open>encoding/json\<close> quotes a string: the two special characters, control characters and the
  characters special in HTML are escaped. Bytes from 128 on are copied (texts are UTF-8).
\<close>

definition hexDigit :: "nat \<Rightarrow> char" where
  "hexDigit n = (if n < 10 then char_of (48 + n) else char_of (87 + n))"

definition jsonChar :: "char \<Rightarrow> string" where
  "jsonChar c = (let n = (of_char c :: nat) in
     if c = CHR 0x22 \<or> c = CHR 0x5C then [CHR 0x5C, c]
     else if n = 10 then [CHR 0x5C, CHR ''n'']
     else if n = 13 then [CHR 0x5C, CHR ''r'']
     else if n = 9 then [CHR 0x5C, CHR ''t'']
     else if n < 32 \<or> c = CHR ''<'' \<or> c = CHR ''>'' \<or> c = CHR ''&'' then
       [CHR 0x5C, CHR ''u'', CHR ''0'', CHR ''0'', hexDigit (n div 16), hexDigit (n mod 16)]
     else [c])"

definition jsonString :: "string \<Rightarrow> string" where
  "jsonString s = CHR 0x22 # concat (map jsonChar s) @ [CHR 0x22]"

definition showInt :: "int \<Rightarrow> string" where
  "showInt i = (if i < 0 then CHR ''-'' # showNat (nat (- i)) else showNat (nat i))"

text \<open>The response structures, with the fields \<open>omitempty\<close> leaves out.\<close>

definition codeMessage :: "int \<Rightarrow> string \<Rightarrow> string \<Rightarrow> string" where
  "codeMessage code message tail =
     CHR ''{'' # jsonString ''code'' @ '':'' @ showInt code
       @ (if message = '''' then '''' else '','' @ jsonString ''message'' @ '':'' @ jsonString message)
       @ tail @ ''}''"

definition ResponseNewChannel :: "int \<Rightarrow> string \<Rightarrow> u32 \<Rightarrow> byte list" where
  "ResponseNewChannel code message channelId = bytesOf (codeMessage code message
     (if channelId = 0 then ''''
      else '','' @ jsonString ''channel_id'' @ '':'' @ showNat (unat channelId)))"

definition ResponseDeleteChannel :: "int \<Rightarrow> string \<Rightarrow> byte list" where
  "ResponseDeleteChannel code message = bytesOf (codeMessage code message '''')"

definition ResponseHandleFail_Data :: "int \<Rightarrow> string \<Rightarrow> byte list" where
  "ResponseHandleFail_Data code message = bytesOf (codeMessage code message '''')"

text \<open>\<open>ErrorResponse(err).Data()\<close>; it is called with the package's own errors only.\<close>

fun ErrorResponse :: "gerr \<Rightarrow> byte list" where
  "ErrorResponse (SysErr code message) = ResponseHandleFail_Data (int code) message"
| "ErrorResponse (TextErr message) = ResponseHandleFail_Data 0 message"

lemma responses_nonempty [simp]:
  "ResponseNewChannel code message cid \<noteq> []" "ResponseDeleteChannel code message \<noteq> []"
  "ResponseHandleFail_Data code message \<noteq> []" "ErrorResponse e \<noteq> []"
  by (cases e; simp add: ResponseNewChannel_def ResponseDeleteChannel_def
      ResponseHandleFail_Data_def codeMessage_def bytesOf_def)+

section \<open>The dictionaries of handlers\<close>

text \<open>Nil until first used.\<close>

type_synonym 'h handlers = "(string \<times> 'h) list option"

definition ensureMap :: "'h handlers \<Rightarrow> (string \<times> 'h) list" where
  "ensureMap m = (case m of None \<Rightarrow> [] | Some hm \<Rightarrow> hm)"

definition server_getHandler :: "'h handlers \<Rightarrow> string \<Rightarrow> 'h handlers \<times> 'h option" where
  "server_getHandler m path = (let hm = ensureMap m in (Some hm, map_of hm path))"

definition server_registerHandler ::
    "(string \<Rightarrow> gerr + 'u) \<Rightarrow> 'h handlers \<Rightarrow> string \<Rightarrow> 'h option \<Rightarrow> 'h handlers \<times> gerr option" where
  "server_registerHandler parse m path handler =
     (case handler of
        None \<Rightarrow> (m, Some (TextErr ''hander is nil''))
      | Some h \<Rightarrow>
          if length path > unat MaxPathLen then
            (m, Some (TextErr ''path is too large, must <= 2048''))
          else if \<not> ValidatePath parse path then (m, Some (TextErr ''invalid path''))
          else (Some (AList.update path h (ensureMap m)), None))"

definition server_unRegisterHandler :: "'h handlers \<Rightarrow> string \<Rightarrow> 'h handlers" where
  "server_unRegisterHandler m path = Some (AList.delete path (ensureMap m))"

definition client_getHandler :: "'h handlers \<Rightarrow> string \<Rightarrow> 'h handlers \<times> 'h option" where
  "client_getHandler m path = (let hm = ensureMap m in (Some hm, map_of hm path))"

definition client_registerHandler ::
    "(string \<Rightarrow> gerr + 'u) \<Rightarrow> 'h handlers \<Rightarrow> string \<Rightarrow> 'h option \<Rightarrow> 'h handlers \<times> gerr option" where
  "client_registerHandler parse m path handler =
     (case handler of
        None \<Rightarrow> (m, Some (TextErr ''hander is nil''))
      | Some h \<Rightarrow>
          if length path > unat MaxPathLen then
            (m, Some (TextErr ''path is too large, must <= 2048''))
          else if \<not> ValidatePath parse path then (m, Some (TextErr ''invalid path''))
          else (Some (AList.update path h (ensureMap m)), None))"

definition client_unRegisterHandler :: "'h handlers \<Rightarrow> string \<Rightarrow> 'h handlers" where
  "client_unRegisterHandler m path = Some (AList.delete path (ensureMap m))"

text \<open>The contract both dictionaries meet.\<close>

locale handler_registry =
  fixes get :: "'m \<Rightarrow> string \<Rightarrow> 'm \<times> 'h option"
    and reg :: "(string \<Rightarrow> gerr + 'u) \<Rightarrow> 'm \<Rightarrow> string \<Rightarrow> 'h option \<Rightarrow> 'm \<times> gerr option"
    and unreg :: "'m \<Rightarrow> string \<Rightarrow> 'm"
    and fresh :: 'm
  assumes get_fresh: "snd (get fresh p) = None"
    and get_get: "snd (get (fst (get m q)) p) = snd (get m p)"
    and reg_error: "snd (reg parse m q h) = None \<longleftrightarrow>
      h \<noteq> None \<and> length q \<le> unat MaxPathLen \<and> ValidatePath parse q"
    and get_reg: "snd (get (fst (reg parse m q h)) p) =
      (if p = q \<and> snd (reg parse m q h) = None then h else snd (get m p))"
    and get_unreg: "snd (get (unreg m q) p) = (if p = q then None else snd (get m p))"
begin

lemma refused_unchanged: "snd (reg parse m q h) \<noteq> None \<Longrightarrow> snd (get (fst (reg parse m q h)) p) = snd (get m p)"
  by (auto simp: get_reg)

lemma last_registration_wins:
  assumes "snd (reg parse m q h) = None" "snd (reg parse (fst (reg parse m q h)) q h') = None"
  shows "snd (get (fst (reg parse (fst (reg parse m q h)) q h')) p) =
    snd (get (fst (reg parse m q h')) p)"
proof -
  have "snd (reg parse m q h') = None" using assms by (simp add: reg_error)
  with assms show ?thesis by (simp add: get_reg)
qed

lemma unreg_reg: "snd (get (unreg (fst (reg parse m q h)) q) p) = snd (get (unreg m q) p)"
  by (simp add: get_reg get_unreg)

end

interpretation server_registry: handler_registry server_getHandler server_registerHandler
  server_unRegisterHandler None
  by unfold_locales (auto simp: server_getHandler_def server_registerHandler_def
      server_unRegisterHandler_def ensureMap_def update_conv delete_conv split: option.splits)

interpretation client_registry: handler_registry client_getHandler client_registerHandler
  client_unRegisterHandler None
  by unfold_locales (auto simp: client_getHandler_def client_registerHandler_def
      client_unRegisterHandler_def ensureMap_def update_conv delete_conv split: option.splits)

section \<open>Handling a packet\<close>

text \<open>A call of an application's handler returns or panics.\<close>

datatype 'r outcome = Returned 'r | Panicked

type_synonym 'h serverRun =
  "'h \<Rightarrow> string \<Rightarrow> url_values \<Rightarrow> byte list \<Rightarrow> bool \<Rightarrow> (byte list \<times> gerr option) outcome"
type_synonym 'h clientRun =
  "'h \<Rightarrow> string \<Rightarrow> nat \<Rightarrow> byte list \<Rightarrow> bool \<Rightarrow> gerr option outcome"

text \<open>
  \<open>serverHandler.Handle\<close>. The result: the connection, the dictionary, the request with its path
  parsed, and the pair the method returns. \<open>pick\<close> is the choice of \<open>makeNewChannelId\<close>.
\<close>

definition serverHandle ::
    "(string \<Rightarrow> gerr + string \<times> url_values) \<Rightarrow> 'h serverRun \<Rightarrow> nat \<Rightarrow> 'h handlers \<Rightarrow> packet \<Rightarrow> bool \<Rightarrow>
     'q conn \<Rightarrow> 'q conn \<times> 'h handlers \<times> packet \<times> byte list \<times> gerr option" where
  "serverHandle parse run pick m request dataCompleted c =
     (case pktChannel request of
        None \<Rightarrow> (c, m, request, [], Some (TextErr ''invalid request''))
      | Some a \<Rightarrow>
     if pktPath request = '''' then (c, m, request, [], Some (TextErr ''invalid request''))
     else let request = parsePath parse request in
     if pktPath request = PathNewChannel then
       let (c1, b) = newChannel pick False 100 [] [] None c
       in (c1, m, request, ResponseNewChannel 0 '''' (chId (chanAt c1 b)), None)
     else if pktPath request = PathDeleteChannel then
       (Channel_Close a (Some (TextErr ''close by peer command'')) c, m, request,
        ResponseDeleteChannel 0 '''', None)
     else case server_getHandler m (pktPath request) of
       (m1, None) \<Rightarrow> (c, m1, request, [], Some ErrResponseHandlerNotImplement)
     | (m1, Some h) \<Rightarrow>
         (case run h (pktPath request) (case pktParams request of None \<Rightarrow> [] | Some vs \<Rightarrow> vs)
                 (pktData request) dataCompleted of
            Panicked \<Rightarrow> (c, m1, request, [], None)
          | Returned (ret, None) \<Rightarrow> (c, m1, request, ret, None)
          | Returned (ret, Some e) \<Rightarrow>
              (c, m1, request,
               ResponseHandleFail_Data (-1) (''handler fail:'' @ errorText e), None)))"

text \<open>
  \<open>clientHandler.Handle\<close>: \<open>a\<close> is the channel the loop runs for; the request the response
  belongs to is in its context. A missing request makes the conversion panic.
\<close>

definition clientHandle ::
    "'h clientRun \<Rightarrow> 'h handlers \<Rightarrow> nat \<Rightarrow> packet \<Rightarrow> bool \<Rightarrow> 'q conn \<Rightarrow>
     'q conn \<times> 'h handlers \<times> byte list \<times> gerr option" where
  "clientHandle run m a response dataCompleted c =
     (case pktChannel response of
        None \<Rightarrow> (c, m, [], Some (TextErr ''invalid response''))
      | Some b \<Rightarrow>
     if pktPath response = '''' then (c, m, [], Some (TextErr ''invalid response''))
     else if pktPath response = PathDeleteChannel then
       (Channel_Close b (Some (TextErr ''close by peer command'')) c, m,
        ResponseDeleteChannel 0 '''', None)
     else case client_getHandler m (pktPath response) of
       (m1, None) \<Rightarrow> (c, m1, [], None)
     | (m1, Some h) \<Rightarrow>
         (case GetCtxData (chCtx (chanAt c a)) CtxRequest of
            Some (CvRequest r) \<Rightarrow>
              (case run h (pktPath response) r (pktData response) dataCompleted of
                 Panicked \<Rightarrow> (c, m1, [], None)
               | Returned e \<Rightarrow> (c, m1, [], e))
          | _ \<Rightarrow> (c, m1, [], None)))"

end
