(* ===== verification/ServerLoop.thy ===== *)
theory ServerLoop
  imports Handle
begin

text \<open>
  The goroutine \<open>handleServerLoop\<close> of \<open>protocol.go\<close>: it takes the packets of one channel from
  the queue, merges the packets of a request, calls the handler for each and answers. A round is
  one of the cases of its select. The states it shares are the connection and the dictionary of
  handlers; what it owns, the packet being merged and whether it has ended, is in the channel.
\<close>

datatype loopCase = Ticked | Notified | Received

definition cntWholeReceived :: count where
  "cntWholeReceived = zeroCount\<lparr>WholePacketReceived := 1\<rparr>"

text \<open>Merging a packet into the one of the previous rounds.\<close>

definition mergePacket :: "packet option \<Rightarrow> packet \<Rightarrow> packet" where
  "mergePacket whole pkt =
     (case whole of None \<Rightarrow> pkt
      | Some w \<Rightarrow> w\<lparr>pktData := pktData w @ pktData pkt, pktStatus := pktStatus pkt\<rparr>)"

text \<open>The error the loop reports for the result of the handler.\<close>

definition serverError :: "bool \<Rightarrow> byte list \<Rightarrow> gerr option \<Rightarrow> gerr option" where
  "serverError completed ret err =
     (if completed then
        (if err \<noteq> None then Some ErrHandleError
         else if length ret = 0 then Some ErrHandleNoResponse else None)
      else (if err \<noteq> None then Some ErrHandleError else None))"

text \<open>A response is sent when there are data or an error.\<close>

definition serverRespond :: "(nat \<Rightarrow> 'q conn \<Rightarrow> 'q conn) \<Rightarrow> nat \<Rightarrow> packet \<Rightarrow> gerr option \<Rightarrow>
    byte list \<Rightarrow> 'q conn \<Rightarrow> 'q conn" where
  "serverRespond env a pkt err ret c =
     (if (err = None \<and> length ret > 0) \<or> err \<noteq> None then
        let retPkt = \<lparr>pktType = PacketTypeResponse, pktStatus = 0, pktPath = pktPath pkt,
              pktChannelId = pktChannelId pkt,
              pktData = (case err of None \<Rightarrow> ret | Some e \<Rightarrow> ErrorResponse e),
              pktDontChunk = False, pktChannel = Some a, pktParams = None\<rparr>
        in fst (SendPacket env a retPkt c)
      else c)"

text \<open>
  The case of a received packet. \<open>dur\<close> is the duration of the handler's call. A first packet is
  itself the packet being merged, so the parsed path is seen through both names.
\<close>

definition serverReceive ::
    "(string \<Rightarrow> gerr + string \<times> url_values) \<Rightarrow> 'h serverRun \<Rightarrow> nat \<Rightarrow> i64 \<Rightarrow>
     (nat \<Rightarrow> 'q conn \<Rightarrow> 'q conn) \<Rightarrow> nat \<Rightarrow> packet \<Rightarrow> 'q conn \<times> 'h handlers \<Rightarrow> 'q conn \<times> 'h handlers" where
  "serverReceive parse run pick dur env a pkt = (\<lambda>(c, m).
     let whole = mergePacket (chWhole (chanAt c a)) pkt;
         (c1, m1, whole1, ret, err) =
           serverHandle parse run pick m whole (isClientStatusCompleted (pktStatus whole)) c;
         pkt1 = (if chWhole (chanAt c a) = None then whole1 else pkt);
         c2 = updOwner (Server_AddMeasure (pktPath pkt1) 1 dur) c1;
         err1 = serverError (isClientStatusCompleted (pktStatus whole1)) ret err;
         c3 = serverRespond env a pkt1 err1 ret c2
     in if isClientStatusCompleted (pktStatus pkt1)
        then (addCounts a (pktPath pkt1) cntWholeReceived
                (updChan a (\<lambda>ch. ch\<lparr>chWhole := None\<rparr>) c3), m1)
        else (updChan a (\<lambda>ch. ch\<lparr>chWhole := Some whole1\<rparr>) c3, m1))"

definition handleServerLoop ::
    "(string \<Rightarrow> gerr + string \<times> url_values) \<Rightarrow> 'h serverRun \<Rightarrow> nat \<Rightarrow> i64 \<Rightarrow>
     (nat \<Rightarrow> 'q conn \<Rightarrow> 'q conn) \<Rightarrow> nat \<Rightarrow> loopCase \<Rightarrow> 'q conn \<times> 'h handlers \<Rightarrow>
     'q conn \<times> 'h handlers" where
  "handleServerLoop parse run pick dur env a ev = (\<lambda>(c, m).
     if chLoopDone (chanAt c a) then (c, m)
     else case ev of
       Ticked \<Rightarrow>
         (if Connection_Closed c then updChan a (\<lambda>ch. ch\<lparr>chLoopDone := True\<rparr>) c else c, m)
     | Notified \<Rightarrow>
         (if chNotifyClosed (chanAt c a) then updChan a (\<lambda>ch. ch\<lparr>chLoopDone := True\<rparr>) c else c, m)
     | Received \<Rightarrow>
         (case chReceivedQueue (chanAt c a) of
            [] \<Rightarrow> (c, m)
          | pkt # rest \<Rightarrow>
              let c0 = updChan a (\<lambda>ch. ch\<lparr>chReceivedQueue := rest\<rparr>) c
              in if pktStatus pkt = Status8 then
                   (updChan a (\<lambda>ch. ch\<lparr>chLoopDone := True\<rparr>)
                      (Channel_Close a (Some (TextErr ''closed by peer command'')) c0), m)
                 else serverReceive parse run pick dur env a pkt (c0, m)))"

section \<open>What the loop answers\<close>

text \<open>
  The contract of a round: the answer to the request data received so far, if any. \<open>completed\<close>
  tells whether the data are the whole request.
\<close>

definition answer :: "'h serverRun \<Rightarrow> 'h handlers \<Rightarrow> string \<Rightarrow> url_values \<Rightarrow> byte list \<Rightarrow> bool \<Rightarrow>
    byte list option" where
  "answer run m path params data completed =
     (case map_of (ensureMap m) path of
        None \<Rightarrow> Some (ErrorResponse ErrHandleError)
      | Some h \<Rightarrow>
          (case run h path params data completed of
             Returned (ret, Some e) \<Rightarrow>
               Some (ResponseHandleFail_Data (-1) (''handler fail:'' @ errorText e))
           | Returned (ret, None) \<Rightarrow>
               if ret \<noteq> [] then Some ret
               else if completed then Some (ErrorResponse ErrHandleNoResponse) else None
           | Panicked \<Rightarrow> if completed then Some (ErrorResponse ErrHandleNoResponse) else None))"

definition responsePacket :: "nat \<Rightarrow> string \<Rightarrow> u32 \<Rightarrow> byte list \<Rightarrow> packet" where
  "responsePacket a path cid d = \<lparr>pktType = PacketTypeResponse, pktStatus = StatusS5,
     pktPath = path, pktChannelId = cid, pktData = d, pktDontChunk = False,
     pktChannel = Some a, pktParams = None\<rparr>"

text \<open>The part of a state a round of the loop leaves as it is.\<close>

definition steady where
  "steady a c = (cnRole c, cnClosedMark c, cnErr c, cnWriteCap c, cnOut c, cnWriteDone c,
     cnNotifyClosed c, cnReadDone c, cnReadPending c, length (cnChans c), chErr (chanAt c a), chId (chanAt c a),
     chReceivedQueue (chanAt c a), chLoopDone (chanAt c a), idView c, readView c)"

lemma steady_updOwner [simp]: "steady a (updOwner f c) = steady a c"
  by (simp add: steady_def updOwner_def chanAt_def idView_def readView_def)

lemma steady_queue [simp]: "steady a (c\<lparr>cnWriteQueue := q\<rparr>) = steady a c"
  by (simp add: steady_def chanAt_def idView_def readView_def)

lemma steady_updChan:
  assumes "\<And>ch. chErr (f ch) = chErr ch \<and> chId (f ch) = chId ch \<and>
      chReceivedQueue (f ch) = chReceivedQueue ch \<and>
      chLoopDone (f ch) = chLoopDone ch \<and> chClosedMark (f ch) = chClosedMark ch \<and>
      chQueueCap (f ch) = chQueueCap ch \<and> chPacketStatus (f ch) = chPacketStatus ch"
  shows "steady a (updChan b f c) = steady a c"
proof -
  have "idView (updChan b f c) = idView c" by (rule idView_updChan) (simp add: assms)
  moreover have "readView (updChan b f c) = readView c" by (rule readView_updChan) (simp add: assms)
  moreover have "chErr (chanAt (updChan b f c) a) = chErr (chanAt c a) \<and>
      chId (chanAt (updChan b f c) a) = chId (chanAt c a) \<and>
      chReceivedQueue (chanAt (updChan b f c) a) = chReceivedQueue (chanAt c a) \<and>
      chLoopDone (chanAt (updChan b f c) a) = chLoopDone (chanAt c a)"
  proof (cases "a = b \<and> a < length (cnChans c)")
    case True
    then have "chanAt (updChan b f c) a = f (chanAt c a)" by simp
    with assms [of "chanAt c a"] show ?thesis by simp
  next
    case False
    then have "chanAt (updChan b f c) a = chanAt c a"
      by (cases "a = b") (simp_all add: chanAt_def updChan_def list_update_beyond)
    then show ?thesis by simp
  qed
  ultimately show ?thesis by (simp add: steady_def)
qed

lemma steady_addCounts [simp]: "steady a (addCounts b p k c) = steady a c"
proof -
  have "steady a (addCounts b p k c) =
      steady a (updChan b (\<lambda>ch. ch\<lparr>chCount := Count_Add (chCount ch) k\<rparr>) c)"
    by (simp add: addCounts_def) (simp add: steady_def chanAt_def idView_def readView_def)
  also have "\<dots> = steady a c" by (rule steady_updChan) simp
  finally show ?thesis .
qed

lemma SendPacket_response:
  assumes "chErr (chanAt c a) = None" "\<not> cnClosedMark c" "cnRole c = RoleServer"
    "length d \<le> unat MaxPacketSize"
  shows "\<exists>c'. SendPacket alone a ((responsePacket b path cid d)\<lparr>pktStatus := 0\<rparr>) c = (c', None) \<and>
    (\<forall>e. steady e c' = steady e c) \<and> cnWriteQueue c' = cnWriteQueue c @
      (if length (cnWriteQueue c) < cnWriteCap c then [responsePacket b path cid d] else []) \<and>
    map chWhole (cnChans c') = map chWhole (cnChans c)"
  using assms
proof -
  let ?c1 = "fst (packetToSendQueue (alone 0) (responsePacket b path cid d) c)"
  let ?c' = "addCounts a path cntBothSent ?c1"
  have "SendPacket alone a ((responsePacket b path cid d)\<lparr>pktStatus := 0\<rparr>) c = (?c', None)"
    using assms
    by (simp add: SendPacket_def sendPacket_def Connection_Closed_def responsePacket_def
        status_defs role_defs)
  moreover have "steady e ?c1 = steady e c" for e
    by (simp add: packetToSendQueue_def Let_def alone_def)
  moreover have "map chWhole (cnChans ?c') = map chWhole (cnChans c)"
    by (simp add: addCounts_def updOwner_def updChan_def map_update_same)
  ultimately show ?thesis by (intro exI [of _ ?c']) (simp add: packetToSendQueue_queue)
qed

text \<open>A channel the loop can answer on.\<close>

definition answerable :: "nat \<Rightarrow> 'q conn \<Rightarrow> bool" where
  "answerable a c \<longleftrightarrow> a < length (cnChans c) \<and> chErr (chanAt c a) = None \<and>
     \<not> cnClosedMark c \<and> cnRole c = RoleServer"

lemma answerable_steady: "steady a c' = steady a c \<Longrightarrow> answerable a c' = answerable a c"
  by (auto simp: answerable_def steady_def)

lemma chWhole_list:
  assumes "map chWhole (cnChans c') = map chWhole (cnChans c)" "a < length (cnChans c)"
  shows "chWhole (chanAt c' a) = chWhole (chanAt c a)"
proof -
  have "length (cnChans c') = length (cnChans c)" by (rule map_eq_imp_length_eq [OF assms(1)])
  with arg_cong [OF assms(1), of "\<lambda>l. l ! a"] assms(2) show ?thesis by (simp add: chanAt_def)
qed

definition isUserPath :: "string \<Rightarrow> bool" where
  "isUserPath path \<longleftrightarrow> path \<noteq> '''' \<and> path \<noteq> PathNewChannel \<and> path \<noteq> PathDeleteChannel"

text \<open>The result and error of the handler against the answer.\<close>

lemma serverHandle_user:
  assumes "pktChannel w = Some b" "pktPath w \<noteq> ''''"
    "pktPath (parsePath parse w) \<noteq> PathNewChannel" "pktPath (parsePath parse w) \<noteq> PathDeleteChannel"
  shows "\<exists>m1 ret err. serverHandle parse run pick m w completed c = (c, m1, parsePath parse w, ret, err) \<and>
    ensureMap m1 = ensureMap m \<and>
    answer run m (pktPath (parsePath parse w))
      (case pktParams (parsePath parse w) of None \<Rightarrow> [] | Some vs \<Rightarrow> vs) (pktData w) completed =
    (case serverError completed ret err of
       Some e \<Rightarrow> Some (ErrorResponse e)
     | None \<Rightarrow> if ret = [] then None else Some ret)"
proof -
  let ?w = "parsePath parse w"
  let ?params = "case pktParams ?w of None \<Rightarrow> [] | Some vs \<Rightarrow> vs"
  let ?run = "\<lambda>h. run h (pktPath ?w) ?params (pktData w) completed"
  have e: "serverHandle parse run pick m w completed c =
      (case map_of (ensureMap m) (pktPath ?w) of
         None \<Rightarrow> (c, Some (ensureMap m), ?w, [], Some ErrResponseHandlerNotImplement)
       | Some h \<Rightarrow> (case ?run h of
            Panicked \<Rightarrow> (c, Some (ensureMap m), ?w, [], None)
          | Returned (ret, None) \<Rightarrow> (c, Some (ensureMap m), ?w, ret, None)
          | Returned (ret, Some e) \<Rightarrow> (c, Some (ensureMap m), ?w,
               ResponseHandleFail_Data (-1) (''handler fail:'' @ errorText e), None)))"
    using assms by (simp add: serverHandle_def server_getHandler_def Let_def split: option.split)
  have m: "ensureMap (Some (ensureMap m)) = ensureMap m" by (simp add: ensureMap_def)
  show ?thesis
  proof (cases "map_of (ensureMap m) (pktPath ?w)")
    case None
    then show ?thesis by (simp add: e m answer_def serverError_def)
  next
    case (Some h)
    show ?thesis
    proof (cases "?run h")
      case Panicked
      with Some show ?thesis by (simp add: e m answer_def serverError_def)
    next
      case (Returned r)
      then obtain ret err where "?run h = Returned (ret, err)" by (cases r) blast
      with Some show ?thesis
        by (cases err) (simp_all add: e m answer_def serverError_def)
    qed
  qed
qed

lemma serverRespond_eq:
  "serverRespond env a pkt err ret c =
    (case (case err of Some e \<Rightarrow> Some (ErrorResponse e)
           | None \<Rightarrow> if ret = [] then None else Some ret) of
       None \<Rightarrow> c
     | Some d \<Rightarrow> fst (SendPacket env a
         ((responsePacket a (pktPath pkt) (pktChannelId pkt) d)\<lparr>pktStatus := 0\<rparr>) c))"
proof (cases err)
  case None
  then show ?thesis by (cases ret) (simp_all add: serverRespond_def responsePacket_def)
next
  case (Some e)
  then show ?thesis by (simp add: serverRespond_def responsePacket_def)
qed

lemma serverReceive_user:
  assumes ok: "answerable a c"
    and w: "whole = parsePath parse (mergePacket (chWhole (chanAt c a)) pkt)"
    and ch: "pktChannel whole = Some b"
    and path: "pktPath (mergePacket (chWhole (chanAt c a)) pkt) \<noteq> ''''"
      "pktPath whole \<noteq> PathNewChannel" "pktPath whole \<noteq> PathDeleteChannel"
    and ans: "ans = answer run m (pktPath whole)
      (case pktParams whole of None \<Rightarrow> [] | Some vs \<Rightarrow> vs) (pktData whole)
      (isClientStatusCompleted (pktStatus pkt))"
    and small: "\<forall>d. ans = Some d \<longrightarrow> length d \<le> unat MaxPacketSize"
  shows "\<exists>c' m'. serverReceive parse run pick dur alone a pkt (c, m) = (c', m') \<and>
    ensureMap m' = ensureMap m \<and> steady a c' = steady a c \<and>
    cnWriteQueue c' = cnWriteQueue c @ (case ans of None \<Rightarrow> []
      | Some d \<Rightarrow> if length (cnWriteQueue c) < cnWriteCap c
          then [responsePacket a (pktPath (if chWhole (chanAt c a) = None then whole else pkt))
                  (pktChannelId pkt) d]
          else []) \<and>
    chWhole (chanAt c' a) = (if isClientStatusCompleted (pktStatus pkt) then None else Some whole)"
proof -
  let ?w = "mergePacket (chWhole (chanAt c a)) pkt"
  let ?done = "isClientStatusCompleted (pktStatus pkt)"
  let ?pkt1 = "if chWhole (chanAt c a) = None then whole else pkt"
  have st: "pktStatus ?w = pktStatus pkt" by (simp add: mergePacket_def split: option.splits)
  have chw: "pktChannel ?w = Some b" using ch by (simp add: w)
  from serverHandle_user [OF chw path(1), of parse run pick m ?done c] path(2,3)
  obtain m1 ret err where h: "serverHandle parse run pick m ?w ?done c = (c, m1, whole, ret, err)"
    and m1: "ensureMap m1 = ensureMap m"
    and a: "ans = (case serverError ?done ret err of
       Some e \<Rightarrow> Some (ErrorResponse e)
     | None \<Rightarrow> if ret = [] then None else Some ret)"
    by (auto simp: w ans)
  have st1: "pktStatus whole = pktStatus pkt" "pktStatus ?pkt1 = pktStatus pkt"
    "pktChannelId ?pkt1 = pktChannelId pkt"
    using st by (simp_all add: w mergePacket_def)
  define c2 where "c2 = updOwner (Server_AddMeasure (pktPath ?pkt1) 1 dur) c"
  have c2: "steady a c2 = steady a c" "cnWriteQueue c2 = cnWriteQueue c" "cnChans c2 = cnChans c"
    by (simp_all add: c2_def) (simp_all add: updOwner_def)
  define c3 where "c3 = (case ans of None \<Rightarrow> c2
      | Some d \<Rightarrow> fst (SendPacket alone a
          ((responsePacket a (pktPath ?pkt1) (pktChannelId pkt) d)\<lparr>pktStatus := 0\<rparr>) c2))"
  define c4 where "c4 = updChan a (\<lambda>ch. ch\<lparr>chWhole := (if ?done then None else Some whole)\<rparr>) c3"
  have resp: "serverRespond alone a ?pkt1 (serverError ?done ret err) ret c2 = c3"
    unfolding serverRespond_eq c3_def a st1(3) by (rule refl)
  have recv: "serverReceive parse run pick dur alone a pkt (c, m) =
      (if ?done then addCounts a (pktPath ?pkt1) cntWholeReceived c4 else c4, m1)"
    unfolding serverReceive_def Let_def prod.case st h st1 c2_def [symmetric] resp c4_def by simp
  have c3: "steady a c3 = steady a c \<and> cnWriteQueue c3 = cnWriteQueue c @ (case ans of None \<Rightarrow> []
      | Some d \<Rightarrow> if length (cnWriteQueue c) < cnWriteCap c
          then [responsePacket a (pktPath ?pkt1) (pktChannelId pkt) d] else [])"
  proof (cases ans)
    case (Some d)
    have "answerable a c2" using ok answerable_steady [OF c2(1)] by simp
    moreover have "cnWriteCap c2 = cnWriteCap c" using c2(1) by (simp add: steady_def)
    ultimately show ?thesis
      using SendPacket_response [of c2 a d a "pktPath ?pkt1" "pktChannelId pkt"] c2 small Some
      by (auto simp: c3_def answerable_def)
  qed (use c2 in \<open>simp add: c3_def\<close>)
  have c4: "steady a c4 = steady a c" "cnWriteQueue c4 = cnWriteQueue c3"
    using c3 by (simp_all add: c4_def steady_updChan)
  have "a < length (cnChans c3)" using ok c3 by (simp add: answerable_def steady_def)
  then have wh: "chWhole (chanAt c4 a) = (if ?done then None else Some whole)"
    by (simp add: c4_def)
  have "a < length (cnChans c4)" using \<open>a < length (cnChans c3)\<close> by (simp add: c4_def)
  then show ?thesis
    unfolding recv using m1 c4 c3 wh by (auto simp: chanAt_addCounts)
qed

section \<open>Whole requests\<close>

lemma handleServerLoop_Received:
  assumes "\<not> chLoopDone (chanAt c a)" "chReceivedQueue (chanAt c a) = pkt # rest"
    "pktStatus pkt \<noteq> Status8"
  shows "handleServerLoop parse run pick dur env a Received (c, m) =
    serverReceive parse run pick dur env a pkt (updChan a (\<lambda>ch. ch\<lparr>chReceivedQueue := rest\<rparr>) c, m)"
  using assms by (simp add: handleServerLoop_def Let_def)

lemma answer_completed: "answer run m path params data True \<noteq> None"
  by (simp add: answer_def split: option.split outcome.split prod.split)

lemma answer_map: "ensureMap m' = ensureMap m \<Longrightarrow> answer run m' = answer run m"
  by (simp add: answer_def fun_eq_iff)

lemma round_received:
  assumes ok: "answerable a c" and nd: "\<not> chLoopDone (chanAt c a)"
    and q: "chReceivedQueue (chanAt c a) = pkt # rest" and n8: "pktStatus pkt \<noteq> Status8"
    and w: "whole = parsePath parse (mergePacket (chWhole (chanAt c a)) pkt)"
    and ch: "pktChannel whole = Some b"
    and path: "pktPath (mergePacket (chWhole (chanAt c a)) pkt) \<noteq> ''''"
      "pktPath whole \<noteq> PathNewChannel" "pktPath whole \<noteq> PathDeleteChannel"
    and ans: "ans = answer run m (pktPath whole)
      (case pktParams whole of None \<Rightarrow> [] | Some vs \<Rightarrow> vs) (pktData whole)
      (isClientStatusCompleted (pktStatus pkt))"
    and small: "\<forall>d. ans = Some d \<longrightarrow> length d \<le> unat MaxPacketSize"
  shows "\<exists>c' m'. handleServerLoop parse run pick dur alone a Received (c, m) = (c', m') \<and>
    ensureMap m' = ensureMap m \<and> answerable a c' \<and> \<not> chLoopDone (chanAt c' a) \<and>
    chReceivedQueue (chanAt c' a) = rest \<and> cnWriteCap c' = cnWriteCap c \<and>
    cnClosedMark c' = cnClosedMark c \<and> cnOut c' = cnOut c \<and> cnErr c' = cnErr c \<and>
    cnWriteDone c' = cnWriteDone c \<and> cnNotifyClosed c' = cnNotifyClosed c \<and>
    cnReadDone c' = cnReadDone c \<and> cnReadPending c' = cnReadPending c \<and>
    cnWriteQueue c' = cnWriteQueue c @ (case ans of None \<Rightarrow> []
      | Some d \<Rightarrow> if length (cnWriteQueue c) < cnWriteCap c
          then [responsePacket a (pktPath (if chWhole (chanAt c a) = None then whole else pkt))
                  (pktChannelId pkt) d]
          else []) \<and>
    chWhole (chanAt c' a) = (if isClientStatusCompleted (pktStatus pkt) then None else Some whole) \<and>
    readView c' = readView (updChan a (\<lambda>ch. ch\<lparr>chReceivedQueue := rest\<rparr>) c)"
proof -
  let ?c0 = "updChan a (\<lambda>ch. ch\<lparr>chReceivedQueue := rest\<rparr>) c"
  have a: "a < length (cnChans c)" using ok by (simp add: answerable_def)
  have c0: "answerable a ?c0" "chWhole (chanAt ?c0 a) = chWhole (chanAt c a)"
    using ok a by (simp_all add: answerable_def)
  note w' = w [folded c0(2)] and path' = path [folded c0(2)]
  from serverReceive_user [OF c0(1) w' ch path' ans small, of pick dur]
  obtain c' m' where r: "serverReceive parse run pick dur alone a pkt (?c0, m) = (c', m')"
    and m': "ensureMap m' = ensureMap m" and st: "steady a c' = steady a ?c0"
    and q': "cnWriteQueue c' = cnWriteQueue ?c0 @ (case ans of None \<Rightarrow> []
      | Some d \<Rightarrow> if length (cnWriteQueue ?c0) < cnWriteCap ?c0
          then [responsePacket a (pktPath (if chWhole (chanAt ?c0 a) = None then whole else pkt))
                  (pktChannelId pkt) d]
          else [])"
    and wh: "chWhole (chanAt c' a) = (if isClientStatusCompleted (pktStatus pkt) then None else Some whole)"
    by blast
  have "answerable a c'" using c0(1) answerable_steady [OF st] by simp
  moreover have "\<not> chLoopDone (chanAt c' a)" "chReceivedQueue (chanAt c' a) = rest"
    "cnWriteCap c' = cnWriteCap c" "cnClosedMark c' = cnClosedMark c" "cnOut c' = cnOut c"
    "cnErr c' = cnErr c" "cnWriteDone c' = cnWriteDone c" "cnNotifyClosed c' = cnNotifyClosed c"
    "cnReadDone c' = cnReadDone c" "cnReadPending c' = cnReadPending c" "readView c' = readView ?c0"
    using st a nd by (simp_all add: steady_def)
  ultimately show ?thesis
    using handleServerLoop_Received [OF nd q n8, of parse run pick dur alone m] r m'
      q' [unfolded c0(2) updChan_simps] wh
    by (intro exI [of _ c'] exI [of _ m'] conjI) (simp_all only: not_False_eq_True)
qed

lemma parsePath_done: "pktParams w \<noteq> None \<Longrightarrow> parsePath parse w = w"
  by (simp add: parsePath_def)

lemma rounds_incomplete:
  assumes "answerable a c" "\<not> chLoopDone (chanAt c a)" "chWhole (chanAt c a) = Some w"
    and "chReceivedQueue (chanAt c a) = ps @ rest" "\<forall>p \<in> set ps. isClientStatusUncompleted (pktStatus p)"
    and "pktChannel w = Some b" "pktParams w = Some vs" "isUserPath (pktPath w)"
    and "\<forall>data. answer run m (pktPath w) vs data False = None"
  shows "\<exists>c' m' w'. (handleServerLoop parse run pick dur alone a Received ^^ length ps) (c, m) = (c', m') \<and>
    ensureMap m' = ensureMap m \<and> answerable a c' \<and> \<not> chLoopDone (chanAt c' a) \<and>
    chReceivedQueue (chanAt c' a) = rest \<and> cnWriteCap c' = cnWriteCap c \<and>
    cnWriteQueue c' = cnWriteQueue c \<and> cnOut c' = cnOut c \<and> chWhole (chanAt c' a) = Some w' \<and>
    pktData w' = pktData w @ concat (map pktData ps) \<and> pktPath w' = pktPath w \<and>
    pktParams w' = Some vs \<and> pktChannel w' = Some b"
  using assms
proof (induction ps arbitrary: c m w)
  case (Cons p ps)
  let ?w = "w\<lparr>pktData := pktData w @ pktData p, pktStatus := pktStatus p\<rparr>"
  have merge: "mergePacket (Some w) p = ?w" by (simp add: mergePacket_def)
  have parse: "parsePath parse ?w = ?w" using Cons.prems(7) by (simp add: parsePath_def)
  have inc: "\<not> isClientStatusCompleted (pktStatus p)" and n8: "pktStatus p \<noteq> Status8"
    using Cons.prems(5) by (auto simp: client_status_defs)
  from round_received [OF Cons.prems(1,2) _ n8, of "ps @ rest" ?w parse b None run m pick dur]
  obtain c1 m1 where r: "handleServerLoop parse run pick dur alone a Received (c, m) = (c1, m1)"
    "ensureMap m1 = ensureMap m" "answerable a c1" "\<not> chLoopDone (chanAt c1 a)"
    "chReceivedQueue (chanAt c1 a) = ps @ rest" "cnWriteCap c1 = cnWriteCap c"
    "cnWriteQueue c1 = cnWriteQueue c" "cnOut c1 = cnOut c" "chWhole (chanAt c1 a) = Some ?w"
    using Cons.prems inc by (auto simp: merge parse isUserPath_def)
  have "\<forall>data. answer run m1 (pktPath ?w) vs data False = None"
    using Cons.prems(9) answer_map [OF r(2), of run] by simp
  from Cons.IH [OF r(3,4,9,5) _ _ _ _ this] Cons.prems(5-8)
  obtain c' m' w' where
    "(handleServerLoop parse run pick dur alone a Received ^^ length ps) (c1, m1) = (c', m')"
    "ensureMap m' = ensureMap m1" "answerable a c'" "\<not> chLoopDone (chanAt c' a)"
    "chReceivedQueue (chanAt c' a) = rest" "cnWriteCap c' = cnWriteCap c1"
    "cnWriteQueue c' = cnWriteQueue c1" "cnOut c' = cnOut c1" "chWhole (chanAt c' a) = Some w'"
    "pktData w' = pktData ?w @ concat (map pktData ps)" "pktPath w' = pktPath ?w"
    "pktParams w' = Some vs" "pktChannel w' = Some b" by auto
  with r show ?case
    by (intro exI [of _ c'] exI [of _ m'] exI [of _ w']) (simp add: funpow_swap1)
qed simp

lemma whole_message_cases:
  assumes "wholeMessage fm fd nm nd (map pktStatus ps)"
  obtains (single) p where "ps = [p]" "pktStatus p = fd"
  | (chunked) p qs q where "ps = p # qs @ [q]" "pktStatus p = fm"
      "\<forall>x \<in> set qs. pktStatus x = nm" "pktStatus q = nd"
proof -
  from assms consider "map pktStatus ps = [fd]"
    | n where "map pktStatus ps = fm # replicate n nm @ [nd]"
    by (auto simp: wholeMessage_def)
  then show ?thesis
  proof cases
    case 1
    then show ?thesis using single by (auto simp: map_eq_Cons_conv)
  next
    case 2
    then obtain p rs where ps: "ps = p # rs" "pktStatus p = fm"
      and rs: "map pktStatus rs = replicate n nm @ [nd]" by (auto simp: map_eq_Cons_conv)
    from rs obtain qs q where q: "rs = qs @ [q]" "map pktStatus qs = replicate n nm" "pktStatus q = nd"
      by (auto simp: map_eq_append_conv map_eq_Cons_conv)
    from q(2) have "\<forall>x \<in> set qs. pktStatus x = nm"
      by (metis in_set_replicate list.set_map image_eqI)
    with ps q chunked show ?thesis by blast
  qed
qed

text \<open>The path and the parameters the handler sees: those of the first packet.\<close>

definition requestPath :: "(string \<Rightarrow> gerr + string \<times> url_values) \<Rightarrow> packet \<Rightarrow> string" where
  "requestPath parse p = pktPath (parsePath parse p)"

definition requestParams :: "(string \<Rightarrow> gerr + string \<times> url_values) \<Rightarrow> packet \<Rightarrow> url_values" where
  "requestParams parse p = (case pktParams (parsePath parse p) of None \<Rightarrow> [] | Some vs \<Rightarrow> vs)"

lemma parsePath_params: "pktParams (parsePath parse p) = Some (requestParams parse p)"
  by (auto simp: requestParams_def parsePath_def split: option.split sum.split)

section \<open>Properties of the server's loop\<close>

lemma server_parts_answered:
  assumes "answerable a c" "\<not> chLoopDone (chanAt c a)" "chWhole (chanAt c a) = None"
    and "chReceivedQueue (chanAt c a) = p # qs @ q # rest"
    and "pktStatus p = StatusC0" "\<forall>x \<in> set qs. pktStatus x = StatusC2" "pktStatus q = StatusC3"
    and "pktChannel p = Some a" "pktPath p \<noteq> ''''" "isUserPath (requestPath parse p)"
    and "\<forall>data. answer run m (requestPath parse p) (requestParams parse p) data False = None"
    and "answer run m (requestPath parse p) (requestParams parse p)
           (pktData p @ concat (map pktData qs) @ pktData q) True = Some d"
    and "length d \<le> unat MaxPacketSize" "length (cnWriteQueue c) < cnWriteCap c"
  shows "\<exists>c' m'. (handleServerLoop parse run pick dur alone a Received ^^ Suc (length qs + 1)) (c, m) = (c', m') \<and>
    cnWriteQueue c' = cnWriteQueue c @ [responsePacket a (pktPath q) (pktChannelId q) d] \<and>
    chReceivedQueue (chanAt c' a) = rest \<and> chWhole (chanAt c' a) = None \<and>
    answerable a c' \<and> \<not> chLoopDone (chanAt c' a) \<and> ensureMap m' = ensureMap m"
proof -
  let ?w = "parsePath parse p" and ?path = "requestPath parse p" and ?params = "requestParams parse p"
  note user = assms(10) [unfolded isUserPath_def]
  have p: "pktParams ?w = Some ?params" "mergePacket None p = p" "pktPath ?w = ?path"
    "\<not> isClientStatusCompleted (pktStatus p)" "pktStatus p \<noteq> Status8"
    using assms(5) by (simp_all add: parsePath_params mergePacket_def requestPath_def client_status_defs)
  from round_received [OF assms(1,2) _ p(5), of "qs @ q # rest" ?w parse a None run m pick dur]
  obtain c1 m1 where r1: "handleServerLoop parse run pick dur alone a Received (c, m) = (c1, m1)"
    "ensureMap m1 = ensureMap m" "answerable a c1" "\<not> chLoopDone (chanAt c1 a)"
    "chReceivedQueue (chanAt c1 a) = qs @ q # rest" "cnWriteCap c1 = cnWriteCap c"
    "cnWriteQueue c1 = cnWriteQueue c" "chWhole (chanAt c1 a) = Some ?w"
    using assms(3,4,8,9,11) user p by auto
  have "\<forall>x \<in> set qs. isClientStatusUncompleted (pktStatus x)" using assms(6) by (simp add: client_status_defs)
  from rounds_incomplete [OF r1(3,4,8,5) this, of a ?params run m1 parse pick dur]
    assms(8,10,11) answer_map [OF r1(2), of run]
  obtain c2 m2 w' where r2:
    "(handleServerLoop parse run pick dur alone a Received ^^ length qs) (c1, m1) = (c2, m2)"
    "ensureMap m2 = ensureMap m" "answerable a c2" "\<not> chLoopDone (chanAt c2 a)"
    "chReceivedQueue (chanAt c2 a) = q # rest" "cnWriteCap c2 = cnWriteCap c"
    "cnWriteQueue c2 = cnWriteQueue c" "chWhole (chanAt c2 a) = Some w'"
    "pktData w' = pktData p @ concat (map pktData qs)" "pktPath w' = ?path"
    "pktParams w' = Some ?params" "pktChannel w' = Some a"
    using r1 by (auto simp: p)
  let ?w2 = "w'\<lparr>pktData := pktData w' @ pktData q, pktStatus := pktStatus q\<rparr>"
  have q: "mergePacket (Some w') q = ?w2" "isClientStatusCompleted (pktStatus q)" "pktStatus q \<noteq> Status8"
    using assms(7) by (simp_all add: mergePacket_def client_status_defs)
  have ans: "answer run m2 ?path ?params (pktData ?w2) True = Some d"
    using assms(12) answer_map [OF r2(2), of run] r2(9) by simp
  from round_received [OF r2(3,4,5) q(3), of ?w2 parse a "Some d" run m2 pick dur]
  obtain c3 m3 where r3: "handleServerLoop parse run pick dur alone a Received (c2, m2) = (c3, m3)"
    "ensureMap m3 = ensureMap m" "answerable a c3" "\<not> chLoopDone (chanAt c3 a)"
    "chReceivedQueue (chanAt c3 a) = rest" "chWhole (chanAt c3 a) = None"
    "cnWriteQueue c3 = cnWriteQueue c @ [responsePacket a (pktPath q) (pktChannelId q) d]"
    using r2 ans q user assms(13,14) by (auto simp: parsePath_done)
  from funpow_chain [OF r1(1) r2(1) r3(1)] r3 show ?thesis by blast
qed

text \<open>C19: One whole request, one response: when the packets of a whole request (split or not) for
  a path of the application stand at the head of a channel's queue, and the handler answers
  nothing before the request is complete, the loop consumes exactly these packets and puts
  exactly one response packet into the write queue, with the status of a whole response, on the
  same channel, carrying what the handler makes of the path of the first packet and of the data
  of all packets joined in order; nothing of the request is left over for the next.\<close>

theorem server_request_answered:
  assumes "answerable a c" "\<not> chLoopDone (chanAt c a)" "chWhole (chanAt c a) = None"
    and "chReceivedQueue (chanAt c a) = (p # ps) @ rest"
    and "wholeMessage StatusC0 StatusC1 StatusC2 StatusC3 (map pktStatus (p # ps))"
    and "pktChannel p = Some a" "pktPath p \<noteq> ''''" "isUserPath (requestPath parse p)"
    and "\<forall>data. ps \<noteq> [] \<longrightarrow> answer run m (requestPath parse p) (requestParams parse p) data False = None"
    and "answer run m (requestPath parse p) (requestParams parse p)
           (concat (map pktData (p # ps))) True = Some d"
    and "length d \<le> unat MaxPacketSize" "length (cnWriteQueue c) < cnWriteCap c"
  shows "\<exists>c' m'. (handleServerLoop parse run pick dur alone a Received ^^ length (p # ps)) (c, m) = (c', m') \<and>
    cnWriteQueue c' = cnWriteQueue c @
      [responsePacket a (if ps = [] then requestPath parse p else pktPath (last ps))
         (pktChannelId (last (p # ps))) d] \<and>
    chReceivedQueue (chanAt c' a) = rest \<and> chWhole (chanAt c' a) = None \<and>
    answerable a c' \<and> \<not> chLoopDone (chanAt c' a) \<and> ensureMap m' = ensureMap m"
proof -
  let ?path = "requestPath parse p" and ?params = "requestParams parse p"
  note user = assms(8) [unfolded isUserPath_def]
  from assms(5) show ?thesis
  proof (cases rule: whole_message_cases)
    case (single x)
    then have st: "isClientStatusCompleted (pktStatus p)" "pktStatus p \<noteq> Status8" "ps = []"
      by (auto simp: client_status_defs)
    have p: "pktParams (parsePath parse p) = Some ?params" "mergePacket None p = p" "pktPath (parsePath parse p) = ?path"
      by (simp_all add: parsePath_params mergePacket_def requestPath_def)
    from round_received [OF assms(1,2) _ st(2), of rest "parsePath parse p" parse a "Some d" run m pick dur]
    show ?thesis using assms(3,4,6-12) user st by (simp add: p) metis
  next
    case (chunked x qs q)
    then have ps: "ps = qs @ [q]" and st: "pktStatus p = StatusC0" by auto
    have data: "concat (map pktData (p # ps)) = pktData p @ concat (map pktData qs) @ pktData q"
      and len: "length (p # ps) = Suc (length qs + 1)" by (simp_all add: ps)
    have queue: "chReceivedQueue (chanAt c a) = p # qs @ q # rest" using assms(4) ps by simp
    have none: "\<forall>data. answer run m ?path ?params data False = None" using assms(9) ps by simp
    show ?thesis
      using server_parts_answered [OF assms(1-3) queue st chunked(3,4) assms(6-8) none assms(10) [unfolded data]
          assms(11,12), of pick dur]
      unfolding len by (simp add: ps del: funpow.simps)
  qed
qed

text \<open>A server connection with some packets in the queue of its channel 0, and an echo handler.\<close>

definition queuedConn :: "byte \<Rightarrow> packet list \<Rightarrow> nat conn" where
  "queuedConn role ps = updChan 0 (\<lambda>ch. ch\<lparr>chReceivedQueue := ps\<rparr>) (freshConn role)"

definition echoRun :: "nat serverRun" where
  "echoRun h path params data completed = Returned (if completed then data else [], None)"

definition plainParse :: "string \<Rightarrow> gerr + string \<times> url_values" where
  "plainParse s = Inr (s, [])"

lemma queuedConn_facts:
  "answerable 0 (queuedConn RoleServer ps)" "\<not> chLoopDone (chanAt (queuedConn RoleServer ps) 0)"
  "chWhole (chanAt (queuedConn RoleServer ps) 0) = None"
  "chReceivedQueue (chanAt (queuedConn RoleServer ps) 0) = ps"
  "cnWriteQueue (queuedConn RoleServer ps) = []" "cnWriteCap (queuedConn RoleServer ps) = 100"
  using NewConnection_Inr [OF freshConn_New [of RoleServer]]
  by (simp_all add: queuedConn_def answerable_def)

lemma sample_plain:
  "requestPath plainParse (received a (samplePacket st cid b)) = ''/echo''"
  "requestParams plainParse (received a (samplePacket st cid b)) = []"
  "isUserPath ''/echo''" "pktStatus (received a (samplePacket st cid b)) = st"
  "pktData (received a (samplePacket st cid b)) = [b]"
  "pktPath (received a (samplePacket st cid b)) = ''/echo''"
  "pktChannelId (received a (samplePacket st cid b)) = cid"
  "pktChannel (received a (samplePacket st cid b)) = Some a"
  by (simp_all add: requestPath_def requestParams_def parsePath_def plainParse_def received_def
      wireView_def samplePacket_def isUserPath_def PathNewChannel_def PathDeleteChannel_def)

theorem server_request_answered_witness:
  "\<exists>c' m'. (handleServerLoop plainParse echoRun 0 0 alone 0 Received ^^ 2)
      (queuedConn RoleServer [received 0 (samplePacket StatusC0 0 7), received 0 (samplePacket StatusC3 0 8)],
       Some [(''/echo'', 0)]) = (c', m') \<and>
    cnWriteQueue c' = [responsePacket 0 ''/echo'' 0 [7, 8]]"
proof -
  let ?p = "received 0 (samplePacket StatusC0 0 7)" and ?q = "received 0 (samplePacket StatusC3 0 8)"
  have "wholeMessage StatusC0 StatusC1 StatusC2 StatusC3 (map pktStatus (?p # [?q]))"
    by (auto simp: wholeMessage_def sample_plain intro: exI [of _ "0::nat"])
  moreover have "answer echoRun (Some [(''/echo'', 0)]) ''/echo'' [] data fin =
      (if \<not> fin then None else if data = [] then Some (ErrorResponse ErrHandleNoResponse) else Some data)"
    for data fin by (simp add: answer_def ensureMap_def echoRun_def)
  ultimately show ?thesis
    using server_request_answered [of 0 "queuedConn RoleServer [?p, ?q]" ?p "[?q]" "[]" plainParse
        echoRun "Some [(''/echo'', 0)]" "[7, 8]" 0 0]
    by (auto simp: queuedConn_facts sample_plain numeral_2_eq_2 simp del: funpow.simps)
qed

text \<open>C20: The request that closes a channel is not answered: it closes the channel it arrives on,
  takes it out of the dictionary, and puts nothing into the write queue, although the handler
  makes a response; its sender gets no reply.\<close>

theorem delete_channel_unanswered:
  assumes "answerable a c" "\<not> chLoopDone (chanAt c a)" "chWhole (chanAt c a) = None"
    and "\<not> chClosedMark (chanAt c a)" "chReceivedQueue (chanAt c a) = p # rest"
    and "pktStatus p = StatusC1" "pktChannel p = Some a" "pktPath p \<noteq> ''''"
    and "requestPath parse p = PathDeleteChannel"
  shows "\<exists>c'. handleServerLoop parse run pick dur env a Received (c, m) = (c', m) \<and>
    chClosedMark (chanAt c' a) \<and> getChannel (chId (chanAt c a)) c' = None \<and>
    cnWriteQueue c' = cnWriteQueue c \<and> \<not> cnClosedMark c' \<and> \<not> chLoopDone (chanAt c' a)"
proof -
  let ?c0 = "updChan a (\<lambda>ch. ch\<lparr>chReceivedQueue := rest\<rparr>) c"
  let ?e = "Some (TextErr ''close by peer command'')"
  let ?w = "parsePath parse p"
  have a: "a < length (cnChans c)" "\<not> cnClosedMark c" using assms(1) by (simp_all add: answerable_def)
  have wh: "chWhole (chanAt ?c0 a) = None" using a assms(3) by simp
  have st: "isClientStatusCompleted (pktStatus p)" "pktStatus p \<noteq> Status8"
    using assms(6) by (simp_all add: client_status_defs)
  have path: "pktPath ?w = PathDeleteChannel" using assms(9) by (simp add: requestPath_def)
  have h: "serverHandle parse run pick m p True ?c0 =
      (Channel_Close a ?e ?c0, m, ?w, ResponseDeleteChannel 0 '''', None)"
    using assms(7,8) path
    by (simp add: serverHandle_def Let_def PathNewChannel_def PathDeleteChannel_def)
  define c1 where "c1 = Channel_Close a ?e ?c0"
  have err: "chErr (chanAt c1 a) \<noteq> None"
    using a assms(4) by (simp add: c1_def chanAt_Channel_Close)
  define c2 where "c2 = updOwner (Server_AddMeasure (pktPath ?w) 1 dur) c1"
  have "chErr (chanAt c2 a) \<noteq> None" using err by (simp add: c2_def updOwner_def chanAt_def)
  then have resp: "serverRespond env a ?w None (ResponseDeleteChannel 0 '''') c2 = c2"
    by (auto simp: serverRespond_def SendPacket_def)
  have merge: "mergePacket None p = p" by (simp add: mergePacket_def)
  have r: "handleServerLoop parse run pick dur env a Received (c, m) =
      (addCounts a (pktPath ?w) cntWholeReceived (updChan a (\<lambda>ch. ch\<lparr>chWhole := None\<rparr>) c2), m)"
    unfolding handleServerLoop_Received [OF assms(2,5) st(2)]
    using st by (simp add: serverReceive_def Let_def wh merge h c1_def [symmetric] c2_def [symmetric]
        serverError_def resp)
  have len: "length (cnChans c2) = length (cnChans c)" by (simp add: c2_def c1_def updOwner_def)
  have "chanAt c2 a = chanAt c1 a" by (simp add: c2_def updOwner_def chanAt_def)
  then have "chClosedMark (chanAt c2 a)" "chLoopDone (chanAt c2 a) = chLoopDone (chanAt c a)"
    using a assms(4) by (simp_all add: c1_def chanAt_Channel_Close)
  moreover have "getChannel (chId (chanAt c a)) c2 = None"
    using a assms(4)
    by (simp add: c2_def c1_def updOwner_def getChannel_def Channel_Close_open delete_conv')
  moreover have "cnWriteQueue c2 = cnWriteQueue c" "\<not> cnClosedMark c2"
    using a by (simp_all add: c2_def c1_def updOwner_def)
  ultimately show ?thesis
    unfolding r using a assms(2) len
    by (simp add: chanAt_addCounts) (simp add: getChannel_def)
qed

theorem delete_channel_unanswered_witness:
  "\<exists>c'. handleServerLoop plainParse echoRun 0 0 alone 0 Received
      (queuedConn RoleServer [(received 0 (samplePacket StatusC1 0 7))\<lparr>pktPath := PathDeleteChannel\<rparr>], None) =
      (c', None) \<and> cnWriteQueue c' = [] \<and> getChannel 0 c' = None"
proof -
  let ?p = "(received 0 (samplePacket StatusC1 0 7))\<lparr>pktPath := PathDeleteChannel\<rparr>"
  have "requestPath plainParse ?p = PathDeleteChannel"
    by (simp add: requestPath_def parsePath_def plainParse_def received_def wireView_def
        samplePacket_def)
  moreover have "\<not> chClosedMark (chanAt (queuedConn RoleServer [?p]) 0)"
    "chId (chanAt (queuedConn RoleServer [?p]) 0) = 0"
    using NewConnection_Inr [OF freshConn_New [of RoleServer]] by (simp_all add: queuedConn_def)
  ultimately show ?thesis
    using delete_channel_unanswered [of 0 "queuedConn RoleServer [?p]" ?p "[]" plainParse echoRun 0 0 alone None]
    by (auto simp: queuedConn_facts sample_plain PathDeleteChannel_def)
qed

end
