(* ===== verification/ClientLoop.thy ===== *)
theory ClientLoop
  imports ServerLoop
begin

text \<open>
  The goroutine \<open>handleClientLoop\<close> of \<open>protocol.go\<close>: it merges the packets of a response, pairs
  it with the oldest request that has no response yet, calls the handler of the client and hands
  the whole response to the caller waiting for it. The queue of uncompleted requests is the
  \<open>LinkedList\<close> of package goutil, which is not part of the repository: its operations are the
  parameter \<open>ops\<close>, and \<open>fifoOps\<close> states what is relied on.
\<close>

section \<open>The queue of uncompleted requests\<close>

text \<open>The elements are the addresses of requests.\<close>

record 'q queueOps =
  PushTail :: "nat \<Rightarrow> 'q \<Rightarrow> 'q"
  PushHead :: "nat \<Rightarrow> 'q \<Rightarrow> 'q"
  PopHead :: "'q \<Rightarrow> 'q \<times> nat option"
  PopTail :: "'q \<Rightarrow> 'q \<times> nat option"

definition fifoOps :: "'q queueOps \<Rightarrow> ('q \<Rightarrow> nat list) \<Rightarrow> bool" where
  "fifoOps ops elems \<longleftrightarrow>
     (\<forall>q x. elems (PushTail ops x q) = elems q @ [x]) \<and>
     (\<forall>q x. elems (PushHead ops x q) = x # elems q) \<and>
     (\<forall>q. snd (PopHead ops q) = (case elems q of [] \<Rightarrow> None | x # _ \<Rightarrow> Some x) \<and>
          elems (fst (PopHead ops q)) = tl (elems q)) \<and>
     (\<forall>q. snd (PopTail ops q) = (if elems q = [] then None else Some (last (elems q))) \<and>
          elems (fst (PopTail ops q)) = butlast (elems q))"

section \<open>The loop\<close>

text \<open>The connection, the request objects by address, and the notify channels.\<close>

record 'q clientWorld =
  cwConn :: "'q conn"
  cwRequests :: "ctxVal request list"
  cwNotify :: notifyState

definition updConn :: "('q conn \<Rightarrow> 'q conn) \<Rightarrow> 'q clientWorld \<Rightarrow> 'q clientWorld" where
  "updConn f w = w\<lparr>cwConn := f (cwConn w)\<rparr>"

definition Client_AddMeasure :: "i64 \<Rightarrow> i64 \<Rightarrow> owner \<Rightarrow> owner" where
  "Client_AddMeasure reqCount duration ow =
     ow\<lparr>owMeasure := Measure_Add (owMeasure ow) reqCount duration\<rparr>"

text \<open>The caller that waits for the response, if the request has one.\<close>

definition notifyCaller :: "nat \<Rightarrow> byte list \<Rightarrow> 'q clientWorld \<Rightarrow> 'q clientWorld" where
  "notifyCaller r data w =
     (case GetCtxData (reqCtx (cwRequests w ! r)) CtxResponseChan of
        Some (CvNotify n) \<Rightarrow> w\<lparr>cwNotify := notifyResponse n data (cwNotify w)\<rparr>
      | _ \<Rightarrow> w)"

definition clientReceive ::
    "'q queueOps \<Rightarrow> 'h clientRun \<Rightarrow> i64 \<Rightarrow> nat \<Rightarrow> packet \<Rightarrow> 'q clientWorld \<times> 'h handlers \<Rightarrow>
     'q clientWorld \<times> 'h handlers" where
  "clientReceive ops run dur a pkt = (\<lambda>(w, m).
     let c = cwConn w;
         whole = mergePacket (chWhole (chanAt c a)) pkt
     in case chUcrq (chanAt c a) of
          None \<Rightarrow> (w, m)
        | Some q \<Rightarrow>
            (case PopHead ops q of
               (q1, None) \<Rightarrow>
                 (updConn (\<lambda>c. updChan a (\<lambda>ch. ch\<lparr>chLoopDone := True\<rparr>)
                    (Channel_Close a (Some (TextErr ''request not found''))
                       (updChan a (\<lambda>ch. ch\<lparr>chUcrq := Some q1\<rparr>) c))) w, m)
             | (q1, Some r) \<Rightarrow>
                 let c1 = updChan a (\<lambda>ch. ch\<lparr>chUcrq := Some q1,
                            chCtx := SetCtxData (chCtx ch) CtxRequest (Some (CvRequest r))\<rparr>) c;
                     (c2, m1, _, err) =
                       clientHandle run m a whole (isServerStatusCompleted (pktStatus pkt)) c1;
                     c3 = updOwner (Client_AddMeasure 1 dur) c2;
                     w3 = w\<lparr>cwConn := c3\<rparr>
                 in if isServerStatusCompleted (pktStatus pkt) then
                      (updConn (\<lambda>c. updChan a (\<lambda>ch. ch\<lparr>chWhole := None\<rparr>)
                                   (addCounts a (pktPath pkt) cntWholeReceived c))
                         (notifyCaller r (pktData whole) w3), m1)
                    else
                      (updConn (updChan a (\<lambda>ch. ch\<lparr>chWhole := Some whole,
                          chUcrq := Some (PushHead ops r (the (chUcrq ch)))\<rparr>)) w3, m1)))"

definition handleClientLoop ::
    "'q queueOps \<Rightarrow> 'h clientRun \<Rightarrow> i64 \<Rightarrow> nat \<Rightarrow> loopCase \<Rightarrow> 'q clientWorld \<times> 'h handlers \<Rightarrow>
     'q clientWorld \<times> 'h handlers" where
  "handleClientLoop ops run dur a ev = (\<lambda>(w, m).
     if chLoopDone (chanAt (cwConn w) a) then (w, m)
     else case ev of
       Ticked \<Rightarrow>
         (if Connection_Closed (cwConn w)
          then updConn (updChan a (\<lambda>ch. ch\<lparr>chLoopDone := True\<rparr>)) w else w, m)
     | Notified \<Rightarrow>
         (if chNotifyClosed (chanAt (cwConn w) a)
          then updConn (updChan a (\<lambda>ch. ch\<lparr>chLoopDone := True\<rparr>)) w else w, m)
     | Received \<Rightarrow>
         (case chReceivedQueue (chanAt (cwConn w) a) of
            [] \<Rightarrow> (w, m)
          | pkt # rest \<Rightarrow>
              let w0 = updConn (updChan a (\<lambda>ch. ch\<lparr>chReceivedQueue := rest\<rparr>)) w
              in if pktStatus pkt = Status8 then
                   (updConn (\<lambda>c. updChan a (\<lambda>ch. ch\<lparr>chLoopDone := True\<rparr>)
                      (Channel_Close a (Some (TextErr ''closed by peer command'')) c)) w0, m)
                 else clientReceive ops run dur a pkt (w0, m)))"

section \<open>One round\<close>

lemma updConn_simps [simp]:
  "cwConn (updConn f w) = f (cwConn w)" "cwRequests (updConn f w) = cwRequests w"
  "cwNotify (updConn f w) = cwNotify w"
  by (simp_all add: updConn_def)

text \<open>A round changes of the channel only what belongs to the loop.\<close>

definition readerView where
  "readerView a c = (chReceivedQueue (chanAt c a), chLoopDone (chanAt c a), chClosedMark (chanAt c a),
     chErr (chanAt c a), chId (chanAt c a), length (cnChans c), cnClosedMark c, cnErr c, cnRole c,
     cnWriteQueue c, cnWriteDone c, cnNotifyClosed c, cnWriteCap c, idView c, readView c)"

lemma readerView_simps [simp]:
  "readerView a (updOwner f c) = readerView a c"
  "readerView a (addCounts b p k c) = readerView a c"
proof -
  show "readerView a (updOwner f c) = readerView a c"
    by (simp add: readerView_def updOwner_def chanAt_def idView_def readView_def)
  have "idView (addCounts b p k c) = idView c" "readView (addCounts b p k c) = readView c" by simp_all
  then show "readerView a (addCounts b p k c) = readerView a c"
    by (cases "a = b \<and> a < length (cnChans c)")
      (auto simp: readerView_def addCounts_def updOwner_def updChan_def chanAt_def nth_list_update
        list_update_beyond)
qed

lemma clientHandle_frame:
  assumes "pktPath response \<noteq> PathDeleteChannel"
  shows "\<exists>m1 ret err. clientHandle run m a response fin c = (c, m1, ret, err) \<and>
    ensureMap m1 = ensureMap m"
  using assms
  by (auto simp: clientHandle_def client_getHandler_def Let_def ensureMap_def
      split: option.split ctxVal.split outcome.split)

lemma clientReceive_round:
  assumes a: "a < length (cnChans (cwConn w))"
    and q: "chUcrq (chanAt (cwConn w) a) = Some q" and ops: "fifoOps ops elems"
    and e: "elems q = r # rs"
    and whole: "whole = mergePacket (chWhole (chanAt (cwConn w) a)) pkt"
    and path: "pktPath whole \<noteq> PathDeleteChannel"
  shows "\<exists>w' m' q'. clientReceive ops run dur a pkt (w, m) = (w', m') \<and> ensureMap m' = ensureMap m \<and>
    readerView a (cwConn w') = readerView a (cwConn w) \<and> cwRequests w' = cwRequests w \<and>
    chUcrq (chanAt (cwConn w') a) = Some q' \<and>
    (if isServerStatusCompleted (pktStatus pkt)
     then elems q' = rs \<and> chWhole (chanAt (cwConn w') a) = None \<and>
       cwNotify w' = cwNotify (notifyCaller r (pktData whole) w)
     else elems q' = r # rs \<and> chWhole (chanAt (cwConn w') a) = Some whole \<and> cwNotify w' = cwNotify w)"
proof -
  obtain q1 where pop: "PopHead ops q = (q1, Some r)" and q1: "elems q1 = rs"
    using ops e by (cases "PopHead ops q") (auto simp: fifoOps_def dest!: spec [of _ q])
  let ?c1 = "updChan a (\<lambda>ch. ch\<lparr>chUcrq := Some q1,
      chCtx := SetCtxData (chCtx ch) CtxRequest (Some (CvRequest r))\<rparr>) (cwConn w)"
  obtain m1 ret err where h: "clientHandle run m a whole (isServerStatusCompleted (pktStatus pkt)) ?c1 =
      (?c1, m1, ret, err)" and m1: "ensureMap m1 = ensureMap m"
    using clientHandle_frame [OF path] by blast
  let ?c3 = "updOwner (Client_AddMeasure 1 dur) ?c1"
  have v: "readerView a ?c3 = readerView a (cwConn w)"
    unfolding readerView_simps using a by (simp add: readerView_def idView_updChan readView_updChan)
  have c3: "chUcrq (chanAt ?c3 a) = Some q1" "a < length (cnChans ?c3)"
    using a by (simp_all add: updOwner_def chanAt_def updChan_def)
  note r = clientReceive_def [of ops run dur a pkt, unfolded Let_def]
  show ?thesis
  proof (cases "isServerStatusCompleted (pktStatus pkt)")
    case True
    let ?w' = "updConn (\<lambda>c. updChan a (\<lambda>ch. ch\<lparr>chWhole := None\<rparr>)
      (addCounts a (pktPath pkt) cntWholeReceived c)) (notifyCaller r (pktData whole) (w\<lparr>cwConn := ?c3\<rparr>))"
    have n: "cwConn (notifyCaller r (pktData whole) (w\<lparr>cwConn := ?c3\<rparr>)) = ?c3"
      "cwNotify (notifyCaller r (pktData whole) (w\<lparr>cwConn := ?c3\<rparr>)) = cwNotify (notifyCaller r (pktData whole) w)"
      "cwRequests (notifyCaller r (pktData whole) (w\<lparr>cwConn := ?c3\<rparr>)) = cwRequests w"
      by (simp_all add: notifyCaller_def split: option.split ctxVal.split)
    have "clientReceive ops run dur a pkt (w, m) = (?w', m1)"
      using True h by (simp add: r q pop whole [symmetric])
    moreover have "readerView a (cwConn ?w') = readerView a (cwConn w)"
    proof -
      have "readerView a (cwConn ?w') = readerView a (addCounts a (pktPath pkt) cntWholeReceived ?c3)"
        using c3(2) by (simp add: n readerView_def idView_updChan readView_updChan)
      with v show ?thesis by simp
    qed
    moreover have "chUcrq (chanAt (cwConn ?w') a) = Some q1" "chWhole (chanAt (cwConn ?w') a) = None"
      using c3 by (simp_all add: n chanAt_addCounts)
    ultimately show ?thesis using True m1 q1 n by (intro exI [of _ ?w'] exI [of _ m1]) simp
  next
    case False
    let ?w' = "updConn (updChan a (\<lambda>ch. ch\<lparr>chWhole := Some whole,
      chUcrq := Some (PushHead ops r (the (chUcrq ch)))\<rparr>)) (w\<lparr>cwConn := ?c3\<rparr>)"
    have "clientReceive ops run dur a pkt (w, m) = (?w', m1)"
      using False h by (simp add: r q pop whole [symmetric])
    moreover have "readerView a (cwConn ?w') = readerView a (cwConn w)"
      using v c3(2) by (simp add: readerView_def idView_updChan readView_updChan)
    moreover have "elems (PushHead ops r q1) = r # rs" using ops q1 by (simp add: fifoOps_def)
    ultimately show ?thesis using False m1 c3 by (intro exI [of _ ?w'] exI [of _ m1]) simp
  qed
qed

section \<open>Whole responses\<close>

text \<open>The loop runs, \<open>ps\<close> is in the queue of the channel, \<open>rs\<close> the requests without response.\<close>

definition clientReady :: "('q \<Rightarrow> nat list) \<Rightarrow> nat \<Rightarrow> packet list \<Rightarrow> nat list \<Rightarrow> 'q clientWorld \<Rightarrow> bool" where
  "clientReady elems a ps rs w \<longleftrightarrow>
     a < length (cnChans (cwConn w)) \<and> \<not> chLoopDone (chanAt (cwConn w) a) \<and>
     chReceivedQueue (chanAt (cwConn w) a) = ps \<and>
     (\<exists>q. chUcrq (chanAt (cwConn w) a) = Some q \<and> elems q = rs)"

text \<open>What a round leaves of the rest of the connection.\<close>

definition roundView where
  "roundView a c = (cnRole c, cnErr c, cnWriteQueue c, cnWriteDone c, cnNotifyClosed c, cnWriteCap c,
     length (cnChans c), chErr (chanAt c a))"

lemma client_round:
  assumes ready: "clientReady elems a (pkt # ps) (r # rs) w" and ops: "fifoOps ops elems"
    and n8: "pktStatus pkt \<noteq> Status8"
    and whole: "whole = mergePacket (chWhole (chanAt (cwConn w) a)) pkt"
    and path: "pktPath whole \<noteq> PathDeleteChannel"
  shows "\<exists>w' m'. handleClientLoop ops run dur a Received (w, m) = (w', m') \<and>
    cwRequests w' = cwRequests w \<and> idView (cwConn w') = idView (cwConn w) \<and>
    cnClosedMark (cwConn w') = cnClosedMark (cwConn w) \<and>
    readView (cwConn w') = readView (updChan a (\<lambda>ch. ch\<lparr>chReceivedQueue := ps\<rparr>) (cwConn w)) \<and>
    roundView a (cwConn w') = roundView a (cwConn w) \<and>
    (if isServerStatusCompleted (pktStatus pkt)
     then clientReady elems a ps rs w' \<and> chWhole (chanAt (cwConn w') a) = None \<and>
       cwNotify w' = cwNotify (notifyCaller r (pktData whole) w)
     else clientReady elems a ps (r # rs) w' \<and> chWhole (chanAt (cwConn w') a) = Some whole \<and>
       cwNotify w' = cwNotify w)"
proof -
  let ?w0 = "updConn (updChan a (\<lambda>ch. ch\<lparr>chReceivedQueue := ps\<rparr>)) w"
  from ready obtain q where a: "a < length (cnChans (cwConn w))"
    and nd: "\<not> chLoopDone (chanAt (cwConn w) a)"
    and queue: "chReceivedQueue (chanAt (cwConn w) a) = pkt # ps"
    and q: "chUcrq (chanAt (cwConn w) a) = Some q" "elems q = r # rs"
    by (auto simp: clientReady_def)
  have a0: "a < length (cnChans (cwConn ?w0))" using a by simp
  have q0: "chUcrq (chanAt (cwConn ?w0) a) = Some q" using a q by simp
  have whole0: "whole = mergePacket (chWhole (chanAt (cwConn ?w0) a)) pkt" using a whole by simp
  have loop: "handleClientLoop ops run dur a Received (w, m) = clientReceive ops run dur a pkt (?w0, m)"
    using nd queue n8 by (simp add: handleClientLoop_def Let_def)
  have n0: "cwNotify (notifyCaller r d ?w0) = cwNotify (notifyCaller r d w)" for d
    by (simp add: notifyCaller_def split: option.split ctxVal.split)
  from clientReceive_round [OF a0 q0 ops q(2) whole0 path, of run dur m]
  obtain w' m' q' where r: "clientReceive ops run dur a pkt (?w0, m) = (w', m')"
    and v: "readerView a (cwConn w') = readerView a (cwConn ?w0)" and req: "cwRequests w' = cwRequests ?w0"
    and q': "chUcrq (chanAt (cwConn w') a) = Some q'"
    and res: "if isServerStatusCompleted (pktStatus pkt)
     then elems q' = rs \<and> chWhole (chanAt (cwConn w') a) = None \<and>
       cwNotify w' = cwNotify (notifyCaller r (pktData whole) ?w0)
     else elems q' = r # rs \<and> chWhole (chanAt (cwConn w') a) = Some whole \<and> cwNotify w' = cwNotify ?w0"
    by blast
  from v a nd have "a < length (cnChans (cwConn w'))" "\<not> chLoopDone (chanAt (cwConn w') a)"
    "chReceivedQueue (chanAt (cwConn w') a) = ps"
    by (simp_all add: readerView_def)
  with q' have ready': "clientReady elems a ps (elems q') w'" by (simp add: clientReady_def)
  have idv: "idView (cwConn w') = idView (cwConn w)" "cnClosedMark (cwConn w') = cnClosedMark (cwConn w)"
    "readView (cwConn w') = readView (cwConn ?w0)" "roundView a (cwConn w') = roundView a (cwConn w)"
    using v a by (simp_all add: readerView_def roundView_def idView_updChan)
  show ?thesis
    using loop r req res ready' n0 idv by (intro exI [of _ w'] exI [of _ m']) (auto split: if_splits)
qed

lemma client_rounds_incomplete:
  assumes "clientReady elems a (ps @ rest) (r # rs) w" "fifoOps ops elems"
    and "\<forall>p \<in> set ps. isServerStatusUncompleted (pktStatus p)"
    and "chWhole (chanAt (cwConn w) a) = Some wh" "pktPath wh \<noteq> PathDeleteChannel"
  shows "\<exists>w' m' wh'. (handleClientLoop ops run dur a Received ^^ length ps) (w, m) = (w', m') \<and>
    clientReady elems a rest (r # rs) w' \<and> cwRequests w' = cwRequests w \<and> cwNotify w' = cwNotify w \<and>
    chWhole (chanAt (cwConn w') a) = Some wh' \<and>
    pktData wh' = pktData wh @ concat (map pktData ps) \<and> pktPath wh' = pktPath wh"
  using assms
proof (induction ps arbitrary: w m wh)
  case (Cons p ps)
  let ?wh = "mergePacket (Some wh) p"
  have st: "\<not> isServerStatusCompleted (pktStatus p)" "pktStatus p \<noteq> Status8"
    using Cons.prems(3) by (auto simp: server_status_defs)
  have wh: "pktPath ?wh = pktPath wh" "pktData ?wh = pktData wh @ pktData p"
    by (simp_all add: mergePacket_def)
  from client_round [OF _ Cons.prems(2) st(2), of a "ps @ rest" r rs w ?wh run dur m]
  obtain w1 m1 where r1: "handleClientLoop ops run dur a Received (w, m) = (w1, m1)"
    "clientReady elems a (ps @ rest) (r # rs) w1" "cwRequests w1 = cwRequests w"
    "cwNotify w1 = cwNotify w" "chWhole (chanAt (cwConn w1) a) = Some ?wh"
    using Cons.prems(1,4,5) st(1) wh(1) by auto
  from Cons.IH [OF r1(2) Cons.prems(2) _ r1(5), of m1] Cons.prems(3,5) wh
  obtain w' m' wh' where "(handleClientLoop ops run dur a Received ^^ length ps) (w1, m1) = (w', m')"
    "clientReady elems a rest (r # rs) w'" "cwRequests w' = cwRequests w1" "cwNotify w' = cwNotify w1"
    "chWhole (chanAt (cwConn w') a) = Some wh'"
    "pktData wh' = pktData ?wh @ concat (map pktData ps)" "pktPath wh' = pktPath ?wh" by auto
  with r1 wh show ?case
    by (intro exI [of _ w'] exI [of _ m'] exI [of _ wh']) (simp add: funpow_swap1)
qed simp

section \<open>Properties of the client's loop\<close>

text \<open>C21: One whole response, the oldest request: when the packets of a whole response (split or
  not) stand at the head of a channel's queue, the loop consumes exactly these packets, takes
  exactly the oldest uncompleted request off the queue, and hands the data of all packets joined
  in order to the caller waiting for that request, whatever the handlers do; the other requests
  keep their order.\<close>

theorem client_response_matched:
  assumes "clientReady elems a ((p # ps) @ rest) (r # rs) w" and "fifoOps ops elems"
    and "chWhole (chanAt (cwConn w) a) = None"
    and "wholeMessage StatusS4 StatusS5 StatusS6 StatusS7 (map pktStatus (p # ps))"
    and "pktPath p \<noteq> PathDeleteChannel"
  shows "\<exists>w' m'. (handleClientLoop ops run dur a Received ^^ length (p # ps)) (w, m) = (w', m') \<and>
    clientReady elems a rest rs w' \<and> chWhole (chanAt (cwConn w') a) = None \<and>
    cwRequests w' = cwRequests w \<and>
    cwNotify w' = cwNotify (notifyCaller r (concat (map pktData (p # ps))) w)"
proof -
  have merge: "mergePacket None p = p" by (simp add: mergePacket_def)
  from assms(4) show ?thesis
  proof (cases rule: whole_message_cases)
    case (single x)
    then have "isServerStatusCompleted (pktStatus p)" "pktStatus p \<noteq> Status8" "ps = []"
      by (simp_all add: server_status_defs)
    with client_round [OF _ assms(2), of a p rest r rs w p run dur m] assms(1,3,5) merge
    show ?thesis by auto
  next
    case (chunked x qs q)
    then have ps: "ps = qs @ [q]" and st: "\<not> isServerStatusCompleted (pktStatus p)"
      "pktStatus p \<noteq> Status8" "isServerStatusCompleted (pktStatus q)" "pktStatus q \<noteq> Status8"
      and inc: "\<forall>x \<in> set qs. isServerStatusUncompleted (pktStatus x)"
      by (auto simp: server_status_defs)
    from client_round [OF _ assms(2) st(2), of a "qs @ q # rest" r rs w p run dur m]
    obtain w1 m1 where r1: "handleClientLoop ops run dur a Received (w, m) = (w1, m1)"
      "clientReady elems a (qs @ q # rest) (r # rs) w1" "cwRequests w1 = cwRequests w"
      "cwNotify w1 = cwNotify w" "chWhole (chanAt (cwConn w1) a) = Some p"
      using assms(1,3,5) st(1) merge by (auto simp: ps)
    from client_rounds_incomplete [OF r1(2) assms(2) inc r1(5) assms(5), of run dur m1]
    obtain w2 m2 wh where r2: "(handleClientLoop ops run dur a Received ^^ length qs) (w1, m1) = (w2, m2)"
      "clientReady elems a (q # rest) (r # rs) w2" "cwRequests w2 = cwRequests w"
      "cwNotify w2 = cwNotify w" "chWhole (chanAt (cwConn w2) a) = Some wh"
      "pktData wh = pktData p @ concat (map pktData qs)" "pktPath wh = pktPath p"
      using r1 by auto
    let ?wh = "mergePacket (Some wh) q"
    have wh: "pktPath ?wh = pktPath p" "pktData ?wh = concat (map pktData (p # ps))"
      using r2 by (simp_all add: mergePacket_def ps)
    have n: "cwNotify (notifyCaller r d w2) = cwNotify (notifyCaller r d w)" for d
      using r2(3,4) by (simp add: notifyCaller_def split: option.split ctxVal.split)
    from client_round [OF r2(2) assms(2) st(4), of ?wh run dur m2]
    obtain w3 m3 where r3: "handleClientLoop ops run dur a Received (w2, m2) = (w3, m3)"
      "clientReady elems a rest rs w3" "cwRequests w3 = cwRequests w"
      "chWhole (chanAt (cwConn w3) a) = None"
      "cwNotify w3 = cwNotify (notifyCaller r (concat (map pktData (p # ps))) w)"
      using r2 st(3) assms(5) wh n by auto
    have len: "length (p # ps) = Suc (length qs + 1)" by (simp add: ps)
    from funpow_chain [OF r1(1) r2(1) r3(1), folded len] r3 show ?thesis by blast
  qed
qed

text \<open>The queue as a list, and a client with one request under way on channel 0.\<close>

definition listOps :: "nat list queueOps" where
  "listOps = \<lparr>PushTail = (\<lambda>x q. q @ [x]), PushHead = (\<lambda>x q. x # q),
     PopHead = (\<lambda>q. case q of [] \<Rightarrow> ([], None) | x # xs \<Rightarrow> (xs, Some x)),
     PopTail = (\<lambda>q. if q = [] then ([], None) else (butlast q, Some (last q)))\<rparr>"

lemma fifo_listOps: "fifoOps listOps (\<lambda>q. q)"
  by (simp add: fifoOps_def listOps_def split: list.split)

definition waitingWorld :: "packet list \<Rightarrow> nat list \<Rightarrow> nat list clientWorld" where
  "waitingWorld ps rs = \<lparr>cwConn = updChan 0 (\<lambda>ch. ch\<lparr>chReceivedQueue := ps\<rparr>)
       (case NewConnection True False ownerZero RoleClient 100 rs of Inr c \<Rightarrow> c | Inl _ \<Rightarrow> undefined),
     cwRequests = [\<lparr>reqCtx = SetCtxData None CtxResponseChan (Some (CvNotify 0)), reqData = [1]\<rparr>],
     cwNotify = \<lparr>nsStore = [None], nsPool = []\<rparr>\<rparr>"

lemma waitingWorld_facts:
  "clientReady (\<lambda>q. q) 0 ps rs (waitingWorld ps rs)"
  "chWhole (chanAt (cwConn (waitingWorld ps rs)) 0) = None"
  "\<not> chClosedMark (chanAt (cwConn (waitingWorld ps rs)) 0)"
  "chId (chanAt (cwConn (waitingWorld ps rs)) 0) = 0"
proof -
  obtain c where c: "NewConnection True False ownerZero RoleClient 100 rs = Inr c"
    by (simp add: NewConnection_def)
  show "clientReady (\<lambda>q. q) 0 ps rs (waitingWorld ps rs)"
    "chWhole (chanAt (cwConn (waitingWorld ps rs)) 0) = None"
    "\<not> chClosedMark (chanAt (cwConn (waitingWorld ps rs)) 0)"
    "chId (chanAt (cwConn (waitingWorld ps rs)) 0) = 0"
    using NewConnection_Inr [OF c] by (simp_all add: waitingWorld_def c clientReady_def)
qed

theorem client_response_matched_witness:
  "\<exists>w' m'. (handleClientLoop listOps (\<lambda>h p r d b. Panicked) 0 0 Received ^^ 2)
      (waitingWorld [samplePacket StatusS4 0 7, samplePacket StatusS7 0 8] [0], None) = (w', m') \<and>
    nsStore (cwNotify w') = [Some [7, 8]] \<and> clientReady (\<lambda>q. q) 0 [] [] w'"
proof -
  let ?p = "samplePacket StatusS4 0 7" and ?q = "samplePacket StatusS7 0 8"
  have "wholeMessage StatusS4 StatusS5 StatusS6 StatusS7 (map pktStatus (?p # [?q]))"
    by (auto simp: wholeMessage_def samplePacket_def intro: exI [of _ "0::nat"])
  moreover have "pktPath ?p \<noteq> PathDeleteChannel"
    by (simp add: samplePacket_def PathDeleteChannel_def)
  moreover have "clientReady (\<lambda>q. q) 0 ([?p, ?q] @ []) [0] (waitingWorld [?p, ?q] [0])"
    using waitingWorld_facts(1) by simp
  moreover have "nsStore (cwNotify (notifyCaller 0 d (waitingWorld [?p, ?q] [0]))) = [Some d]" for d
    by (simp add: notifyCaller_def waitingWorld_def GetCtxData_def SetCtxData_def
        CtxResponseChan_def notifyResponse_def)
  ultimately show ?thesis
    using client_response_matched [of "\<lambda>q. q" 0 ?p "[?q]" "[]" 0 "[]" "waitingWorld [?p, ?q] [0]"
        listOps "\<lambda>h p r d b. Panicked" 0 None] fifo_listOps waitingWorld_facts(2)
    by (auto simp: samplePacket_def numeral_2_eq_2 simp del: funpow.simps)
qed

text \<open>A response nobody asked for: when no request is uncompleted, the loop closes the channel
  and ends; it wakes no caller, leaves the requests alone and the connection open.\<close>

theorem client_unexpected_response:
  assumes "clientReady elems a (p # rest) [] w" and "fifoOps ops elems"
    and "pktStatus p \<noteq> Status8" "\<not> chClosedMark (chanAt (cwConn w) a)"
  shows "\<exists>w'. handleClientLoop ops run dur a Received (w, m) = (w', m) \<and>
    chClosedMark (chanAt (cwConn w') a) \<and> chLoopDone (chanAt (cwConn w') a) \<and>
    chErr (chanAt (cwConn w') a) = Some (TextErr ''request not found'') \<and>
    getChannel (chId (chanAt (cwConn w) a)) (cwConn w') = None \<and>
    cwNotify w' = cwNotify w \<and> cwRequests w' = cwRequests w \<and>
    cnClosedMark (cwConn w') = cnClosedMark (cwConn w)"
proof -
  let ?c0 = "updChan a (\<lambda>ch. ch\<lparr>chReceivedQueue := rest\<rparr>) (cwConn w)"
  from assms(1) obtain q where a: "a < length (cnChans (cwConn w))"
    and nd: "\<not> chLoopDone (chanAt (cwConn w) a)"
    and queue: "chReceivedQueue (chanAt (cwConn w) a) = p # rest"
    and q: "chUcrq (chanAt (cwConn w) a) = Some q" "elems q = []"
    by (auto simp: clientReady_def)
  obtain q1 where pop: "PopHead ops q = (q1, None)"
    using assms(2) q(2) by (cases "PopHead ops q") (auto simp: fifoOps_def dest!: spec [of _ q])
  let ?c1 = "updChan a (\<lambda>ch. ch\<lparr>chUcrq := Some q1\<rparr>) ?c0"
  let ?c2 = "Channel_Close a (Some (TextErr ''request not found'')) ?c1"
  let ?w' = "w\<lparr>cwConn := updChan a (\<lambda>ch. ch\<lparr>chLoopDone := True\<rparr>) ?c2\<rparr>"
  have "chUcrq (chanAt ?c0 a) = Some q" using a q by simp
  then have "handleClientLoop ops run dur a Received (w, m) = (?w', m)"
    using nd queue assms(3) pop
    by (simp add: handleClientLoop_def clientReceive_def Let_def updConn_def)
  moreover have "chanAt ?c2 a = (chanAt ?c1 a)\<lparr>chClosedMark := True,
      chErr := Some (TextErr ''request not found''), chNotifyClosed := True\<rparr>"
    using a assms(4) by (simp add: chanAt_Channel_Close orUnknown_def)
  moreover have "getChannel (chId (chanAt (cwConn w) a)) ?c2 = None"
    using a assms(4) by (simp add: getChannel_def Channel_Close_open delete_conv')
  ultimately show ?thesis
    using a by (intro exI [of _ ?w']) (simp add: getChannel_def)
qed

theorem client_unexpected_response_witness:
  "\<exists>w'. handleClientLoop listOps (\<lambda>h p r d b. Panicked) 0 0 Received
      (waitingWorld [samplePacket StatusS5 0 7] [], None) = (w', None) \<and>
    chLoopDone (chanAt (cwConn w') 0) \<and> getChannel 0 (cwConn w') = None"
  using client_unexpected_response [of "\<lambda>q. q" 0 "samplePacket StatusS5 0 7" "[]"
      "waitingWorld [samplePacket StatusS5 0 7] []" listOps "\<lambda>h p r d b. Panicked" 0 None]
    fifo_listOps waitingWorld_facts
  by (auto simp: samplePacket_def status_defs)

end
