(* ===== verification/Shared.thy ===== *)
theory Shared
  imports Handle "HOL-Library.Char_ord" "HOL-Library.List_Lexorder"
begin

text \<open>
  What the client and the server share: the defaults of their configurations, and their
  reports, that is the text \<open>Measure.String\<close> prints, the JSON that \<open>encoding/json\<close> makes of
  counters and measures, and the statistics of connections.
\<close>

section \<open>Defaults of configurations\<close>

definition seconds :: "nat \<Rightarrow> i64" where
  "seconds n = word_of_nat n * 1000000000"

definition orDefault :: "i64 \<Rightarrow> i64 \<Rightarrow> i64" where
  "orDefault v d = (if sint v \<le> 0 then d else v)"

definition orDefault32 :: "u32 \<Rightarrow> u32 \<Rightarrow> u32" where
  "orDefault32 v d = (if v \<le> 0 then d else v)"

lemma orDefault_pos: "0 < sint d \<Longrightarrow> 0 < sint (orDefault v d)"
  by (simp add: orDefault_def)

section \<open>The text of a measure\<close>

text \<open>The verbs d and percent of package fmt; the template and its arguments.\<close>

fun sprintfD :: "string \<Rightarrow> int list \<Rightarrow> string" where
  "sprintfD [] args = []"
| "sprintfD (c # cs) args =
     (if c = CHR ''%'' then
        (case cs of
           [] \<Rightarrow> ''%!(NOVERB)''
         | v # cs' \<Rightarrow>
             if v = CHR ''%'' then CHR ''%'' # sprintfD cs' args
             else (case args of
                     [] \<Rightarrow> ''%!d(MISSING)'' @ sprintfD cs' []
                   | a # args' \<Rightarrow> showInt a @ sprintfD cs' args'))
      else c # sprintfD cs args)"

definition rangeFormat :: string where
  "rangeFormat = ''(%d,%d%%, average %d)''"

definition rangesFormat :: string where
  "rangesFormat = concat (map (\<lambda>n. ''range'' @ showNat n @ rangeFormat @ '', '') [1..<8])
     @ ''other'' @ rangeFormat"

definition newline :: string where "newline = [CHR 0x0A]"

definition stringFormat :: string where
  "stringFormat = newline
     @ ''5 minute requests     : %d, average duration: %d'' @ newline
     @ ''all requests          : %d, average duration: %d'' @ newline
     @ ''5 minute timecount    : '' @ rangesFormat @ newline
     @ ''all timecount         : '' @ rangesFormat @ newline"

definition Measure_text :: "measure \<Rightarrow> i64 \<Rightarrow> string option" where
  "Measure_text m timeUnit = map_option (\<lambda>figs. sprintfD stringFormat (map sint figs))
     (Measure_String m timeUnit)"

section \<open>JSON of counters and measures\<close>

fun joinWith :: "string \<Rightarrow> string list \<Rightarrow> string" where
  "joinWith sep [] = ''''"
| "joinWith sep [x] = x"
| "joinWith sep (x # y # xs) = x @ sep @ joinWith sep (y # xs)"

definition jsonObject :: "(string \<times> string) list \<Rightarrow> string" where
  "jsonObject kvs =
     ''{'' @ joinWith '','' (map (\<lambda>(k, v). jsonString k @ '':'' @ v) kvs) @ ''}''"

definition jsonArray :: "string list \<Rightarrow> string" where
  "jsonArray xs = ''['' @ joinWith '','' xs @ '']''"

text \<open>A dictionary is printed with its keys in order.\<close>

definition jsonDict :: "(string \<times> string) list \<Rightarrow> string" where
  "jsonDict entries = jsonObject (sort_key fst entries)"

definition jsonInt :: "i64 \<Rightarrow> string" where
  "jsonInt v = showInt (sint v)"

definition Count_Json :: "count \<Rightarrow> string" where
  "Count_Json c = jsonObject
     [(''PacketsSent'', jsonInt (PacketsSent c)), (''PacketReceived'', jsonInt (PacketReceived c)),
      (''WholePacketSent'', jsonInt (WholePacketSent c)),
      (''WholePacketReceived'', jsonInt (WholePacketReceived c)),
      (''BytesSent'', jsonInt (BytesSent c)), (''BytesReceived'', jsonInt (BytesReceived c))]"

definition TimeCount_Json :: "timeCount \<Rightarrow> string" where
  "TimeCount_Json tc = jsonObject
     [(''range_count'', jsonArray (map (\<lambda>r. jsonObject
        [(''Duration'', jsonInt (rsDuration r)), (''Count'', jsonInt (rsCount r))]) tc))]"

definition Measure_Json :: "measure \<Rightarrow> string" where
  "Measure_Json m = jsonObject
     [(''five_minute_requests'', jsonArray (map jsonInt (FiveMinuteRequests m))),
      (''five_minute_duration'', jsonArray (map jsonInt (FiveMinuteDuration m))),
      (''all_requests'', jsonInt (AllRequests m)),
      (''all_duration'', jsonInt (AllDuration m)),
      (''five_minute_timecount'', jsonArray (map TimeCount_Json (FiveMinuteTimeCount m))),
      (''all_timecount'', TimeCount_Json (AllTimeCount m))]"

section \<open>Statistics of connections\<close>

record connectionSatis =
  csChannels :: "(u32 \<times> nat \<times> count) list"
  csWriteQueue :: nat
  csCount :: count

definition connectionStatis :: "'q conn \<Rightarrow> connectionSatis" where
  "connectionStatis c =
     \<lparr>csChannels = map (\<lambda>(cid, a). (cid, length (chReceivedQueue (chanAt c a)), chCount (chanAt c a)))
                     (cnChannels c),
      csWriteQueue = length (cnWriteQueue c), csCount = cnCount c\<rparr>"

definition ConnectionSatis_Json :: "connectionSatis \<Rightarrow> string" where
  "ConnectionSatis_Json cs = jsonObject
     [(''Channels'', jsonDict (map (\<lambda>(cid, queued, cnt).
         (showNat (unat cid), jsonObject [(''ReceiveQueue'', showNat queued), (''Count'', Count_Json cnt)]))
         (csChannels cs))),
      (''WriteQueue'', showNat (csWriteQueue cs)), (''Count'', Count_Json (csCount cs))]"

end
