(* ===== verification/Client.thy ===== *)
theory Client
  imports ClientLoop Shared
begin

text \<open>
  The client of \<open>client.go\<close>: its configuration with defaults, its connections (a Go slice, with
  the array behind it, since \<open>Client.Close\<close> ranges over the slice while closing a connection
  shifts the array), the creation of connections and channels, and the requests: \<open>DoRequest\<close> up
  to the select in which it waits, the two ways the select ends, and \<open>DoStreamRequest\<close>.
  Durations are nanoseconds. Dialling a server is the parameter \<open>dial\<close>, nil or an error.
\<close>

section \<open>Configuration\<close>

record clientConfig =
  ccMaxConnections :: i64
  ccMaxChannelsPerConn :: i64
  ccChannelPacketQueueLen :: u32
  ccTcpWriteQueueLen :: u32
  ccTcpConnectTimeout :: i64
  ccTcpReadBufferSize :: i64
  ccTcpWriteBufferSize :: i64
  ccWaitResponseTimeout :: i64

text \<open>
  A client: \<open>clConns\<close> holds the connection objects by address, \<open>clArray\<close> the array behind the
  slice of connections and \<open>clLen\<close> the length of the slice. Counters are shared by all
  connections, so they are kept here and lent to the connection that works (\<open>onConn\<close>).
\<close>

record ('q, 'h) client =
  clIsTls :: bool
  clTlsCertFile :: string
  clTlsKeyFile :: string
  clConfig :: clientConfig
  clServerAddr :: string
  clConns :: "'q conn list"
  clArray :: "nat list"
  clLen :: nat
  clConnCount :: "32 word"
  clHandler :: "'h handlers"
  clOwner :: owner

definition clientOwner :: "(i64 \<Rightarrow> i64) option \<Rightarrow> owner" where
  "clientOwner rangeFunc = \<lparr>owCount = zeroCount, owMeasure = NewMesure rangeFunc, owPathCount = [],
                            owPathMeasure = []\<rparr>"

text \<open>\<open>NewClient\<close>: values that are not positive get defaults; one channel is added for channel 0.\<close>

definition NewClient :: "clientConfig \<Rightarrow> string \<Rightarrow> (i64 \<Rightarrow> i64) option \<Rightarrow> ('q, 'h) client" where
  "NewClient config serverAddr rangeFunc =
     \<lparr>clIsTls = False, clTlsCertFile = '''', clTlsKeyFile = '''',
      clConfig =
        \<lparr>ccMaxConnections = orDefault (ccMaxConnections config) 1000,
         ccMaxChannelsPerConn = orDefault (ccMaxChannelsPerConn config) 10 + 1,
         ccChannelPacketQueueLen = orDefault32 (ccChannelPacketQueueLen config) 100,
         ccTcpWriteQueueLen = orDefault32 (ccTcpWriteQueueLen config) 100,
         ccTcpConnectTimeout = orDefault (ccTcpConnectTimeout config) (seconds 3),
         ccTcpReadBufferSize = orDefault (ccTcpReadBufferSize config) (16 * 1024),
         ccTcpWriteBufferSize = orDefault (ccTcpWriteBufferSize config) (16 * 1024),
         ccWaitResponseTimeout = orDefault (ccWaitResponseTimeout config) (seconds 5)\<rparr>,
      clServerAddr = serverAddr, clConns = [], clArray = [], clLen = 0, clConnCount = 0,
      clHandler = None, clOwner = clientOwner rangeFunc\<rparr>"

text \<open>\<open>NewClientTLS\<close> takes the configuration as it is.\<close>

definition NewClientTLS ::
    "clientConfig \<Rightarrow> string \<Rightarrow> (i64 \<Rightarrow> i64) option \<Rightarrow> string \<Rightarrow> string \<Rightarrow> ('q, 'h) client" where
  "NewClientTLS config serverAddr rangeFunc certFile keyFile =
     \<lparr>clIsTls = True, clTlsCertFile = certFile, clTlsKeyFile = keyFile, clConfig = config,
      clServerAddr = serverAddr, clConns = [], clArray = [], clLen = 0, clConnCount = 0,
      clHandler = None, clOwner = clientOwner rangeFunc\<rparr>"

section \<open>Connections\<close>

text \<open>The slice \<open>connections\<close>, appending to it, and taking the element at \<open>i\<close> out in place.\<close>

definition connections :: "('q, 'h) client \<Rightarrow> nat list" where
  "connections cl = take (clLen cl) (clArray cl)"

definition appendConn :: "nat \<Rightarrow> ('q, 'h) client \<Rightarrow> ('q, 'h) client" where
  "appendConn a cl = cl\<lparr>clArray := (if clLen cl < length (clArray cl)
      then (clArray cl)[clLen cl := a] else clArray cl @ [a]), clLen := clLen cl + 1\<rparr>"

definition deleteAt :: "nat \<Rightarrow> ('q, 'h) client \<Rightarrow> ('q, 'h) client" where
  "deleteAt i cl = cl\<lparr>clArray := take i (clArray cl) @ drop (i + 1) (connections cl)
      @ drop (clLen cl - 1) (clArray cl), clLen := clLen cl - 1\<rparr>"

definition onConn :: "nat \<Rightarrow> ('q conn \<Rightarrow> 'q conn) \<Rightarrow> ('q, 'h) client \<Rightarrow> ('q, 'h) client" where
  "onConn a f cl =
     (let c = f ((clConns cl ! a)\<lparr>cnOwner := clOwner cl\<rparr>)
      in cl\<lparr>clConns := (clConns cl)[a := c], clOwner := cnOwner c\<rparr>)"

text \<open>
  \<open>newConnection\<close>: the limit is checked first and the new connection entered last, after the
  server was dialled.
\<close>

definition Client_limitReached :: "('q, 'h) client \<Rightarrow> bool" where
  "Client_limitReached cl \<longleftrightarrow> int (length (connections cl)) \<ge> sint (ccMaxConnections (clConfig cl))"

definition Client_enterConnection :: "'q \<Rightarrow> ('q, 'h) client \<Rightarrow> ('q, 'h) client \<times> (gerr + nat)" where
  "Client_enterConnection ucrq cl =
     (case NewConnection True False (clOwner cl) RoleClient
             (unat (ccTcpWriteQueueLen (clConfig cl))) ucrq of
        Inl e \<Rightarrow> (cl, Inl e)
      | Inr c \<Rightarrow>
          let a = length (clConns cl);
              c1 = c\<lparr>cnCtx := SetCtxData (cnCtx c) CtxClient (Some CvClient)\<rparr>;
              cl1 = appendConn a (cl\<lparr>clConns := clConns cl @ [c1]\<rparr>)
          in (cl1\<lparr>clConnCount := clConnCount cl1 + 1\<rparr>, Inr a))"

definition Client_newConnection ::
    "gerr option \<Rightarrow> 'q \<Rightarrow> ('q, 'h) client \<Rightarrow> ('q, 'h) client \<times> (gerr + nat)" where
  "Client_newConnection dial ucrq cl =
     (if Client_limitReached cl then (cl, Inl ErrClientConnectionsLimited)
      else case dial of
        Some e \<Rightarrow> (cl, Inl e)
      | None \<Rightarrow> Client_enterConnection ucrq cl)"

text \<open>
  The first entry of the connection leaves the slice; the method then closes the connection,
  which is a no-op when \<open>Connection.Close\<close> called it.
\<close>

fun findIndex :: "nat \<Rightarrow> nat list \<Rightarrow> nat option" where
  "findIndex a [] = None"
| "findIndex a (x # xs) = (if x = a then Some 0 else map_option Suc (findIndex a xs))"

definition Client_dropConnection :: "nat \<Rightarrow> ('q, 'h) client \<Rightarrow> ('q, 'h) client" where
  "Client_dropConnection a cl =
     (case findIndex a (connections cl) of
        None \<Rightarrow> cl
      | Some i \<Rightarrow> deleteAt i (cl\<lparr>clConnCount := clConnCount cl - 1\<rparr>))"

text \<open>\<open>Connection.Close\<close> of a connection of this client, with its call of \<open>removeConnection\<close>.\<close>

definition Client_closeConn :: "nat \<Rightarrow> gerr option \<Rightarrow> ('q, 'h) client \<Rightarrow> ('q, 'h) client" where
  "Client_closeConn a err cl =
     (if Connection_Closed (clConns cl ! a) then cl
      else onConn a (Connection_Close err)
             (if GetCtxData (cnCtx (clConns cl ! a)) CtxServer = None \<and>
                 GetCtxData (cnCtx (clConns cl ! a)) CtxClient \<noteq> None
              then Client_dropConnection a cl else cl))"

definition Client_removeConnection :: "nat \<Rightarrow> ('q, 'h) client \<Rightarrow> ('q, 'h) client" where
  "Client_removeConnection a cl =
     (if a \<in> set (connections cl)
      then Client_closeConn a (Some (TextErr ''from Client.removeConnection''))
             (Client_dropConnection a cl)
      else cl)"

text \<open>\<open>Client.Close\<close> ranges over the slice as it was, reading its array as it is.\<close>

fun closeRange :: "nat \<Rightarrow> nat \<Rightarrow> ('q, 'h) client \<Rightarrow> ('q, 'h) client" where
  "closeRange i 0 cl = cl"
| "closeRange i (Suc n) cl = closeRange (i + 1) n (Client_closeConn (clArray cl ! i) None cl)"

definition Client_Close :: "('q, 'h) client \<Rightarrow> ('q, 'h) client" where
  "Client_Close cl = closeRange 0 (clLen cl) cl"

definition Client_getFreeConnection ::
    "gerr option \<Rightarrow> 'q \<Rightarrow> ('q, 'h) client \<Rightarrow> ('q, 'h) client \<times> (gerr + nat)" where
  "Client_getFreeConnection dial ucrq cl =
     (case find (\<lambda>a. int (length (cnChannels (clConns cl ! a)))
                      < sint (ccMaxChannelsPerConn (clConfig cl))) (connections cl) of
        Some a \<Rightarrow> (cl, Inr a)
      | None \<Rightarrow> Client_newConnection dial ucrq cl)"

section \<open>Statistics of connections\<close>

text \<open>\<open>GetConnectionStatis\<close>: the statistics of the connections by their place in the slice.\<close>

definition Client_GetConnectionStatis :: "('q, 'h) client \<Rightarrow> byte list" where
  "Client_GetConnectionStatis cl = bytesOf (jsonDict
     (map (\<lambda>(i, a). (showNat i, ConnectionSatis_Json (connectionStatis (clConns cl ! a))))
        (enumerate 0 (connections cl))))"

section \<open>Handlers\<close>

definition Client_RegisterHandler :: "(string \<Rightarrow> gerr + 'u) \<Rightarrow> string \<Rightarrow> 'h option \<Rightarrow>
    ('q, 'h) client \<Rightarrow> ('q, 'h) client \<times> gerr option" where
  "Client_RegisterHandler parse path handler cl =
     (let (m, err) = client_registerHandler parse (clHandler cl) path handler
      in (cl\<lparr>clHandler := m\<rparr>, err))"

definition Client_UnRegisterHandler :: "string \<Rightarrow> ('q, 'h) client \<Rightarrow> ('q, 'h) client" where
  "Client_UnRegisterHandler path cl =
     cl\<lparr>clHandler := client_unRegisterHandler (clHandler cl) path\<rparr>"

section \<open>Requests\<close>

text \<open>A request either fails or waits for the response; calling a method on a nil error panics.\<close>

datatype sending = SendPanics | SendFails gerr | Sent

definition requestPacket :: "'q conn \<Rightarrow> nat \<Rightarrow> string \<Rightarrow> byte list \<Rightarrow> packet" where
  "requestPacket c a path data =
     \<lparr>pktType = PacketTypeRequest, pktStatus = 0, pktPath = path,
      pktChannelId = chId (chanAt c a), pktData = data, pktDontChunk = True,
      pktChannel = Some a, pktParams = None\<rparr>"

definition updQueue :: "nat \<Rightarrow> ('q \<Rightarrow> 'q) \<Rightarrow> 'q conn \<Rightarrow> 'q conn" where
  "updQueue a f = updChan a (\<lambda>ch. ch\<lparr>chUcrq := map_option f (chUcrq ch)\<rparr>)"

text \<open>Under the lock: the request is queued, its packet sent, and on failure taken back.\<close>

definition enqueueRequest :: "'q queueOps \<Rightarrow> (nat \<Rightarrow> 'q conn \<Rightarrow> 'q conn) \<Rightarrow> nat \<Rightarrow> nat \<Rightarrow> packet \<Rightarrow>
    'q conn \<Rightarrow> 'q conn \<times> gerr option" where
  "enqueueRequest ops env a r pkt c =
     (case SendPacket env a pkt (updQueue a (PushTail ops r) c) of
        (c1, None) \<Rightarrow> (c1, None)
      | (c1, Some e) \<Rightarrow> (updQueue a (\<lambda>q. fst (PopTail ops q)) c1, Some e))"

definition invalidChannel :: "gerr \<Rightarrow> gerr" where
  "invalidChannel e = TextErr (''this channel is invalid, ['' @ errorText e @ '']'')"

definition updRequest :: "nat \<Rightarrow> (ctxVal request \<Rightarrow> ctxVal request) \<Rightarrow> 'q clientWorld \<Rightarrow> 'q clientWorld" where
  "updRequest r f w = w\<lparr>cwRequests := (cwRequests w)[r := f (cwRequests w ! r)]\<rparr>"

text \<open>\<open>DoRequest\<close> before it waits. \<open>a\<close> is the internal channel, \<open>r\<close> the request, \<open>pick\<close> what the
  pool of notify channels hands out; the second result is the notify channel.\<close>

definition releaseRequest :: "nat \<Rightarrow> nat \<Rightarrow> 'q clientWorld \<Rightarrow> 'q clientWorld" where
  "releaseRequest r n w =
     (let w1 = updRequest r (\<lambda>rq. rq\<lparr>reqCtx := RemoveCtxData (reqCtx rq) CtxResponseChan\<rparr>) w
      in w1\<lparr>cwNotify := releaseNotifyChan n (cwNotify w1)\<rparr>)"

definition DoRequest :: "(string \<Rightarrow> gerr + 'u) \<Rightarrow> 'q queueOps \<Rightarrow> (nat \<Rightarrow> 'q conn \<Rightarrow> 'q conn) \<Rightarrow>
    nat option \<Rightarrow> nat option \<Rightarrow> string \<Rightarrow> nat \<Rightarrow> 'q clientWorld \<Rightarrow> 'q clientWorld \<times> sending \<times> nat" where
  "DoRequest parse ops env pick internalChannel path r w =
     (case internalChannel of
        None \<Rightarrow> (w, SendFails (TextErr ''internal channl is nil''), 0)
      | Some a \<Rightarrow>
          let c = cwConn w; ch = chanAt c a in
          if chErr ch \<noteq> None \<or> Connection_Closed c then
            (w, case chErr ch of None \<Rightarrow> SendPanics | Some e \<Rightarrow> SendFails (invalidChannel e), 0)
          else if \<not> ValidatePath parse path then
            (w, SendFails (TextErr (''invalid path of request: '' @ path)), 0)
          else let pkt = requestPacket c a path (reqData (cwRequests w ! r)) in
          if length (pktData pkt) = 0 then (w, SendFails (TextErr ''request.Data() is nil''), 0)
          else
            let (ns, n) = acquireNotifyChan pick (cwNotify w);
                w1 = updRequest r (\<lambda>rq. rq\<lparr>reqCtx :=
                       SetCtxData (reqCtx rq) CtxResponseChan (Some (CvNotify n))\<rparr>) (w\<lparr>cwNotify := ns\<rparr>)
            in case enqueueRequest ops env a r pkt (cwConn w1) of
                 (c2, Some e) \<Rightarrow> (releaseRequest r n (w1\<lparr>cwConn := c2\<rparr>), SendFails e, n)
               | (c2, None) \<Rightarrow> (w1\<lparr>cwConn := c2\<rparr>, Sent, n))"

definition requestTimeout :: "i64 \<Rightarrow> i64" where
  "requestTimeout timeout = orDefault timeout (seconds 3)"

text \<open>The select: the timer fires, or the response is taken from the notify channel.\<close>

definition DoRequest_timeout :: "nat \<Rightarrow> nat \<Rightarrow> 'q clientWorld \<Rightarrow> 'q clientWorld \<times> (gerr + byte list)" where
  "DoRequest_timeout r n w = (releaseRequest r n w, Inl ErrRequestTimeout)"

definition DoRequest_response ::
    "nat \<Rightarrow> nat \<Rightarrow> 'q clientWorld \<Rightarrow> ('q clientWorld \<times> (gerr + byte list)) option" where
  "DoRequest_response r n w =
     (case nsStore (cwNotify w) ! n of
        None \<Rightarrow> None
      | Some resp \<Rightarrow> Some (releaseRequest r n
          (w\<lparr>cwNotify := (cwNotify w)\<lparr>nsStore := (nsStore (cwNotify w))[n := None]\<rparr>\<rparr>), Inr resp))"

definition DoStreamRequest :: "(string \<Rightarrow> gerr + 'u) \<Rightarrow> 'q queueOps \<Rightarrow> (nat \<Rightarrow> 'q conn \<Rightarrow> 'q conn) \<Rightarrow>
    nat option \<Rightarrow> string \<Rightarrow> nat \<Rightarrow> 'q clientWorld \<Rightarrow> 'q clientWorld \<times> sending" where
  "DoStreamRequest parse ops env internalChannel path r w =
     (case internalChannel of
        None \<Rightarrow> (w, SendFails (TextErr ''internal channl is nil''))
      | Some a \<Rightarrow>
          let c = cwConn w; ch = chanAt c a in
          if chErr ch \<noteq> None \<or> Connection_Closed c then
            (w, case chErr ch of None \<Rightarrow> SendPanics | Some e \<Rightarrow> SendFails (invalidChannel e))
          else if \<not> ValidatePath parse path then
            (w, SendFails (TextErr (''invalid path: '' @ path)))
          else let pkt = requestPacket c a path (reqData (cwRequests w ! r)) in
          if length (pktData pkt) = 0 then (w, SendFails (TextErr ''request.Data() is nil''))
          else case enqueueRequest ops env a r pkt c of
            (c2, Some e) \<Rightarrow> (w\<lparr>cwConn := c2\<rparr>, SendFails e)
          | (c2, None) \<Rightarrow> (w\<lparr>cwConn := c2\<rparr>, Sent))"

text \<open>
  The end of \<open>Client.newChannel\<close>, when the response to the request for a channel has come.
  \<open>unmarshal\<close> is the JSON decoder for the fields code, message and channel id.
\<close>

definition newChannelRequest :: "ctxVal request" where
  "newChannelRequest = NewDefaultRequest (bytesOf ''{}'')"

definition Client_finishNewChannel ::
    "(byte list \<Rightarrow> gerr + int \<times> string \<times> u32) \<Rightarrow> nat \<Rightarrow> 'q \<Rightarrow> clientConfig \<Rightarrow> gerr + byte list \<Rightarrow>
     'q conn \<Rightarrow> 'q conn \<times> (gerr + nat)" where
  "Client_finishNewChannel unmarshal pick ucrq config resp c =
     (case resp of
        Inl e \<Rightarrow> (c, Inl (TextErr (''new sys channel fail, '' @ errorText e)))
      | Inr bts \<Rightarrow>
          (case unmarshal bts of
             Inl e \<Rightarrow> (c, Inl e)
           | Inr (code, message, channelId) \<Rightarrow>
               if channelId > 0 \<and> code = 0 then
                 let (c1, a) = newChannel pick False (unat (ccChannelPacketQueueLen config))
                       [(CtxUncompletedRequestChan, Some CvQueue), (CtxClient, Some CvClient),
                        (CtxClientChannel, Some (CvClientChannel (length (cnChans c))))] []
                       (Some ucrq) c
                 in (c1, Inr a)
               else (c, Inl (TextErr message))))"

text \<open>Methods of \<open>ClientChannel\<close> that act on its internal channel.\<close>

definition ClientChannel_Close :: "nat option \<Rightarrow> gerr option \<Rightarrow> 'q conn \<Rightarrow> 'q conn" where
  "ClientChannel_Close internalChannel err c =
     (case internalChannel of None \<Rightarrow> c | Some a \<Rightarrow> Channel_Close a err c)"

definition ClientChannel_SetCtx :: "nat \<Rightarrow> string \<Rightarrow> ctxVal option \<Rightarrow> 'q conn \<Rightarrow> 'q conn" where
  "ClientChannel_SetCtx a key v = updChan a (\<lambda>ch. ch\<lparr>chCtx := SetCtxData (chCtx ch) key v\<rparr>)"

definition ClientChannel_GetCtx :: "nat \<Rightarrow> string \<Rightarrow> 'q conn \<Rightarrow> ctxVal option" where
  "ClientChannel_GetCtx a key c = GetCtxData (chCtx (chanAt c a)) key"

section \<open>The slice of connections\<close>

definition sliceOk :: "('q, 'h) client \<Rightarrow> bool" where
  "sliceOk cl \<longleftrightarrow> clLen cl \<le> length (clArray cl)"

lemma length_connections [simp]: "sliceOk cl \<Longrightarrow> length (connections cl) = clLen cl"
  by (simp add: connections_def sliceOk_def)

lemma appendConn_simps:
  assumes "sliceOk cl"
  shows "connections (appendConn a cl) = connections cl @ [a]" "sliceOk (appendConn a cl)"
  using assms
  by (auto simp: connections_def appendConn_def sliceOk_def take_Suc_conv_app_nth)

lemma deleteAt_simps:
  assumes "sliceOk cl" "i < clLen cl"
  shows "connections (deleteAt i cl) = take i (connections cl) @ drop (i + 1) (connections cl)"
    "sliceOk (deleteAt i cl)" "clArray (deleteAt i cl) =
      take i (connections cl) @ drop (i + 1) (connections cl) @ drop (clLen cl - 1) (clArray cl)"
proof -
  have arr: "clArray (deleteAt i cl) =
      (take i (connections cl) @ drop (i + 1) (connections cl)) @ drop (clLen cl - 1) (clArray cl)"
    using assms by (simp add: deleteAt_def connections_def min_def)
  have len: "length (take i (connections cl) @ drop (i + 1) (connections cl)) = clLen cl - 1"
    using assms by simp
  show "connections (deleteAt i cl) = take i (connections cl) @ drop (i + 1) (connections cl)"
  proof -
    have "clLen (deleteAt i cl) = clLen cl - 1" by (simp add: deleteAt_def)
    then show ?thesis
      unfolding connections_def [of "deleteAt i cl"] arr using len by (metis append_eq_conv_conj)
  qed
  show "sliceOk (deleteAt i cl)"
    using assms by (simp add: sliceOk_def deleteAt_def connections_def)
  show "clArray (deleteAt i cl) =
      take i (connections cl) @ drop (i + 1) (connections cl) @ drop (clLen cl - 1) (clArray cl)"
    using arr by simp
qed

lemma clClient_frame [simp]:
  "clConns (appendConn a cl) = clConns cl" "clConfig (appendConn a cl) = clConfig cl"
  "clConnCount (appendConn a cl) = clConnCount cl"
  "clConns (deleteAt i cl) = clConns cl" "clConfig (deleteAt i cl) = clConfig cl"
  "clConnCount (deleteAt i cl) = clConnCount cl" "clLen (deleteAt i cl) = clLen cl - 1"
  "clArray (onConn a f cl) = clArray cl" "clLen (onConn a f cl) = clLen cl"
  "clConfig (onConn a f cl) = clConfig cl" "clConnCount (onConn a f cl) = clConnCount cl"
  "connections (onConn a f cl) = connections cl" "sliceOk (onConn a f cl) = sliceOk cl"
  "length (clConns (onConn a f cl)) = length (clConns cl)"
  by (simp_all add: appendConn_def deleteAt_def onConn_def connections_def sliceOk_def Let_def)

lemma clConns_onConn:
  "b < length (clConns cl) \<Longrightarrow> clConns (onConn a f cl) ! b =
     (if a = b then f ((clConns cl ! a)\<lparr>cnOwner := clOwner cl\<rparr>) else clConns cl ! b)"
  by (simp add: onConn_def Let_def nth_list_update)

lemma findIndex_Some:
  "findIndex a xs = Some i \<Longrightarrow> i < length xs \<and> xs ! i = a"
  by (induction xs arbitrary: i) (auto split: if_splits)

lemma findIndex_None: "findIndex a xs = None \<longleftrightarrow> a \<notin> set xs"
  by (induction xs) auto

lemma findIndex_remove:
  "findIndex a xs = Some i \<Longrightarrow> take i xs @ drop (i + 1) xs = remove1 a xs"
  by (induction xs arbitrary: i) (auto split: if_splits)

lemma dropConnection_simps:
  assumes "sliceOk cl"
  shows "connections (Client_dropConnection a cl) = remove1 a (connections cl)"
    "sliceOk (Client_dropConnection a cl)"
    "clConns (Client_dropConnection a cl) = clConns cl"
    "clConfig (Client_dropConnection a cl) = clConfig cl"
    "clConnCount (Client_dropConnection a cl) =
      (if a \<in> set (connections cl) then clConnCount cl - 1 else clConnCount cl)"
proof -
  let ?c = "cl\<lparr>clConnCount := clConnCount cl - 1\<rparr>"
  have c: "sliceOk ?c" "connections ?c = connections cl" "clLen ?c = clLen cl"
    using assms by (simp_all add: sliceOk_def connections_def)
  have "connections (Client_dropConnection a cl) = remove1 a (connections cl) \<and>
    sliceOk (Client_dropConnection a cl) \<and>
    clConns (Client_dropConnection a cl) = clConns cl \<and>
    clConfig (Client_dropConnection a cl) = clConfig cl \<and>
    clConnCount (Client_dropConnection a cl) =
      (if a \<in> set (connections cl) then clConnCount cl - 1 else clConnCount cl)"
  proof (cases "findIndex a (connections cl)")
    case None
    then have "a \<notin> set (connections cl)" by (simp add: findIndex_None)
    with None assms show ?thesis by (simp add: Client_dropConnection_def remove1_idem)
  next
    case (Some i)
    with findIndex_Some [OF Some] have "i < clLen ?c" "a \<in> set (connections cl)"
      using assms by auto
    with Some deleteAt_simps [OF c(1), of i] findIndex_remove [OF Some] c show ?thesis
      by (simp add: Client_dropConnection_def)
  qed
  then show "connections (Client_dropConnection a cl) = remove1 a (connections cl)"
    "sliceOk (Client_dropConnection a cl)"
    "clConns (Client_dropConnection a cl) = clConns cl"
    "clConfig (Client_dropConnection a cl) = clConfig cl"
    "clConnCount (Client_dropConnection a cl) =
      (if a \<in> set (connections cl) then clConnCount cl - 1 else clConnCount cl)" by simp_all
qed

section \<open>The invariant of the connections\<close>

text \<open>The slice holds the open connections, each once; the counter agrees; the limit holds.\<close>

definition clientConn :: "'q conn \<Rightarrow> bool" where
  "clientConn c \<longleftrightarrow> GetCtxData (cnCtx c) CtxServer = None \<and> GetCtxData (cnCtx c) CtxClient \<noteq> None"

definition clientInv :: "('q, 'h) client \<Rightarrow> bool" where
  "clientInv cl \<longleftrightarrow> sliceOk cl \<and> distinct (connections cl) \<and>
     set (connections cl) = {a. a < length (clConns cl) \<and> \<not> cnClosedMark (clConns cl ! a)} \<and>
     (\<forall>c \<in> set (clConns cl). clientConn c) \<and>
     clConnCount cl = word_of_nat (length (connections cl)) \<and>
     int (length (connections cl)) \<le> max 0 (sint (ccMaxConnections (clConfig cl)))"

inductive clientStep :: "('q, 'h) client \<Rightarrow> ('q, 'h) client \<Rightarrow> bool" where
  NewConn: "clientStep cl (fst (Client_newConnection dial ucrq cl))"
| FreeConn: "clientStep cl (fst (Client_getFreeConnection dial ucrq cl))"
| RemoveConn: "a < length (clConns cl) \<Longrightarrow> clientStep cl (Client_removeConnection a cl)"
| CloseConn: "a < length (clConns cl) \<Longrightarrow> clientStep cl (Client_closeConn a err cl)"

definition clientStart :: "('q, 'h) client \<Rightarrow> bool" where
  "clientStart cl \<longleftrightarrow> (\<exists>cfg addr f. cl = NewClient cfg addr f) \<or>
     (\<exists>cfg addr f cert key. cl = NewClientTLS cfg addr f cert key)"

lemma clientInv_start: "clientStart cl \<Longrightarrow> clientInv cl"
  by (auto simp: clientStart_def clientInv_def NewClient_def NewClientTLS_def connections_def
      sliceOk_def)

lemma context_keys: "CtxClient \<noteq> ''''" "CtxServer \<noteq> CtxClient" "CtxClient \<noteq> CtxServer"
  by (simp_all add: CtxClient_def CtxServer_def)

lemma clientInv_new:
  assumes inv: "clientInv cl"
  shows "clientInv (fst (Client_newConnection dial ucrq cl))"
proof (cases "Client_limitReached cl \<or> dial \<noteq> None")
  case True
  then show ?thesis using inv by (auto simp: Client_newConnection_def split: option.split)
next
  case False
  obtain c where c: "NewConnection True False (clOwner cl) RoleClient
      (unat (ccTcpWriteQueueLen (clConfig cl))) ucrq = Inr c"
    by (simp add: NewConnection_def)
  have cc: "\<not> cnClosedMark c" "cnCtx c = SetCtxData None CtxClient (Some CvClient)"
    using NewConnection_Inr [OF c] c
    by (auto simp: NewConnection_def newChannel_def enterChannel_def Let_def)
  let ?c = "c\<lparr>cnCtx := SetCtxData (cnCtx c) CtxClient (Some CvClient)\<rparr>"
  let ?b = "length (clConns cl)"
  let ?cl0 = "cl\<lparr>clConns := clConns cl @ [?c]\<rparr>"
  let ?cl1 = "appendConn ?b ?cl0"
  have e: "fst (Client_newConnection dial ucrq cl) = ?cl1\<lparr>clConnCount := clConnCount cl + 1\<rparr>"
    using False c by (simp add: Client_newConnection_def Client_enterConnection_def Let_def)
  have s0: "sliceOk ?cl0" "connections ?cl0 = connections cl"
    using inv by (simp_all add: clientInv_def sliceOk_def connections_def)
  note app = appendConn_simps [OF s0(1), of ?b]
  have conns: "connections (?cl1\<lparr>clConnCount := n\<rparr>) = connections cl @ [?b]" for n
    using app s0 by (simp add: connections_def)
  have slice: "sliceOk (?cl1\<lparr>clConnCount := n\<rparr>)" for n using app by (simp add: sliceOk_def)
  have "?b \<notin> set (connections cl)" using inv by (auto simp: clientInv_def)
  moreover have "int (length (connections cl)) < sint (ccMaxConnections (clConfig cl))"
    using False by (auto simp: Client_limitReached_def)
  moreover have "clientConn ?c"
    by (simp add: clientConn_def cc default_context.get_put context_keys default_context.get_new)
  ultimately show ?thesis
    using inv cc(1) unfolding e clientInv_def conns
    by (auto simp: slice nth_append less_Suc_eq)
qed

lemma clientInv_free:
  assumes "clientInv cl"
  shows "clientInv (fst (Client_getFreeConnection dial ucrq cl))"
  using assms clientInv_new by (auto simp: Client_getFreeConnection_def split: option.split)

lemma clientInv_close:
  assumes inv: "clientInv cl" and a: "a < length (clConns cl)"
  shows "clientInv (Client_closeConn a err cl)"
proof (cases "cnClosedMark (clConns cl ! a)")
  case True
  then show ?thesis using inv by (simp add: Client_closeConn_def Connection_Closed_def)
next
  case False
  from inv have s: "sliceOk cl" by (simp add: clientInv_def)
  let ?d = "Client_dropConnection a cl"
  note d = dropConnection_simps [OF s, of a]
  from inv a have "clientConn (clConns cl ! a)" by (simp add: clientInv_def)
  then have e: "Client_closeConn a err cl = onConn a (Connection_Close err) ?d"
    using False by (simp add: Client_closeConn_def Connection_Closed_def clientConn_def)
  have mem: "a \<in> set (connections cl)" using inv a False by (simp add: clientInv_def)
  have marks: "cnClosedMark (clConns (Client_closeConn a err cl) ! b) =
      (b = a \<or> cnClosedMark (clConns cl ! b))" if "b < length (clConns cl)" for b
    unfolding e using that d(3) by (simp add: clConns_onConn)
  have ctx: "cnCtx (clConns (Client_closeConn a err cl) ! b) = cnCtx (clConns cl ! b)"
    if "b < length (clConns cl)" for b
    unfolding e using that d(3) by (auto simp: clConns_onConn)
  have len: "length (clConns (Client_closeConn a err cl)) = length (clConns cl)"
    unfolding e using d(3) by simp
  have conns: "connections (Client_closeConn a err cl) = remove1 a (connections cl)"
    unfolding e using d(1) by simp
  have cnt: "clConnCount (Client_closeConn a err cl) = clConnCount cl - 1"
    unfolding e using d(5) mem by simp
  have cfg: "clConfig (Client_closeConn a err cl) = clConfig cl" unfolding e using d(4) by simp
  have "\<forall>c \<in> set (clConns (Client_closeConn a err cl)). clientConn c"
  proof
    fix c
    assume "c \<in> set (clConns (Client_closeConn a err cl))"
    then obtain i where "i < length (clConns cl)" "c = clConns (Client_closeConn a err cl) ! i"
      by (metis in_set_conv_nth len)
    moreover have "clientConn (clConns cl ! i)" using inv calculation(1) by (simp add: clientInv_def)
    ultimately show "clientConn c" using ctx by (simp add: clientConn_def)
  qed
  moreover have "sliceOk (Client_closeConn a err cl)" unfolding e using d(2) by simp
  moreover have "length (remove1 a (connections cl)) = length (connections cl) - 1"
    "0 < length (connections cl)"
    using mem by (auto simp: length_remove1 intro: length_pos_if_in_set)
  moreover have "set (remove1 a (connections cl)) = set (connections cl) - {a}"
    using inv by (simp add: clientInv_def)
  ultimately show ?thesis
    using inv marks of_nat_diff [of 1 "length (connections cl)", where 'a = "32 word"]
    unfolding clientInv_def conns cnt cfg len by auto
qed

lemma clientInv_remove:
  assumes inv: "clientInv cl" and a: "a < length (clConns cl)"
  shows "clientInv (Client_removeConnection a cl)"
proof (cases "a \<in> set (connections cl)")
  case False
  then show ?thesis using inv by (simp add: Client_removeConnection_def)
next
  case True
  from inv have s: "sliceOk cl" and dis: "distinct (connections cl)" by (simp_all add: clientInv_def)
  have open_: "\<not> cnClosedMark (clConns cl ! a)" using inv True by (auto simp: clientInv_def)
  let ?d = "Client_dropConnection a cl"
  note d = dropConnection_simps [OF s, of a]
  have "a \<notin> set (connections ?d)" using d(1) dis by simp
  then have "Client_dropConnection a ?d = ?d"
    by (simp add: Client_dropConnection_def findIndex_None [THEN iffD2])
  then have "Client_removeConnection a cl =
      Client_closeConn a (Some (TextErr ''from Client.removeConnection'')) cl"
    using True inv a open_ d(3)
    by (simp add: Client_removeConnection_def Client_closeConn_def Connection_Closed_def
        clientInv_def clientConn_def)
  then show ?thesis using clientInv_close [OF inv a] by simp
qed

interpretation client_conns: invariant_of clientStart clientStep clientInv
proof
  fix s t :: "('q, 'h) client"
  show "clientStart s \<Longrightarrow> clientInv s" by (rule clientInv_start)
  assume inv: "clientInv s" and step: "clientStep s t"
  from step inv show "clientInv t"
    by cases (auto intro: clientInv_new clientInv_free clientInv_remove clientInv_close)
qed

section \<open>Properties of configurations and connections\<close>

text \<open>The configuration of a client made by \<open>NewClient\<close> is usable whatever was passed: every
  limit, queue length, buffer size and time is positive; values that were positive are kept, and
  a connection may have at least two channels, unless the limit was the largest integer, which
  wraps to a negative one.\<close>

theorem NewClient_config_usable:
  "cfg = clConfig (NewClient config addr f) \<longrightarrow>
     0 < sint (ccMaxConnections cfg) \<and> 0 < ccChannelPacketQueueLen cfg \<and>
     0 < ccTcpWriteQueueLen cfg \<and> 0 < sint (ccTcpConnectTimeout cfg) \<and>
     0 < sint (ccTcpReadBufferSize cfg) \<and> 0 < sint (ccTcpWriteBufferSize cfg) \<and>
     0 < sint (ccWaitResponseTimeout cfg) \<and>
     (0 < sint (ccMaxConnections config) \<longrightarrow> ccMaxConnections cfg = ccMaxConnections config) \<and>
     (if sint (ccMaxChannelsPerConn config) = 2 ^ 63 - 1 then sint (ccMaxChannelsPerConn cfg) < 0
      else 2 \<le> sint (ccMaxChannelsPerConn cfg))"
proof -
  have d: "0 < sint (1000 :: i64)" "0 < sint (seconds 3)" "0 < sint (seconds 5)"
    "0 < sint (16 * 1024 :: i64)"
    by (simp_all add: seconds_def)
  have wrap: "if sint v = 2 ^ 63 - 1 then sint (orDefault v 10 + 1) < 0
      else 2 \<le> sint (orDefault v 10 + 1)" for v :: i64
  proof (cases "sint v \<le> 0")
    case True
    then show ?thesis by (simp add: orDefault_def)
  next
    case False
    have "sint v < 2 ^ 63" using sint_lt [of v] by simp
    have s: "sint (v + 1) = signed_take_bit 63 (sint v + 1)"
      by (simp add: sint_word_ariths)
    show ?thesis
    proof (cases "sint v = 2 ^ 63 - 1")
      case True
      then show ?thesis using False s by (simp add: orDefault_def)
    next
      case neq: False
      with \<open>sint v < 2 ^ 63\<close> have "sint v + 1 < 2 ^ 63" by simp
      moreover have "- (2 ^ 63) \<le> sint v + 1" using False by simp
      ultimately have "sint (v + 1) = sint v + 1"
        unfolding s by (intro signed_take_bit_int_eq_self) simp_all
      then show ?thesis using False neq by (simp add: orDefault_def)
    qed
  qed
  show ?thesis
    using d wrap [of "ccMaxChannelsPerConn config"]
    by (auto simp: NewClient_def orDefault_pos orDefault32_def word_gt_0 intro: orDefault_def [THEN trans])
qed

definition zeroConfig :: clientConfig where
  "zeroConfig = \<lparr>ccMaxConnections = 0, ccMaxChannelsPerConn = 0, ccChannelPacketQueueLen = 0,
     ccTcpWriteQueueLen = 0, ccTcpConnectTimeout = 0, ccTcpReadBufferSize = 0,
     ccTcpWriteBufferSize = 0, ccWaitResponseTimeout = 0\<rparr>"

theorem NewClient_config_usable_witness:
  "\<exists>cfg. cfg = clConfig (NewClient (zeroConfig\<lparr>ccMaxConnections := 7\<rparr>) '''' None :: (nat, nat) client) \<and>
     ccMaxConnections cfg = 7 \<and> 2 \<le> sint (ccMaxChannelsPerConn cfg)"
  using NewClient_config_usable
    [of _ "zeroConfig\<lparr>ccMaxConnections := 7\<rparr>" "''''" "None", where 'a = nat and 'b = nat]
  by (simp add: zeroConfig_def)

text \<open>C22: A TLS client made with the limit on connections left at zero, for which \<open>NewClient\<close>
  puts its default, can never connect: every attempt is refused as over the limit, whatever the
  server does, while the same configuration lets a client without TLS make its first connection.\<close>

theorem TLS_client_without_limit:
  fixes tls plain :: "('q, 'h) client"
  assumes "sint (ccMaxConnections config) \<le> 0"
    and "tls = NewClientTLS config addr f cert key" "plain = NewClient config addr f"
  shows "Client_newConnection dial ucrq tls = (tls, Inl ErrClientConnectionsLimited) \<and>
         Client_getFreeConnection dial ucrq tls = (tls, Inl ErrClientConnectionsLimited) \<and>
         snd (Client_newConnection None ucrq plain) = Inr 0"
proof -
  obtain c where c: "NewConnection True False (clOwner plain) RoleClient
      (unat (ccTcpWriteQueueLen (clConfig plain))) ucrq = Inr c"
    by (simp add: NewConnection_def)
  have "Client_limitReached tls"
    unfolding assms(2,3) using assms(1) by (simp add: Client_limitReached_def NewClientTLS_def connections_def)
  moreover have "\<not> Client_limitReached plain"
    unfolding assms(2,3) using assms(1) by (simp add: Client_limitReached_def NewClient_def connections_def orDefault_def)
  moreover have "connections tls = []"
    unfolding assms(2) by (simp add: NewClientTLS_def connections_def)
  moreover have "clConns plain = []" unfolding assms(3) by (simp add: NewClient_def)
  ultimately show ?thesis
    using c by (simp add: Client_newConnection_def Client_getFreeConnection_def
        Client_enterConnection_def Let_def)
qed

theorem TLS_client_without_limit_witness:
  "\<exists>(tls :: (nat, nat) client) (plain :: (nat, nat) client). tls = NewClientTLS zeroConfig ''server:9090'' None ''cert'' ''key'' \<and>
     plain = NewClient zeroConfig ''server:9090'' None \<and>
     Client_newConnection None 0 tls = (tls, Inl ErrClientConnectionsLimited) \<and>
     snd (Client_newConnection None 0 plain) = Inr 0"
proof -
  let ?tls = "NewClientTLS zeroConfig ''server:9090'' None ''cert'' ''key'' :: (nat, nat) client"
  let ?plain = "NewClient zeroConfig ''server:9090'' None :: (nat, nat) client"
  have "sint (ccMaxConnections zeroConfig) \<le> 0" by (simp add: zeroConfig_def)
  from TLS_client_without_limit [OF this refl refl, of None "0 :: nat" "''server:9090''" None "''cert''" "''key''",
      where 'h = nat]
  have "Client_newConnection None 0 ?tls = (?tls, Inl ErrClientConnectionsLimited)"
    "snd (Client_newConnection None 0 ?plain) = Inr 0" by blast+
  then show ?thesis by (intro exI [of _ ?tls] exI [of _ ?plain] conjI refl) (simp_all only:)
qed

text \<open>C23: After any sequence of calls that make, look for, remove and close connections, one after
  another, the client's slice holds exactly its open connections, each once, the counter agrees
  with it, and there are never more than the configured maximum.\<close>

theorem client_connections_exact:
  assumes "reach clientStart clientStep cl"
  shows "set (connections cl) = {a. a < length (clConns cl) \<and> \<not> cnClosedMark (clConns cl ! a)} \<and>
    distinct (connections cl) \<and> clConnCount cl = word_of_nat (length (connections cl)) \<and>
    int (length (connections cl)) \<le> max 0 (sint (ccMaxConnections (clConfig cl)))"
  using client_conns.reach_inv [OF assms] unfolding clientInv_def by blast

definition oneConnClient :: "(nat, nat) client" where
  "oneConnClient = fst (Client_newConnection None 0 (NewClient zeroConfig ''server:9090'' None))"

lemma oneConn_reach: "reach clientStart clientStep oneConnClient"
proof -
  let ?cl = "NewClient zeroConfig ''server:9090'' None :: (nat, nat) client"
  have "reach clientStart clientStep ?cl" by (rule reach_start) (auto simp: clientStart_def)
  moreover have "clientStep ?cl oneConnClient" unfolding oneConnClient_def by (rule NewConn)
  ultimately show ?thesis by (rule reach_step)
qed

theorem client_connections_exact_witness:
  "int (length (connections oneConnClient)) \<le> max 0 (sint (ccMaxConnections (clConfig oneConnClient))) \<and>
   distinct (connections oneConnClient)"
  using client_connections_exact [OF oneConn_reach] by simp

text \<open>Closing the first of two or more connections while the loop ranges over the slice.\<close>

lemma closeConn_keeps:
  assumes inv: "clientInv cl" and a: "a < length (clConns cl)" and b: "b < length (clConns cl)" "b \<noteq> a"
  shows "cnClosedMark (clConns (Client_closeConn a err cl) ! b) = cnClosedMark (clConns cl ! b)"
proof -
  have "clConns (Client_dropConnection a cl) = clConns cl"
    using dropConnection_simps [of cl a] inv by (simp add: clientInv_def)
  with b show ?thesis by (simp add: Client_closeConn_def clConns_onConn)
qed

lemma closeConn_array:
  assumes inv: "clientInv cl" and a: "a < length (clConns cl)"
  shows "set (clArray (Client_closeConn a err cl)) \<subseteq> set (clArray cl) \<and>
    length (clArray (Client_closeConn a err cl)) = length (clArray cl) \<and>
    length (clConns (Client_closeConn a err cl)) = length (clConns cl)"
proof -
  have s: "sliceOk cl" using inv by (simp add: clientInv_def)
  let ?cl0 = "cl\<lparr>clConnCount := clConnCount cl - 1\<rparr>"
  have s0: "sliceOk ?cl0" "connections ?cl0 = connections cl" "clLen ?cl0 = clLen cl"
    using s by (simp_all add: sliceOk_def connections_def)
  have "set (clArray (Client_dropConnection a cl)) \<subseteq> set (clArray cl) \<and>
    length (clArray (Client_dropConnection a cl)) = length (clArray cl)"
  proof (cases "findIndex a (connections cl)")
    case (Some i)
    then have i: "i < clLen ?cl0" using findIndex_Some [OF Some] s by simp
    have "clArray (Client_dropConnection a cl) = take i (connections cl) @
        drop (i + 1) (connections cl) @ drop (clLen cl - 1) (clArray cl)"
      using Some deleteAt_simps(3) [OF s0(1) i] s0 by (simp add: Client_dropConnection_def)
    moreover have "length (take i (connections cl) @ drop (i + 1) (connections cl)) = clLen cl - 1"
      using s i s0 by simp
    ultimately show ?thesis
      using s i s0 unfolding connections_def sliceOk_def
      by (auto dest!: in_set_takeD in_set_dropD)
  qed (simp add: Client_dropConnection_def)
  moreover have "clConns (Client_dropConnection a cl) = clConns cl"
    using dropConnection_simps [OF s] by simp
  ultimately show ?thesis by (simp add: Client_closeConn_def)
qed

lemma deleteAt_nth:
  assumes "sliceOk cl" "i < clLen cl" "j < length (clArray cl)"
  shows "clArray (deleteAt i cl) ! j =
    (if i \<le> j \<and> j + 1 < clLen cl then clArray cl ! (j + 1) else clArray cl ! j)"
proof -
  have len: "length (take i (connections cl) @ drop (i + 1) (connections cl)) = clLen cl - 1"
    using assms(1,2) by simp
  show ?thesis
  proof (cases "j < clLen cl - 1")
    case True
    then have "clArray (deleteAt i cl) ! j = (take i (connections cl) @ drop (i + 1) (connections cl)) ! j"
      unfolding deleteAt_simps(3) [OF assms(1,2)] append_assoc [symmetric] using len
      by (subst nth_append) simp
    also have "\<dots> = (if i \<le> j then clArray cl ! (j + 1) else clArray cl ! j)"
      using True assms(1,2) by (auto simp: nth_append connections_def sliceOk_def min_def)
    finally show ?thesis using True by auto
  next
    case False
    then have "clArray (deleteAt i cl) ! j = drop (clLen cl - 1) (clArray cl) ! (j - (clLen cl - 1))"
      unfolding deleteAt_simps(3) [OF assms(1,2)] append_assoc [symmetric] using len
      by (subst nth_append) simp
    then show ?thesis using False assms(3) by auto
  qed
qed

lemma closeConn_open:
  assumes inv: "clientInv cl" and i: "i < clLen cl" "connections cl ! i = a"
  shows "clArray (Client_closeConn a err cl) = clArray (deleteAt i cl) \<and>
    clLen (Client_closeConn a err cl) = clLen cl - 1 \<and>
    connections (Client_closeConn a err cl) = remove1 a (connections cl)"
proof -
  have s: "sliceOk cl" and dis: "distinct (connections cl)" using inv by (simp_all add: clientInv_def)
  have mem: "a \<in> set (connections cl)" using i s by auto
  then obtain k where k: "findIndex a (connections cl) = Some k"
    using findIndex_None by fastforce
  from findIndex_Some [OF this] have "k = i"
    using i s dis by (metis length_connections nth_eq_iff_index_eq)
  with k have d: "Client_dropConnection a cl = deleteAt i (cl\<lparr>clConnCount := clConnCount cl - 1\<rparr>)"
    by (simp add: Client_dropConnection_def)
  have "a < length (clConns cl)" "\<not> cnClosedMark (clConns cl ! a)"
    using inv mem by (auto simp: clientInv_def)
  moreover from this have "clientConn (clConns cl ! a)" using inv by (simp add: clientInv_def)
  ultimately have "Client_closeConn a err cl = onConn a (Connection_Close err) (Client_dropConnection a cl)"
    by (simp add: Client_closeConn_def Connection_Closed_def clientConn_def)
  moreover have "clArray (deleteAt i (cl\<lparr>clConnCount := n\<rparr>)) = clArray (deleteAt i cl)" for n
    by (simp add: deleteAt_def connections_def)
  ultimately show ?thesis
    using d dropConnection_simps(1) [OF s, of a] by simp
qed

definition skipInv :: "nat \<Rightarrow> nat \<Rightarrow> ('q, 'h) client \<Rightarrow> bool" where
  "skipInv b n cl \<longleftrightarrow> clientInv cl \<and> n \<le> length (clArray cl) \<and> 0 < clLen cl \<and> clLen cl \<le> n \<and>
     clArray cl ! 0 = b \<and>
     (\<forall>j. 1 \<le> j \<and> j < n \<longrightarrow> clArray cl ! j \<noteq> b \<and> clArray cl ! j < length (clConns cl))"

lemma skipInv_step:
  assumes inv: "skipInv b n cl" and i: "1 \<le> i" "i < n"
  shows "skipInv b n (Client_closeConn (clArray cl ! i) None cl)"
proof -
  let ?a = "clArray cl ! i"
  let ?cl = "Client_closeConn ?a None cl"
  from inv i have cinv: "clientInv cl" and a: "?a < length (clConns cl)" "?a \<noteq> b"
    and len: "n \<le> length (clArray cl)" "0 < clLen cl" "clLen cl \<le> n"
    and arr: "clArray cl ! 0 = b" "\<forall>j. 1 \<le> j \<and> j < n \<longrightarrow> clArray cl ! j \<noteq> b \<and> clArray cl ! j < length (clConns cl)"
    by (auto simp: skipInv_def)
  have s: "sliceOk cl" using cinv by (simp add: clientInv_def)
  note inv' = clientInv_close [OF cinv a(1), of None]
  show ?thesis
  proof (cases "?a \<in> set (connections cl)")
    case False
    then have "cnClosedMark (clConns cl ! ?a)" using cinv a by (auto simp: clientInv_def)
    then show ?thesis using inv by (simp add: Client_closeConn_def Connection_Closed_def)
  next
    case True
    then obtain k where k: "k < clLen cl" "connections cl ! k = ?a"
      using s by (metis in_set_conv_nth length_connections)
    have "k \<noteq> 0"
    proof
      assume "k = 0"
      with k a arr(1) show False by (simp add: connections_def)
    qed
    then have k1: "1 \<le> k" "2 \<le> clLen cl" using k by auto
    note c = closeConn_open [OF cinv k, of None]
    note arrlen = closeConn_array [OF cinv a(1), of None]
    have "clArray ?cl ! 0 = b"
    proof -
      have "0 < length (clArray cl)" using k1(2) s unfolding sliceOk_def by linarith
      from deleteAt_nth [OF s k(1) this] show ?thesis using c k1 arr(1) by simp
    qed
    moreover have "clArray ?cl ! j \<noteq> b \<and> clArray ?cl ! j < length (clConns ?cl)"
      if j: "1 \<le> j" "j < n" for j
    proof -
      have "clArray ?cl ! j = clArray cl ! j \<or> (j + 1 < clLen cl \<and> clArray ?cl ! j = clArray cl ! (j + 1))"
        using c deleteAt_nth [OF s k(1), of j] j len by auto
      then obtain k' where "clArray ?cl ! j = clArray cl ! k'" "1 \<le> k'" "k' < n"
        using j len(3) by (metis add_leE le_add2 less_le_trans)
      then show ?thesis using arr(2) arrlen by simp
    qed
    ultimately show ?thesis
      using inv' c arrlen len k1 by (auto simp: skipInv_def)
  qed
qed

lemma skipInv_range:
  "skipInv b n cl \<Longrightarrow> 1 \<le> i \<Longrightarrow> i + m \<le> n \<Longrightarrow> skipInv b n (closeRange i m cl)"
proof (induction m arbitrary: i cl)
  case (Suc m)
  then have "skipInv b n (Client_closeConn (clArray cl ! i) None cl)"
    by (intro skipInv_step) auto
  with Suc show ?case by simp
qed simp

text \<open>C24: \<open>Client.Close\<close> does not close all connections: it ranges over the slice while closing
  each connection takes it out of the same array, which moves the others down. With three or
  more connections the second one is passed over: it is still open and in the client's slice
  afterwards.\<close>

theorem Client_Close_skips_second:
  assumes "reach clientStart clientStep cl" and "connections cl = a # b # c # rest"
  shows "\<not> cnClosedMark (clConns (Client_Close cl) ! b) \<and> b \<in> set (connections (Client_Close cl))"
proof -
  have inv: "clientInv cl" using assms(1) by (rule client_conns.reach_inv)
  then have s: "sliceOk cl" and dis: "distinct (connections cl)" by (simp_all add: clientInv_def)
  have n: "clLen cl = length rest + 3" using length_connections [OF s] assms(2) by simp
  have arr: "clArray cl ! j = connections cl ! j" if "j < clLen cl" for j
    using that by (simp add: connections_def)
  have bounded: "connections cl ! j < length (clConns cl)" if "j < clLen cl" for j
    using inv that s nth_mem [of j "connections cl"] by (auto simp: clientInv_def)
  let ?cl = "Client_closeConn a None cl"
  have a: "clArray cl ! 0 = a" "0 < clLen cl" "connections cl ! 0 = a"
    using arr [of 0] assms(2) n by simp_all
  then have alt: "a < length (clConns cl)" using bounded [of 0] by simp
  note c = closeConn_open [OF inv a(2,3), of None]
  note arrlen = closeConn_array [OF inv alt, of None]
  have nth: "clArray ?cl ! j = connections cl ! (if j + 1 < clLen cl then j + 1 else j)"
    if "j < clLen cl" for j
    using c deleteAt_nth [OF s a(2), of j] that arr s by (auto simp: sliceOk_def)
  have neq: "connections cl ! j \<noteq> b" if "j < clLen cl" "j \<noteq> 1" for j
    using that dis assms(2) s by (metis One_nat_def length_connections n nth_Cons_0 nth_Cons_Suc
        nth_eq_iff_index_eq add_2_eq_Suc' numeral_3_eq_3 trans_less_add2 lessI less_Suc_eq)
  have "skipInv b (clLen cl) ?cl"
    unfolding skipInv_def
  proof (intro conjI allI impI)
    show "clientInv ?cl" by (rule clientInv_close [OF inv alt])
    show "clLen cl \<le> length (clArray ?cl)" using arrlen s by (simp add: sliceOk_def)
    show "0 < clLen ?cl" "clLen ?cl \<le> clLen cl" using c n by simp_all
    show "clArray ?cl ! 0 = b" using nth [of 0] n assms(2) by simp
    fix j
    assume j: "1 \<le> j \<and> j < clLen cl"
    let ?k = "if j + 1 < clLen cl then j + 1 else j"
    have "?k < clLen cl" "?k \<noteq> 1" using j n by auto
    with neq bounded nth j arrlen show "clArray ?cl ! j \<noteq> b" "clArray ?cl ! j < length (clConns ?cl)"
      by metis+
  qed
  then have "skipInv b (clLen cl) (closeRange 1 (clLen cl - 1) ?cl)"
    by (rule skipInv_range) (use n in auto)
  moreover have "Client_Close cl = closeRange 1 (clLen cl - 1) ?cl"
    using n a(1) by (simp add: Client_Close_def numeral_3_eq_3)
  ultimately have fin: "clientInv (Client_Close cl)" "0 < clLen (Client_Close cl)"
    "clArray (Client_Close cl) ! 0 = b" by (simp_all add: skipInv_def)
  then have "b \<in> set (connections (Client_Close cl))"
    by (metis connections_def clientInv_def length_connections nth_mem nth_take)
  with fin(1) show ?thesis by (auto simp: clientInv_def)
qed

lemma newConnection_adds:
  assumes "sliceOk cl" "int (clLen cl) < sint (ccMaxConnections (clConfig cl))"
  shows "connections (fst (Client_newConnection None ucrq cl)) = connections cl @ [length (clConns cl)] \<and>
    length (clConns (fst (Client_newConnection None ucrq cl))) = length (clConns cl) + 1 \<and>
    clConfig (fst (Client_newConnection None ucrq cl)) = clConfig cl \<and>
    sliceOk (fst (Client_newConnection None ucrq cl)) \<and>
    clLen (fst (Client_newConnection None ucrq cl)) = clLen cl + 1"
proof -
  obtain c where c: "NewConnection True False (clOwner cl) RoleClient
      (unat (ccTcpWriteQueueLen (clConfig cl))) ucrq = Inr c"
    by (simp add: NewConnection_def)
  let ?cl0 = "cl\<lparr>clConns := clConns cl @ [c\<lparr>cnCtx := SetCtxData (cnCtx c) CtxClient (Some CvClient)\<rparr>]\<rparr>"
  have "sliceOk ?cl0" "connections ?cl0 = connections cl"
    using assms(1) by (simp_all add: sliceOk_def connections_def)
  from appendConn_simps [OF this(1), of "length (clConns cl)"] this(2) show ?thesis
    using assms c
    by (simp add: Client_newConnection_def Client_limitReached_def Client_enterConnection_def Let_def)
      (simp add: connections_def sliceOk_def appendConn_def)
qed

definition threeConnClient :: "(nat, nat) client" where
  "threeConnClient = ((\<lambda>cl. fst (Client_newConnection None 0 cl)) ^^ 3)
     (NewClient zeroConfig ''server:9090'' None)"

lemma threeConn_facts:
  "reach clientStart clientStep threeConnClient" "connections threeConnClient = [0, 1, 2]"
proof -
  let ?new = "\<lambda>cl :: (nat, nat) client. fst (Client_newConnection None 0 cl)"
  let ?c0 = "NewClient zeroConfig ''server:9090'' None :: (nat, nat) client"
  have three: "threeConnClient = ?new (?new (?new ?c0))"
    by (simp add: threeConnClient_def numeral_3_eq_3)
  have r0: "reach clientStart clientStep ?c0" by (rule reach_start) (auto simp: clientStart_def)
  have r1: "reach clientStart clientStep (?new ?c0)" by (rule reach_step [OF r0]) (rule NewConn)
  have r2: "reach clientStart clientStep (?new (?new ?c0))" by (rule reach_step [OF r1]) (rule NewConn)
  show "reach clientStart clientStep threeConnClient"
    unfolding three by (rule reach_step [OF r2]) (rule NewConn)
  have c0: "sliceOk ?c0" "clLen ?c0 = 0" "connections ?c0 = []" "length (clConns ?c0) = 0"
    "sint (ccMaxConnections (clConfig ?c0)) = 1000"
    by (simp_all add: NewClient_def sliceOk_def connections_def zeroConfig_def orDefault_def)
  note n1 = newConnection_adds [OF c0(1), of 0]
  note n2 = newConnection_adds [of "?new ?c0" 0]
  note n3 = newConnection_adds [of "?new (?new ?c0)" 0]
  show "connections threeConnClient = [0, 1, 2]"
    unfolding three using n1 n2 n3 c0 by (simp add: numeral_2_eq_2)
qed

theorem Client_Close_skips_second_witness:
  "connections threeConnClient = [0, 1, 2] \<and>
   \<not> cnClosedMark (clConns (Client_Close threeConnClient) ! 1) \<and>
   1 \<in> set (connections (Client_Close threeConnClient))"
  using Client_Close_skips_second [OF threeConn_facts(1), of 0 1 2 "[]"] threeConn_facts(2) by simp

end
