(* ===== verification/LbClient.thy ===== *)
theory LbClient
  imports Client
begin

text \<open>
  The load balancing client of \<open>lbclient.go\<close>: the list of servers with weights, the backends
  made from it, the ways to select one, the channel a backend works on, and the accounting of
  requests. Times are nanoseconds, \<open>None\<close> the zero time. The blocking exchange of a request
  with a server is a parameter where a whole call needs its result; requests under way are
  visible because \<open>DoRequest\<close> and \<open>DoRequest2\<close> are split where they wait.
\<close>

section \<open>Backends\<close>

type_synonym healthCheck = "byte list \<Rightarrow> byte list \<Rightarrow> gerr option \<Rightarrow> bool"

definition DefaultHealthCheck :: healthCheck where
  "DefaultHealthCheck req resp err \<longleftrightarrow> err = None"

record evaluated =
  ecAlias :: string
  ecPaused :: bool
  ecLastRequest :: "int option"
  ecClient :: nat
  ecConnIndex :: nat
  ecErrorCount :: nat
  ecErr :: "gerr option"
  ecPending :: i64
  ecHealthCheck :: "healthCheck option"
  ecFailCount :: i64

definition newBackend :: "string \<Rightarrow> nat \<Rightarrow> healthCheck option \<Rightarrow> evaluated" where
  "newBackend alias client check = \<lparr>ecAlias = alias, ecPaused = False, ecLastRequest = None,
     ecClient = client, ecConnIndex = 0, ecErrorCount = 0, ecErr = None, ecPending = 0,
     ecHealthCheck = check, ecFailCount = 0\<rparr>"

definition PendingRequests :: "evaluated \<Rightarrow> i64" where
  "PendingRequests ec = ecPending ec + ecFailCount ec"

section \<open>The balancer\<close>

definition MethodRoundrobin :: u32 where "MethodRoundrobin = 0"
definition MethodRandom :: u32 where "MethodRandom = 1"
definition MethodMinPending :: u32 where "MethodMinPending = 2"
definition MethodIpHash :: u32 where "MethodIpHash = 3"
definition MethodURIParam :: u32 where "MethodURIParam = 4"
definition MethodJsonExp :: u32 where "MethodJsonExp = 5"

lemmas method_defs = MethodRoundrobin_def MethodRandom_def MethodMinPending_def MethodIpHash_def
  MethodURIParam_def MethodJsonExp_def

text \<open>
  Backends are objects in \<open>lbBackends\<close>, clients in \<open>lbClients\<close>; the slice \<open>activeClients\<close> and the
  dictionary of aliases refer to backends by address. \<open>'j\<close> is a configuration of the package
  jsonexp.
\<close>

record ('q, 'h, 'j) balancer =
  lbServerMaxConns :: i64
  lbServerKeepConns :: i64
  lbBackends :: "evaluated list"
  lbClients :: "('q, 'h) client list"
  lbActive :: "nat list"
  lbMap :: "(string \<times> nat) list"
  lbMethod :: u32
  lbRoundrobin :: i64
  lbParamKey :: string
  lbJsonExp :: "'j option"

definition backend :: "('q, 'h, 'j) balancer \<Rightarrow> nat \<Rightarrow> evaluated" where
  "backend lb b = lbBackends lb ! b"

definition updBackend :: "nat \<Rightarrow> (evaluated \<Rightarrow> evaluated) \<Rightarrow> ('q, 'h, 'j) balancer \<Rightarrow> ('q, 'h, 'j) balancer" where
  "updBackend b f lb = lb\<lparr>lbBackends := (lbBackends lb)[b := f (lbBackends lb ! b)]\<rparr>"

text \<open>Reading \<open>activeClients\<close> outside its bounds panics.\<close>

definition activeAt :: "('q, 'h, 'j) balancer \<Rightarrow> int \<Rightarrow> nat outcome" where
  "activeAt lb i = (if 0 \<le> i \<and> i < int (length (lbActive lb)) then Returned (lbActive lb ! nat i)
     else Panicked)"

section \<open>The list of servers\<close>

text \<open>Package strings on ASCII texts: \<open>Split\<close> at one character and \<open>TrimSpace\<close>; \<open>strconv.Atoi\<close>.\<close>

fun splitAt :: "char \<Rightarrow> string \<Rightarrow> string list" where
  "splitAt c [] = [[]]"
| "splitAt c (x # xs) =
     (if x = c then [] # splitAt c xs
      else case splitAt c xs of [] \<Rightarrow> [[x]] | w # ws \<Rightarrow> (x # w) # ws)"

definition isSpace :: "char \<Rightarrow> bool" where
  "isSpace c \<longleftrightarrow> (of_char c :: nat) \<in> {9, 10, 11, 12, 13, 32}"

definition trimSpace :: "string \<Rightarrow> string" where
  "trimSpace s = rev (dropWhile isSpace (rev (dropWhile isSpace s)))"

definition atoiDigits :: "bool \<Rightarrow> string \<Rightarrow> int option" where
  "atoiDigits neg s =
     (if s = [] \<or> \<not> list_all isDigit s then None
      else let v = (if neg then - int (digitsVal 0 s) else int (digitsVal 0 s))
           in if - (2 ^ 63) \<le> v \<and> v < 2 ^ 63 then Some v else None)"

fun atoi :: "string \<Rightarrow> int option" where
  "atoi [] = None"
| "atoi (c # cs) =
     (if c = CHR ''-'' then atoiDigits True cs
      else if c = CHR ''+'' then atoiDigits False cs
      else atoiDigits False (c # cs))"

text \<open>One entry of the list; entries that are not well formed are passed over.\<close>

definition parseServer :: "string \<Rightarrow> (string \<times> nat) option" where
  "parseServer v =
     (let s = trimSpace v in
      if s = '''' then None
      else case splitAt (CHR ''#'') s of
        [addr, weightText] \<Rightarrow>
          if addr = '''' then None
          else (case atoi weightText of
                  None \<Rightarrow> None
                | Some weight \<Rightarrow>
                    if weight < 1 \<or> weight > 100 then None else Some (addr, nat weight))
      | _ \<Rightarrow> None)"

definition parseServers :: "string \<Rightarrow> (string \<times> nat) list" where
  "parseServers serverList = List.map_filter parseServer (splitAt (CHR '','') serverList)"

section \<open>Making the balancer\<close>

definition backendConfig :: "i64 \<Rightarrow> clientConfig" where
  "backendConfig maxConns = \<lparr>ccMaxConnections = maxConns, ccMaxChannelsPerConn = 3,
     ccChannelPacketQueueLen = 1000, ccTcpWriteQueueLen = 1000, ccTcpConnectTimeout = seconds 3,
     ccTcpReadBufferSize = 1024 * 32, ccTcpWriteBufferSize = 1024 * 32,
     ccWaitResponseTimeout = 0\<rparr>"

text \<open>
  One pass over the servers: each with weight left gives a backend (its number in the list) and
  loses one; the third result is the flag \<open>exists\<close>.
\<close>

fun weightRound :: "nat \<Rightarrow> nat list \<Rightarrow> nat list \<times> nat list \<times> bool" where
  "weightRound i [] = ([], [], False)"
| "weightRound i (w # ws) =
     (let (ws', out, ex) = weightRound (i + 1) ws
      in if w > 0 then ((w - 1) # ws', i # out, w - 1 > 0 \<or> ex) else (w # ws', out, ex))"

lemma weightRound_less:
  "weightRound i ws = (ws', out, True) \<Longrightarrow> sum_list ws' < sum_list ws"
proof -
  have "weightRound i ws = (ws', out, ex) \<Longrightarrow> sum_list ws' \<le> sum_list ws \<and> (ex \<longrightarrow> sum_list ws' < sum_list ws)"
    for ex
    by (induction ws arbitrary: i ws' out ex) (fastforce split: prod.splits if_splits)+
  then show "weightRound i ws = (ws', out, True) \<Longrightarrow> ?thesis" by blast
qed

function weightLoop :: "nat list \<Rightarrow> nat list" where
  "weightLoop ws =
     (case weightRound 0 ws of (ws', out, ex) \<Rightarrow> if ex then out @ weightLoop ws' else out)"
  by pat_completeness auto

termination
  by (relation "measure sum_list") (auto dest: weightRound_less [OF sym])

declare weightLoop.simps [simp del]

definition backendAlias :: "string \<Rightarrow> nat \<Rightarrow> nat \<Rightarrow> string" where
  "backendAlias addr i j = addr @ ''-'' @ showNat i @ ''-'' @ showNat j"

definition NewLoadBalanceClient :: "i64 \<Rightarrow> i64 \<Rightarrow> string \<Rightarrow> gerr + ('q, 'h, 'j) balancer" where
  "NewLoadBalanceClient serverKeepConns serverMaxConns serverList =
     (let addrList = parseServers serverList in
      if addrList = [] then Inl (TextErr ''invalid param: serverList'')
      else
        let clients = map (\<lambda>(addr, weight). NewClient (backendConfig serverMaxConns) addr None) addrList;
            backends = map (\<lambda>i. newBackend (backendAlias (fst (addrList ! i)) i 0) i None)
                         (weightLoop (map snd addrList))
        in Inr \<lparr>lbServerMaxConns = (if sint serverMaxConns < 1 then 1 else serverMaxConns),
                lbServerKeepConns = (if sint serverKeepConns < 1 then 1 else serverKeepConns),
                lbBackends = backends, lbClients = clients, lbActive = [0..<length backends],
                lbMap = [], lbMethod = MethodMinPending, lbRoundrobin = 0, lbParamKey = '''',
                lbJsonExp = None\<rparr>)"

section \<open>Backends added and removed\<close>

definition AddBackend :: "string \<Rightarrow> string \<Rightarrow> healthCheck option \<Rightarrow> ('q, 'h, 'j) balancer \<Rightarrow>
    ('q, 'h, 'j) balancer \<times> gerr option" where
  "AddBackend addr alias check lb =
     (case map_of (lbMap lb) alias of
        Some b \<Rightarrow> (lb, Some (TextErr ''backend's alias of load balance client exists''))
      | None \<Rightarrow>
          let client = NewClient (backendConfig (lbServerMaxConns lb)) addr None;
              check1 = (case check of None \<Rightarrow> Some DefaultHealthCheck | Some f \<Rightarrow> Some f);
              b = length (lbBackends lb)
          in (lb\<lparr>lbBackends := lbBackends lb @ [newBackend alias (length (lbClients lb)) check1],
                 lbClients := lbClients lb @ [client], lbActive := lbActive lb @ [b],
                 lbMap := AList.update alias b (lbMap lb)\<rparr>, None))"

text \<open>
  \<open>RemoveBackend\<close> ranges over the slice \<open>activeClients\<close> as it was, \<open>n\<close> entries from \<open>i\<close> on, while
  it takes entries out of the same array; \<open>len\<close> is the length of the slice meanwhile. A slice
  expression whose lower bound exceeds the length panics.
\<close>

fun removeLoop :: "('q, 'h, 'j) balancer \<Rightarrow> string \<Rightarrow> nat \<Rightarrow> nat \<Rightarrow> nat list \<times> nat \<Rightarrow>
    (nat list \<times> nat) outcome" where
  "removeLoop lb alias i 0 (arr, len) = Returned (arr, len)"
| "removeLoop lb alias i (Suc n) (arr, len) =
     (if ecAlias (backend lb (arr ! i)) = alias then
        (if int i \<noteq> int len - 1 then
           (if i + 1 > len then Panicked
            else removeLoop lb alias (i + 1) n
                   (take i arr @ take (len - (i + 1)) (drop (i + 1) arr) @ drop (len - 1) arr, len - 1))
         else removeLoop lb alias (i + 1) n (arr, i))
      else removeLoop lb alias (i + 1) n (arr, len))"

definition RemoveBackend :: "string \<Rightarrow> ('q, 'h, 'j) balancer \<Rightarrow>
    (('q, 'h, 'j) balancer \<times> gerr option) outcome" where
  "RemoveBackend alias lb =
     (case map_of (lbMap lb) alias of
        None \<Rightarrow> Returned (lb, Some (TextErr ''backend's alias not found''))
      | Some _ \<Rightarrow>
          (case removeLoop lb alias 0 (length (lbActive lb)) (lbActive lb, length (lbActive lb)) of
             Panicked \<Rightarrow> Panicked
           | Returned (arr, len) \<Rightarrow>
               Returned (lb\<lparr>lbMap := AList.delete alias (lbMap lb), lbActive := take len arr\<rparr>, None)))"

definition CloseAll :: "('q, 'h, 'j) balancer \<Rightarrow> ('q, 'h, 'j) balancer" where
  "CloseAll lb = lb\<lparr>lbClients := fold (\<lambda>b cs. cs[ecClient (backend lb b) :=
       Client_Close (cs ! ecClient (backend lb b))]) (lbActive lb) (lbClients lb)\<rparr>"

definition SetBalanceParamKey :: "string \<Rightarrow> ('q, 'h, 'j) balancer \<Rightarrow> ('q, 'h, 'j) balancer" where
  "SetBalanceParamKey key lb = lb\<lparr>lbParamKey := key\<rparr>"

definition SetMethod :: "u32 \<Rightarrow> ('q, 'h, 'j) balancer \<Rightarrow> ('q, 'h, 'j) balancer" where
  "SetMethod method lb = lb\<lparr>lbMethod := method\<rparr>"

text \<open>
  Package jsonexp is a parameter: \<open>'d\<close> are its dictionaries, \<open>'w\<close> the state of all its objects. The
  package variable \<open>jsonExpDict\<close> is nil until a call of \<open>doInit\<close> made a dictionary; the \<open>sync.Once\<close> of
  \<open>doInit\<close> is a local variable, so every call makes a new one. What the methods of a dictionary do on
  nil is up to the package.
\<close>

record ('d, 'w) jsonExpState =
  jsonExpDict :: "'d option"
  jsonExpWorld :: 'w

definition JsonExpVarTargetServer :: string where "JsonExpVarTargetServer = ''$LB_TARGET_SERVER''"
definition JsonExpObjectURI :: string where "JsonExpObjectURI = ''$REQUEST_URI''"

definition doInit :: "('w \<Rightarrow> 'd \<times> 'w) \<Rightarrow> ('d \<Rightarrow> string \<Rightarrow> 'w \<Rightarrow> 'w) \<Rightarrow> ('d, 'w) jsonExpState \<Rightarrow>
    ('d, 'w) jsonExpState" where
  "doInit newDictionary registerVar st =
     (let (d, w) = newDictionary (jsonExpWorld st)
      in \<lparr>jsonExpDict = Some d, jsonExpWorld = registerVar d JsonExpVarTargetServer w\<rparr>)"

text \<open>\<open>newConfig\<close> is \<open>jsonexp.NewConfiguration\<close>.\<close>

definition SetJsonExp ::
    "('d option \<Rightarrow> byte list \<Rightarrow> 'w \<Rightarrow> ('w \<times> (gerr + 'j)) outcome) \<Rightarrow> byte list \<Rightarrow>
     ('q, 'h, 'j) balancer \<times> ('d, 'w) jsonExpState \<Rightarrow>
     (('q, 'h, 'j) balancer \<times> ('d, 'w) jsonExpState \<times> gerr option) outcome" where
  "SetJsonExp newConfig json = (\<lambda>(lb, st).
     (case newConfig (jsonExpDict st) json (jsonExpWorld st) of
        Panicked \<Rightarrow> Panicked
      | Returned (w, Inl e) \<Rightarrow> Returned (lb, st\<lparr>jsonExpWorld := w\<rparr>, Some e)
      | Returned (w, Inr config) \<Rightarrow>
          Returned (lb\<lparr>lbJsonExp := Some config\<rparr>, st\<lparr>jsonExpWorld := w\<rparr>, None)))"

section \<open>Selecting a backend\<close>

definition selectBackendRoundrobin :: "('q, 'h, 'j) balancer \<Rightarrow> ('q, 'h, 'j) balancer \<times> nat outcome" where
  "selectBackendRoundrobin lb =
     (let idx = lbRoundrobin lb
      in (lb\<lparr>lbRoundrobin := idx + 1\<rparr>,
          activeAt lb (sint (rem64 idx (word_of_nat (length (lbActive lb)))))))"

text \<open>\<open>rnd\<close> is what \<open>Intn\<close> returned for the number of backends.\<close>

definition selectBackendRandom :: "nat \<Rightarrow> ('q, 'h, 'j) balancer \<Rightarrow> nat outcome" where
  "selectBackendRandom rnd lb = activeAt lb (int rnd)"

fun minPendingLoop :: "('q, 'h, 'j) balancer \<Rightarrow> nat \<Rightarrow> int \<Rightarrow> int \<Rightarrow> i64 \<Rightarrow> int outcome" where
  "minPendingLoop lb 0 idx minIdx minPending = Returned minIdx"
| "minPendingLoop lb (Suc n) idx minIdx minPending =
     (let idx' = (if idx + 1 \<ge> int (length (lbActive lb)) then 0 else idx + 1)
      in case activeAt lb idx' of
           Panicked \<Rightarrow> Panicked
         | Returned b \<Rightarrow>
             (let pr = PendingRequests (backend lb b)
              in if sint pr < sint minPending then minPendingLoop lb n idx' idx' pr
                 else minPendingLoop lb n idx' minIdx minPending))"

definition selectBackendMinPending :: "('q, 'h, 'j) balancer \<Rightarrow> ('q, 'h, 'j) balancer \<times> nat outcome" where
  "selectBackendMinPending lb =
     (let idx = sint (rem64 (lbRoundrobin lb) (word_of_nat (length (lbActive lb))));
          lb1 = lb\<lparr>lbRoundrobin := lbRoundrobin lb + 1\<rparr>
      in (lb1,
          case activeAt lb1 idx of
            Panicked \<Rightarrow> Panicked
          | Returned b \<Rightarrow>
              (let minPending = PendingRequests (backend lb1 b) in
               if sint minPending > 0 then
                 (case minPendingLoop lb1 (length (lbActive lb1)) idx idx minPending of
                    Panicked \<Rightarrow> Panicked
                  | Returned minIdx \<Rightarrow> activeAt lb1 minIdx)
               else activeAt lb1 idx)))"

text \<open>The hash FNV-1 with 32 bits of package hash/fnv: multiply, then xor the byte.\<close>

definition fnv32 :: "string \<Rightarrow> u32" where
  "fnv32 s = foldl (\<lambda>h b. xor (h * 16777619) (ucast b)) 2166136261 (bytesOf s)"

definition selectBackendIpHash :: "string \<Rightarrow> ('q, 'h, 'j) balancer \<Rightarrow> nat outcome" where
  "selectBackendIpHash clientIp lb =
     activeAt lb (uint (fnv32 clientIp mod word_of_nat (length (lbActive lb))))"

definition selectBackendParam :: "string \<Rightarrow> ('q, 'h, 'j) balancer \<Rightarrow> nat outcome" where
  "selectBackendParam paramValue lb =
     activeAt lb (uint (fnv32 paramValue mod word_of_nat (length (lbActive lb))))"

text \<open>
  The object an expression sees as the request's URI, and the selection by an expression: \<open>groupOf\<close>
  looks the expressions up in a configuration, \<open>execute\<close> runs them and gives the alias they left in
  the target variable, if any.
\<close>

definition GetPropertyValue :: "string \<times> url_values \<Rightarrow> string \<Rightarrow> string" where
  "GetPropertyValue u property = (if property = ''__PATH__'' then fst u else valuesGet (snd u) property)"

definition getJsonExp :: "('j \<Rightarrow> 'g option) \<Rightarrow> ('q, 'h, 'j) balancer \<Rightarrow> 'g option" where
  "getJsonExp groupOf lb = (case lbJsonExp lb of None \<Rightarrow> None | Some config \<Rightarrow> groupOf config)"

definition ErrorJsonExpNotFound :: gerr where
  "ErrorJsonExpNotFound = TextErr ''jsonexp for target select not found''"
definition ErrorNoServerDefined :: gerr where
  "ErrorNoServerDefined = TextErr ''no backend server defined''"
definition ErrorInvalidRequestURI :: gerr where
  "ErrorInvalidRequestURI = TextErr ''invalid request URI''"

definition selectBackendJsonExp :: "('j \<Rightarrow> 'g option) \<Rightarrow> ('g \<Rightarrow> 'w \<Rightarrow> 'w \<times> (gerr + string option)) \<Rightarrow>
    ('q, 'h, 'j) balancer \<Rightarrow> 'w \<Rightarrow> 'w \<times> (gerr + nat)" where
  "selectBackendJsonExp groupOf execute lb w =
     (case getJsonExp groupOf lb of
        None \<Rightarrow> (w, Inl ErrorJsonExpNotFound)
      | Some g \<Rightarrow>
          (case execute g w of
             (w1, Inl e) \<Rightarrow> (w1, Inl e)
           | (w1, Inr None) \<Rightarrow> (w1, Inl ErrorJsonExpNotFound)
           | (w1, Inr (Some targetAlias)) \<Rightarrow>
               (case map_of (lbMap lb) targetAlias of
                  None \<Rightarrow> (w1, Inl ErrorJsonExpNotFound)
                | Some b \<Rightarrow> (w1, Inr b))))"

definition returned :: "nat outcome \<Rightarrow> (gerr + nat) outcome" where
  "returned r = (case r of Panicked \<Rightarrow> Panicked | Returned b \<Rightarrow> Returned (Inr b))"

text \<open>
  \<open>parse\<close> is \<open>url.ParseRequestURI\<close> with \<open>Query\<close>, \<open>register\<close> is \<open>RegisterObject\<close>, called on what the package
  variable holds.
\<close>

definition selectBackend ::
    "(string \<Rightarrow> gerr + string \<times> url_values) \<Rightarrow>
     ('d option \<Rightarrow> string \<Rightarrow> string \<times> url_values \<Rightarrow> 'w \<Rightarrow> 'w outcome) \<Rightarrow> ('j \<Rightarrow> 'g option) \<Rightarrow>
     ('g \<Rightarrow> 'w \<Rightarrow> 'w \<times> (gerr + string option)) \<Rightarrow> nat \<Rightarrow> string \<Rightarrow> string \<Rightarrow>
     ('q, 'h, 'j) balancer \<times> ('d, 'w) jsonExpState \<Rightarrow>
     (('q, 'h, 'j) balancer \<times> ('d, 'w) jsonExpState) \<times> (gerr + nat) outcome" where
  "selectBackend parse register groupOf execute rnd clientIp requestURI = (\<lambda>(lb, st).
     (if length (lbActive lb) = 0 then ((lb, st), Returned (Inl ErrorNoServerDefined))
      else if lbMethod lb = MethodRoundrobin then
        (case selectBackendRoundrobin lb of (lb1, r) \<Rightarrow> ((lb1, st), returned r))
      else if lbMethod lb = MethodRandom then ((lb, st), returned (selectBackendRandom rnd lb))
      else if lbMethod lb = MethodMinPending then
        (case selectBackendMinPending lb of (lb1, r) \<Rightarrow> ((lb1, st), returned r))
      else if lbMethod lb = MethodIpHash then ((lb, st), returned (selectBackendIpHash clientIp lb))
      else if lbMethod lb = MethodURIParam then
        (case parse requestURI of
           Inl _ \<Rightarrow> ((lb, st), Returned (Inl ErrorInvalidRequestURI))
         | Inr (path, query) \<Rightarrow>
             ((lb, st), returned (selectBackendParam (valuesGet query (lbParamKey lb)) lb)))
      else if lbMethod lb = MethodJsonExp then
        (case parse requestURI of
           Inl _ \<Rightarrow> ((lb, st), Returned (Inl ErrorInvalidRequestURI))
         | Inr u \<Rightarrow>
             (case register (jsonExpDict st) JsonExpObjectURI u (jsonExpWorld st) of
                Panicked \<Rightarrow> ((lb, st), Panicked)
              | Returned w \<Rightarrow>
                  (case selectBackendJsonExp groupOf execute lb w of
                     (w1, r) \<Rightarrow> ((lb, st\<lparr>jsonExpWorld := w1\<rparr>), Returned r))))
      else (case selectBackendMinPending lb of (lb1, r) \<Rightarrow> ((lb1, st), returned r))))"

section \<open>The backend for the next request\<close>

text \<open>\<open>time.Since\<close> of the zero time exceeds five seconds.\<close>

definition available :: "int \<Rightarrow> evaluated \<Rightarrow> bool" where
  "available now ec \<longleftrightarrow> \<not> ecPaused ec \<or>
     (case ecLastRequest ec of None \<Rightarrow> True | Some t \<Rightarrow> now - t > 5 * 1000000000)"

text \<open>
  The loop of \<open>getTaskClient\<close>, at most \<open>n\<close> rounds from \<open>idx\<close> on: the new \<open>roundrobinIndex\<close> and the
  best backend so far with its pending requests.
\<close>

definition nextIndex :: "('q, 'h, 'j) balancer \<Rightarrow> i64 \<Rightarrow> i64" where
  "nextIndex lb idx = (if sint (idx + 1) \<ge> int (length (lbActive lb)) then 0 else idx + 1)"

definition better :: "int \<Rightarrow> ('q, 'h, 'j) balancer \<Rightarrow> nat \<Rightarrow> (nat \<times> i64) option \<Rightarrow> (nat \<times> i64) option" where
  "better now lb b best =
     (let pr = PendingRequests (backend lb b) in
      if \<not> available now (backend lb b) then best
      else case best of
        None \<Rightarrow> Some (b, pr)
      | Some (minC, minN) \<Rightarrow> if sint minN > sint pr then Some (b, pr) else best)"

fun taskLoop :: "int \<Rightarrow> ('q, 'h, 'j) balancer \<Rightarrow> nat \<Rightarrow> i64 \<Rightarrow> (nat \<times> i64) option \<Rightarrow>
    (i64 \<times> (nat \<times> i64) option) outcome" where
  "taskLoop now lb 0 idx best = Returned (idx, best)"
| "taskLoop now lb (Suc n) idx best =
     (let idx' = nextIndex lb idx in
      case activeAt lb (sint idx') of
        Panicked \<Rightarrow> Panicked
      | Returned b \<Rightarrow>
          (let best' = better now lb b best in
           if available now (backend lb b) \<and> map_option snd best' = Some 0
           then Returned (idx', best') else taskLoop now lb n idx' best'))"

definition getTaskClient :: "int \<Rightarrow> ('q, 'h, 'j) balancer \<Rightarrow>
    (('q, 'h, 'j) balancer \<times> (gerr + nat)) outcome" where
  "getTaskClient now lb =
     (case taskLoop now lb (max 1 (length (lbActive lb))) (lbRoundrobin lb) None of
        Panicked \<Rightarrow> Panicked
      | Returned (idx, best) \<Rightarrow> Returned (lb\<lparr>lbRoundrobin := idx\<rparr>,
          case best of None \<Rightarrow> Inl (TextErr ''no alived client'') | Some (b, _) \<Rightarrow> Inr b))"

section \<open>The channel of a backend\<close>

definition lbClient :: "('q, 'h, 'j) balancer \<Rightarrow> nat \<Rightarrow> ('q, 'h) client" where
  "lbClient lb b = lbClients lb ! ecClient (backend lb b)"

definition updClient :: "nat \<Rightarrow> (('q, 'h) client \<Rightarrow> ('q, 'h) client) \<Rightarrow> ('q, 'h, 'j) balancer \<Rightarrow>
    ('q, 'h, 'j) balancer" where
  "updClient b f lb = lb\<lparr>lbClients :=
     (lbClients lb)[ecClient (backend lb b) := f (lbClient lb b)]\<rparr>"

text \<open>
  \<open>getTaskChannel\<close>. A client channel is named by its connection and internal channel. \<open>exchange\<close> is
  the request for a channel on the system channel of a new connection, until \<open>DoRequest\<close> returns;
  \<open>unmarshal\<close> decodes the response, \<open>ucrq\<close> are new queues of requests.
\<close>

definition newTaskChannel ::
    "('q conn \<Rightarrow> 'q conn \<times> (gerr + byte list)) \<Rightarrow> (byte list \<Rightarrow> gerr + int \<times> string \<times> u32) \<Rightarrow> nat \<Rightarrow>
     'q \<Rightarrow> nat \<Rightarrow> ('q, 'h) client \<Rightarrow> ('q, 'h) client \<times> (gerr + nat)" where
  "newTaskChannel exchange unmarshal pick ucrq k cl =
     (let (c1, resp) = exchange ((clConns cl ! k)\<lparr>cnOwner := clOwner cl\<rparr>);
          (c2, r) = Client_finishNewChannel unmarshal pick ucrq (clConfig cl) resp c1
      in (onConn k (\<lambda>_. c2) cl, r))"

definition getTaskChannel ::
    "gerr option \<Rightarrow> ('q conn \<Rightarrow> 'q conn \<times> (gerr + byte list)) \<Rightarrow>
     (byte list \<Rightarrow> gerr + int \<times> string \<times> u32) \<Rightarrow> nat \<Rightarrow> 'q \<Rightarrow> 'q \<Rightarrow> nat \<Rightarrow> ('q, 'h, 'j) balancer \<Rightarrow>
     (('q, 'h, 'j) balancer \<times> (gerr + nat \<times> nat)) outcome" where
  "getTaskChannel dial exchange unmarshal pick q0 q1 b lb =
     (let cl = lbClient lb b; addr = clServerAddr cl in
      if sint (clConnCount cl) < sint (scast (lbServerKeepConns lb) :: 32 word) then
        (case Client_newConnection dial q0 cl of
           (cl1, Inl err) \<Rightarrow> Returned (updClient b (\<lambda>_. cl1) lb,
             Inl (TextErr (''connect to '' @ addr @ '' fail, '' @ errorText err)))
         | (cl1, Inr k) \<Rightarrow>
             (case newTaskChannel exchange unmarshal pick q1 k cl1 of
                (cl2, Inl err) \<Rightarrow> Returned (updClient b (\<lambda>_. Client_removeConnection k cl2) lb,
                  Inl (TextErr (''new channel to '' @ addr @ '' fail, '' @ errorText err)))
              | (cl2, Inr a) \<Rightarrow>
                  Returned (updClient b (\<lambda>_. onConn k (\<lambda>c. c\<lparr>cnCtx :=
                      SetCtxData (cnCtx c) CtxLblClientChannel (Some (CvClientChannel a))\<rparr>) cl2) lb,
                    Inr (k, a))))
      else
        let i = (if int (ecConnIndex (backend lb b)) + 1 \<ge> sint (clConnCount cl) then 0
                 else ecConnIndex (backend lb b) + 1);
            lb1 = updBackend b (\<lambda>ec. ec\<lparr>ecConnIndex := i\<rparr>) lb
        in if i \<ge> length (connections cl) then Panicked
           else let k = connections cl ! i in
             (case GetCtxData (cnCtx (clConns cl ! k)) CtxLblClientChannel of
                None \<Rightarrow> Returned (lb1, Inl (TextErr ''connection have no lbl-client-channel''))
              | Some (CvClientChannel a) \<Rightarrow> Returned (lb1, Inr (k, a))
              | Some _ \<Rightarrow> Panicked))"

section \<open>Requests\<close>

text \<open>\<open>EvaluatedClient.DoRequest\<close> up to the request on its channel, and after it.\<close>

definition addPending :: "i64 \<Rightarrow> evaluated \<Rightarrow> evaluated" where
  "addPending n ec = ec\<lparr>ecPending := ecPending ec + n\<rparr>"

definition Evaluated_begin ::
    "(('q, 'h, 'j) balancer \<Rightarrow> (('q, 'h, 'j) balancer \<times> (gerr + nat \<times> nat)) outcome) \<Rightarrow> int \<Rightarrow> nat \<Rightarrow>
     ('q, 'h, 'j) balancer \<Rightarrow> (('q, 'h, 'j) balancer \<times> (gerr + nat \<times> nat)) outcome" where
  "Evaluated_begin taskChannel now b lb =
     (case taskChannel (updBackend b (addPending 1) lb) of
        Panicked \<Rightarrow> Panicked
      | Returned (lb1, Inl err) \<Rightarrow>
          Returned (updBackend b (\<lambda>ec. addPending (- 1) (ec\<lparr>ecErr := Some err, ecPaused := True\<rparr>)) lb1,
                    Inl err)
      | Returned (lb1, Inr ka) \<Rightarrow>
          Returned (updBackend b (\<lambda>ec. ec\<lparr>ecPaused := False, ecLastRequest := Some now\<rparr>) lb1, Inr ka))"

definition Evaluated_end :: "nat \<Rightarrow> nat \<times> nat \<Rightarrow> gerr + byte list \<Rightarrow> ('q, 'h, 'j) balancer \<Rightarrow>
    ('q, 'h, 'j) balancer \<times> byte list \<times> gerr option" where
  "Evaluated_end b ka result lb =
     (case result of
        Inr resp \<Rightarrow> (updBackend b (addPending (- 1)) lb, resp, None)
      | Inl err \<Rightarrow>
          let (k, a) = ka;
              lb1 = updClient b (\<lambda>cl. Client_closeConn k
                      (Some (TextErr (''client do request fail, '' @ errorText err)))
                      (onConn k (ClientChannel_Close (Some a) (Some err)) cl)) lb
          in (updBackend b (addPending (- 1)) lb1, [],
              Some (TextErr (''request ['' @ clServerAddr (lbClient lb b) @ ''], '' @ errorText err))))"

text \<open>\<open>DoRequest2\<close> around it counts the request once more and asks the health check afterwards.\<close>

definition healthCheckOf :: "evaluated \<Rightarrow> healthCheck" where
  "healthCheckOf ec = (case ecHealthCheck ec of None \<Rightarrow> DefaultHealthCheck | Some f \<Rightarrow> f)"

definition DoRequest2_end :: "nat \<Rightarrow> byte list \<Rightarrow> byte list \<Rightarrow> gerr option \<Rightarrow> ('q, 'h, 'j) balancer \<Rightarrow>
    ('q, 'h, 'j) balancer" where
  "DoRequest2_end b req ret err lb =
     updBackend b (\<lambda>ec.
       if \<not> healthCheckOf ec req ret err then ec\<lparr>ecFailCount := ecFailCount ec + 1\<rparr>
       else ec\<lparr>ecFailCount := quot64 (ecFailCount ec) 2\<rparr>) (updBackend b (addPending (- 1)) lb)"

text \<open>After \<open>DoRequest\<close> of the balancer: more than five errors in a row pause the backend.\<close>

definition DoRequest_end :: "nat \<Rightarrow> gerr option \<Rightarrow> ('q, 'h, 'j) balancer \<Rightarrow> ('q, 'h, 'j) balancer" where
  "DoRequest_end b err lb =
     updBackend b (\<lambda>ec. case err of
         Some e \<Rightarrow>
           (let ec1 = ec\<lparr>ecErrorCount := ecErrorCount ec + 1\<rparr>
            in if ecErrorCount ec1 > 5 then ec1\<lparr>ecPaused := True\<rparr> else ec1)
       | None \<Rightarrow>
           (let ec1 = (if ecErrorCount ec > 0 then ec\<lparr>ecErrorCount := 0\<rparr> else ec)
            in if ecErrorCount ec1 = 0 \<and> ecPaused ec1 then ec1\<lparr>ecErr := None, ecPaused := False\<rparr>
               else ec1)) lb"

text \<open>
  The whole calls, when nothing else happens while they wait: \<open>taskChannel\<close> as in \<open>getTaskChannel\<close>,
  \<open>request\<close> the exchange on the channel.
\<close>

definition Evaluated_DoRequest ::
    "(nat \<Rightarrow> ('q, 'h, 'j) balancer \<Rightarrow> (('q, 'h, 'j) balancer \<times> (gerr + nat \<times> nat)) outcome) \<Rightarrow>
     (nat \<times> nat \<Rightarrow> ('q, 'h, 'j) balancer \<Rightarrow> ('q, 'h, 'j) balancer \<times> (gerr + byte list)) \<Rightarrow> int \<Rightarrow> nat \<Rightarrow>
     ('q, 'h, 'j) balancer \<Rightarrow> (('q, 'h, 'j) balancer \<times> byte list \<times> gerr option) outcome" where
  "Evaluated_DoRequest taskChannel request now b lb =
     (case Evaluated_begin (taskChannel b) now b lb of
        Panicked \<Rightarrow> Panicked
      | Returned (lb1, Inl err) \<Rightarrow> Returned (lb1, [], Some err)
      | Returned (lb1, Inr ka) \<Rightarrow>
          (case request ka lb1 of (lb2, result) \<Rightarrow> Returned (Evaluated_end b ka result lb2)))"

definition Balancer_DoRequest ::
    "('w \<Rightarrow> 'd \<times> 'w) \<Rightarrow> ('d \<Rightarrow> string \<Rightarrow> 'w \<Rightarrow> 'w) \<Rightarrow>
     (nat \<Rightarrow> ('q, 'h, 'j) balancer \<Rightarrow> (('q, 'h, 'j) balancer \<times> (gerr + nat \<times> nat)) outcome) \<Rightarrow>
     (nat \<times> nat \<Rightarrow> ('q, 'h, 'j) balancer \<Rightarrow> ('q, 'h, 'j) balancer \<times> (gerr + byte list)) \<Rightarrow> int \<Rightarrow>
     ('q, 'h, 'j) balancer \<times> ('d, 'w) jsonExpState \<Rightarrow>
     ('d, 'w) jsonExpState \<times> (('q, 'h, 'j) balancer \<times> byte list \<times> gerr option) outcome" where
  "Balancer_DoRequest newDictionary registerVar taskChannel request now = (\<lambda>(lb, st).
     (doInit newDictionary registerVar st,
      case getTaskClient now lb of
        Panicked \<Rightarrow> Panicked
      | Returned (lb1, Inl err) \<Rightarrow> Returned (lb1, [], Some err)
      | Returned (lb1, Inr b) \<Rightarrow>
          (case Evaluated_DoRequest taskChannel request now b lb1 of
             Panicked \<Rightarrow> Panicked
           | Returned (lb2, ret, err) \<Rightarrow> Returned (DoRequest_end b err lb2, ret, err))))"

definition Balancer_DoRequest2 ::
    "(('q, 'h, 'j) balancer \<times> ('d, 'w) jsonExpState \<Rightarrow>
        (('q, 'h, 'j) balancer \<times> ('d, 'w) jsonExpState) \<times> (gerr + nat) outcome) \<Rightarrow>
     (nat \<Rightarrow> ('q, 'h, 'j) balancer \<Rightarrow> (('q, 'h, 'j) balancer \<times> (gerr + nat \<times> nat)) outcome) \<Rightarrow>
     (nat \<times> nat \<Rightarrow> ('q, 'h, 'j) balancer \<Rightarrow> ('q, 'h, 'j) balancer \<times> (gerr + byte list)) \<Rightarrow> byte list \<Rightarrow> int \<Rightarrow>
     ('q, 'h, 'j) balancer \<times> ('d, 'w) jsonExpState \<Rightarrow>
     ('d, 'w) jsonExpState \<times> (('q, 'h, 'j) balancer \<times> byte list \<times> gerr option) outcome" where
  "Balancer_DoRequest2 select taskChannel request req now lbst =
     (case select lbst of
        ((lb1, st1), Panicked) \<Rightarrow> (st1, Panicked)
      | ((lb1, st1), Returned (Inl err)) \<Rightarrow> (st1, Returned (lb1, [], Some err))
      | ((lb1, st1), Returned (Inr b)) \<Rightarrow>
          (st1,
           case Evaluated_DoRequest taskChannel request now b (updBackend b (addPending 1) lb1) of
             Panicked \<Rightarrow> Panicked
           | Returned (lb2, ret, err) \<Rightarrow> Returned (DoRequest2_end b req ret err lb2, ret, err)))"

section \<open>Reports\<close>

definition Balancer_Status :: "('q, 'h, 'j) balancer \<Rightarrow> string" where
  "Balancer_Status lb = concat (map (\<lambda>b. clServerAddr (lbClient lb b) @ newline) (lbActive lb))"

definition GetPendingRequests :: "('q, 'h, 'j) balancer \<Rightarrow> byte list" where
  "GetPendingRequests lb = bytesOf (jsonDict (map (\<lambda>(addr, n). (addr, jsonInt n))
     (fold (\<lambda>b ret. let addr = clServerAddr (lbClient lb b); pr = PendingRequests (backend lb b)
        in case map_of ret addr of
             None \<Rightarrow> AList.update addr pr ret
           | Some n \<Rightarrow> AList.update addr (n + pr) ret) (lbActive lb) [])))"

definition Balancer_GetConnectionStatis :: "('q, 'h, 'j) balancer \<Rightarrow> byte list" where
  "Balancer_GetConnectionStatis lb = bytesOf (jsonDict
     (fold (\<lambda>b ret. let cl = lbClient lb b in AList.update (clServerAddr cl)
        (jsonDict (map (\<lambda>(i, a). (showNat i, ConnectionSatis_Json (connectionStatis (clConns cl ! a))))
           (enumerate 0 (connections cl)))) ret) (lbActive lb) []))"

section \<open>Weights\<close>

text \<open>
  The order of the backends without the loop: in round \<open>r\<close> every server whose weight exceeds \<open>r\<close>,
  in the order of the list.
\<close>

definition weightTurn :: "nat list \<Rightarrow> nat \<Rightarrow> nat list" where
  "weightTurn ws r = map fst (filter (\<lambda>(k, w). r < w) (enumerate 0 ws))"

definition interleaved :: "nat list \<Rightarrow> nat list" where
  "interleaved ws = concat (map (weightTurn ws) [0..<foldr max ws 0])"

lemma weightRound_eq:
  "weightRound i ws = (map (\<lambda>w. w - 1) ws, map fst (filter (\<lambda>(k, w). 0 < w) (enumerate i ws)),
     \<exists>w \<in> set ws. 1 < w)"
  by (induction ws arbitrary: i) auto

lemma enumerate_map: "enumerate i (map f xs) = map (\<lambda>(k, x). (k, f x)) (enumerate i xs)"
  by (induction xs arbitrary: i) auto

lemma weightTurn_pred: "weightTurn (map (\<lambda>w. w - 1) ws) r = weightTurn ws (Suc r)"
proof -
  have "(case p of (k, w) \<Rightarrow> r < w - 1) \<longleftrightarrow> (case p of (k, w) \<Rightarrow> Suc r < w)" for p :: "nat \<times> nat"
    by (cases p) auto
  then show ?thesis
    by (simp add: weightTurn_def enumerate_map filter_map comp_def split_def map_map less_diff_conv)
qed

lemma foldr_max_pred: "foldr max (map (\<lambda>w. w - 1) ws) 0 = foldr max ws (0 :: nat) - 1"
  by (induction ws) auto

lemma foldr_max_bound: "w \<in> set ws \<Longrightarrow> w \<le> foldr max ws (0 :: nat)"
  by (induction ws) auto

lemma foldr_max_mem: "foldr max ws (0 :: nat) > 0 \<Longrightarrow> foldr max ws 0 \<in> set ws"
  by (induction ws) (auto simp: max_def split: if_splits)

lemma weightLoop_interleaved: "weightLoop ws = interleaved ws"
proof (induction ws rule: weightLoop.induct)
  case (1 ws)
  let ?ws' = "map (\<lambda>w. w - 1) ws"
  let ?m = "foldr max ws 0"
  have turn0: "weightRound 0 ws = (?ws', weightTurn ws 0, \<exists>w \<in> set ws. 1 < w)"
    by (simp add: weightRound_eq weightTurn_def)
  show ?case
  proof (cases "\<exists>w \<in> set ws. 1 < w")
    case True
    then obtain w where "w \<in> set ws" "1 < w" by blast
    with foldr_max_bound [of w ws] have m: "[0..<?m] = 0 # map Suc [0..<?m - 1]"
      by (simp add: map_Suc_upt upt_conv_Cons)
    have "weightLoop ws = weightTurn ws 0 @ weightLoop ?ws'"
      using True turn0 by (subst weightLoop.simps) simp
    also have "weightLoop ?ws' = interleaved ?ws'"
      using 1 [OF turn0 [symmetric] refl] True by simp
    also have "interleaved ?ws' = concat (map (weightTurn ws) (map Suc [0..<?m - 1]))"
      by (simp add: interleaved_def foldr_max_pred weightTurn_pred [THEN ext] comp_def
          del: One_nat_def)
    finally show ?thesis unfolding interleaved_def m by simp
  next
    case False
    then have "?m \<le> 1" using foldr_max_mem [of ws] by force
    then consider "?m = 0" | "?m = 1" by linarith
    moreover have "weightTurn ws 0 = []" if "?m = 0"
    proof -
      have "w = 0" if "w \<in> set ws" for w using foldr_max_bound [OF that] \<open>?m = 0\<close> by simp
      then show ?thesis by (auto simp: weightTurn_def filter_empty_conv in_set_enumerate_eq)
    qed
    moreover have "weightLoop ws = weightTurn ws 0"
      using False turn0 by (subst weightLoop.simps) simp
    ultimately show ?thesis by cases (simp_all add: interleaved_def)
  qed
qed

lemma count_weightTurn:
  "count_list (weightTurn ws r) i = (if i < length ws \<and> r < ws ! i then 1 else 0)"
proof -
  have "count_list (map fst (filter (\<lambda>(k, w). r < w) (enumerate n ws))) i =
      (if n \<le> i \<and> i < n + length ws \<and> r < ws ! (i - n) then 1 else 0)" for n
  proof (induction ws arbitrary: n)
    case (Cons w ws)
    show ?case using Cons [of "Suc n"] by (auto simp: nth_Cons' Suc_diff_le)
  qed simp
  from this [of 0] show ?thesis by (simp add: weightTurn_def)
qed

lemma count_weightLoop:
  "count_list (weightLoop ws) i = (if i < length ws then ws ! i else 0)"
proof -
  have concat_count: "count_list (concat xss) i = sum_list (map (\<lambda>xs. count_list xs i) xss)" for xss :: "nat list list"
    by (induction xss) simp_all
  have turns: "sum_list (map (\<lambda>r. if r < w then 1 else 0 :: nat) [0..<n]) = min w n" for w n
    by (induction n) auto
  have "ws ! i \<le> foldr max ws 0" if "i < length ws" using that by (simp add: foldr_max_bound)
  then show ?thesis
    by (simp add: weightLoop_interleaved interleaved_def concat_count comp_def count_weightTurn turns min_absorb1)
qed

section \<open>The list of servers is read back\<close>

lemma splitAt_single: "c \<notin> set xs \<Longrightarrow> splitAt c xs = [xs]"
  by (induction xs) auto

lemma splitAt_append: "c \<notin> set xs \<Longrightarrow> splitAt c (xs @ c # ys) = xs # splitAt c ys"
  by (induction xs) auto

lemma splitAt_joinWith:
  "xs \<noteq> [] \<Longrightarrow> \<forall>x \<in> set xs. c \<notin> set x \<Longrightarrow> splitAt c (joinWith [c] xs) = xs"
  by (induction "[c]" xs rule: joinWith.induct) (simp_all add: splitAt_single splitAt_append)

lemma digit_facts:
  assumes "isDigit d"
  shows "d \<noteq> CHR ''-''" "d \<noteq> CHR ''+''" "d \<noteq> CHR '',''" "d \<noteq> CHR ''#''" "\<not> isSpace d"
  using assms by (auto simp: isDigit_def isSpace_def)

lemma atoi_showNat:
  assumes "n < 2 ^ 63"
  shows "atoi (showNat n) = Some (int n)"
proof -
  obtain d ds where s: "showNat n = d # ds" by (cases "showNat n") auto
  have all: "\<forall>c \<in> set (showNat n). isDigit c" by (rule showNat_digits)
  then have "isDigit d" using s by simp
  with digit_facts [OF this] s have "atoi (showNat n) = atoiDigits False (showNat n)" by simp
  also have "\<dots> = Some (int n)"
    using assms all by (simp add: atoiDigits_def list_all_iff)
  finally show ?thesis .
qed

text \<open>An address without blanks at its start and without the separators, and a weight allowed.\<close>

definition serverEntry :: "string \<times> nat \<Rightarrow> bool" where
  "serverEntry e \<longleftrightarrow> fst e \<noteq> '''' \<and> \<not> isSpace (hd (fst e)) \<and> CHR '','' \<notin> set (fst e) \<and>
     CHR ''#'' \<notin> set (fst e) \<and> 1 \<le> snd e \<and> snd e \<le> 100"

definition entryText :: "string \<times> nat \<Rightarrow> string" where
  "entryText e = fst e @ ''#'' @ showNat (snd e)"

definition serverListText :: "(string \<times> nat) list \<Rightarrow> string" where
  "serverListText es = joinWith '','' (map entryText es)"

lemma trimSpace_id:
  assumes "s \<noteq> []" "\<not> isSpace (hd s)" "\<not> isSpace (last s)"
  shows "trimSpace s = s"
proof -
  have "dropWhile isSpace s = s" using assms by (cases s) auto
  moreover have "dropWhile isSpace (rev s) = rev s"
    using assms by (cases "rev s") (auto simp: hd_rev [symmetric])
  ultimately show ?thesis by (simp add: trimSpace_def)
qed

lemma parseServer_entry:
  assumes "serverEntry e"
  shows "parseServer (entryText e) = Some e"
proof -
  obtain a w where e: "e = (a, w)" by force
  have "last (entryText e) \<in> set (showNat w)" by (simp add: entryText_def e)
  then have "\<not> isSpace (last (entryText e))" using digit_facts(5) showNat_digits by blast
  have "trimSpace (entryText e) = entryText e"
    using assms \<open>\<not> isSpace (last (entryText e))\<close>
    by (intro trimSpace_id) (auto simp: entryText_def e serverEntry_def hd_append)
  moreover have "splitAt (CHR ''#'') (entryText e) = [a, showNat w]"
  proof -
    have "CHR ''#'' \<notin> set (showNat w)" using digit_facts(4) showNat_digits by blast
    then show ?thesis
      using assms by (simp add: entryText_def e serverEntry_def splitAt_append splitAt_single)
  qed
  moreover have "atoi (showNat w) = Some (int w)"
    by (rule atoi_showNat) (use assms in \<open>auto simp: e serverEntry_def\<close>)
  ultimately show ?thesis
    using assms by (auto simp: parseServer_def Let_def e serverEntry_def entryText_def)
qed

lemma parseServers_text:
  assumes "es \<noteq> []" "\<forall>e \<in> set es. serverEntry e"
  shows "parseServers (serverListText es) = es"
proof -
  have "CHR '','' \<notin> set (entryText e)" if "e \<in> set es" for e
  proof -
    have "CHR '','' \<notin> set (showNat (snd e))" using digit_facts(3) showNat_digits by blast
    then show ?thesis using that assms(2) by (auto simp: entryText_def serverEntry_def)
  qed
  then have "splitAt (CHR '','') (serverListText es) = map entryText es"
    unfolding serverListText_def using assms(1) by (intro splitAt_joinWith) auto
  moreover have "List.map_filter parseServer (map entryText es) = es"
    using assms(2) by (induction es) (simp_all add: map_filter_simps parseServer_entry)
  ultimately show ?thesis by (simp add: parseServers_def)
qed

lemma NewLoadBalanceClient_text:
  assumes "es \<noteq> []" "\<forall>e \<in> set es. serverEntry e"
    and "NewLoadBalanceClient keep maxc (serverListText es) = Inr (lb :: ('q, 'h, 'j) balancer)"
  shows "lbActive lb = [0..<length (lbBackends lb)]"
    "lbBackends lb = map (\<lambda>i. newBackend (backendAlias (fst (es ! i)) i 0) i None) (weightLoop (map snd es))"
    "lbClients lb = map (\<lambda>(addr, w). NewClient (backendConfig maxc) addr None) es"
    "lbRoundrobin lb = 0" "lbMap lb = []"
  using assms(3) parseServers_text [OF assms(1,2)] assms(1)
  by (auto simp: NewLoadBalanceClient_def Let_def)

lemma weightLoop_bound: "i \<in> set (weightLoop ws) \<Longrightarrow> i < length ws"
  by (metis count_list_0_iff count_weightLoop)

text \<open>C28: A load balancing client made from a list of servers with weights has one backend for each
  unit of weight, in the order in which the loop hands them out: round by round, in each round
  the servers whose weight is not used up, in the order of the list; the loop ends.\<close>

theorem server_list_weights:
  fixes lb :: "('q, 'h, 'j) balancer"
  assumes "es \<noteq> []" and "\<forall>e \<in> set es. serverEntry e"
    and "NewLoadBalanceClient keep maxc (serverListText es) = Inr lb"
  shows "map (\<lambda>b. ecClient (backend lb b)) (lbActive lb) = interleaved (map snd es) \<and>
    (\<forall>i < length es. count_list (map (\<lambda>b. ecClient (backend lb b)) (lbActive lb)) i = snd (es ! i)) \<and>
    map (\<lambda>b. clServerAddr (lbClient lb b)) (lbActive lb) =
      map (\<lambda>i. fst (es ! i)) (interleaved (map snd es))"
proof -
  note lb = NewLoadBalanceClient_text [OF assms]
  let ?is = "weightLoop (map snd es)"
  have b: "map (\<lambda>b. f (backend lb b)) (lbActive lb) =
      map (\<lambda>i. f (newBackend (backendAlias (fst (es ! i)) i 0) i None)) ?is" for f :: "evaluated \<Rightarrow> 'x"
    unfolding lb(1) backend_def by (intro nth_equalityI) (simp_all add: lb(2))
  have clients: "map (\<lambda>b. ecClient (backend lb b)) (lbActive lb) = ?is"
    using b [of ecClient] by (simp add: newBackend_def)
  have "map (\<lambda>b. clServerAddr (lbClient lb b)) (lbActive lb) =
      map (\<lambda>i. clServerAddr (lbClients lb ! i)) ?is"
    using clients by (metis (mono_tags, lifting) lbClient_def list.map_comp comp_apply map_eq_conv)
  also have "\<dots> = map (\<lambda>i. fst (es ! i)) ?is"
    using weightLoop_bound [of _ "map snd es"]
    by (auto simp: lb(3) NewClient_def split_def)
  finally show ?thesis
    using clients by (simp add: weightLoop_interleaved [symmetric] count_weightLoop)
qed

definition twoServers :: "(string \<times> nat) list" where
  "twoServers = [(''10.0.0.1:9090'', 2), (''10.0.0.2:9090'', 1)]"

lemma twoServers_ok: "twoServers \<noteq> []" "\<forall>e \<in> set twoServers. serverEntry e"
  by (simp_all add: twoServers_def serverEntry_def isSpace_def)

definition twoBalancer :: "(nat, nat, unit) balancer" where
  "twoBalancer = (case NewLoadBalanceClient 1 4 (serverListText twoServers) of Inr lb \<Rightarrow> lb)"

lemma twoBalancer_made: "NewLoadBalanceClient 1 4 (serverListText twoServers) = Inr twoBalancer"
  using parseServers_text [OF twoServers_ok] twoServers_ok(1)
  by (simp add: twoBalancer_def NewLoadBalanceClient_def Let_def)

theorem server_list_weights_witness:
  "serverListText twoServers = ''10.0.0.1:9090#2,10.0.0.2:9090#1'' \<and>
   map (\<lambda>b. clServerAddr (lbClient twoBalancer b)) (lbActive twoBalancer) =
     [''10.0.0.1:9090'', ''10.0.0.2:9090'', ''10.0.0.1:9090'']"
proof -
  have "interleaved (map snd twoServers) = [0, 1, 0]"
    by (simp add: interleaved_def weightTurn_def twoServers_def upt_rec)
  moreover have "serverListText twoServers = ''10.0.0.1:9090#2,10.0.0.2:9090#1''" by code_simp
  ultimately show ?thesis
    using server_list_weights [OF twoServers_ok twoBalancer_made] by (simp add: twoServers_def)
qed

section \<open>The loop over the backends\<close>

text \<open>Lengths of slices fit in an \<open>int\<close>; the index is not negative and not the largest \<open>int64\<close>.\<close>

definition indexOk :: "('q, 'h, 'j) balancer \<Rightarrow> i64 \<Rightarrow> bool" where
  "indexOk lb idx \<longleftrightarrow> lbActive lb \<noteq> [] \<and> int (length (lbActive lb)) < 2 ^ 63 \<and>
     0 \<le> sint idx \<and> sint idx < 2 ^ 63 - 1"

definition nextPos :: "('q, 'h, 'j) balancer \<Rightarrow> i64 \<Rightarrow> nat" where
  "nextPos lb idx = (if int (length (lbActive lb)) \<le> sint idx + 1 then 0 else nat (sint idx + 1))"

lemma nextIndex_sint:
  assumes "indexOk lb idx"
  shows "sint (nextIndex lb idx) = int (nextPos lb idx)" "nextPos lb idx < length (lbActive lb)"
    "indexOk lb (nextIndex lb idx)"
    "nextPos lb (nextIndex lb idx) =
      (if length (lbActive lb) \<le> nextPos lb idx + 1 then 0 else nextPos lb idx + 1)"
proof -
  have bounds: "0 \<le> sint idx" "sint idx < 2 ^ 63 - 1" "int (length (lbActive lb)) < 2 ^ 63"
    "0 < length (lbActive lb)"
    using assms by (auto simp: indexOk_def)
  have "sint (idx + 1) = signed_take_bit 63 (sint idx + 1)" by (simp add: sint_word_ariths)
  also have "\<dots> = sint idx + 1"
    using bounds by (intro signed_take_bit_int_eq_self) simp_all
  finally have suc: "sint (idx + 1) = sint idx + 1" .
  then show s: "sint (nextIndex lb idx) = int (nextPos lb idx)"
    using bounds by (simp add: nextIndex_def nextPos_def)
  show p: "nextPos lb idx < length (lbActive lb)" using bounds by (auto simp: nextPos_def)
  then show "indexOk lb (nextIndex lb idx)" using assms s by (simp add: indexOk_def)
  show "nextPos lb (nextIndex lb idx) =
      (if length (lbActive lb) \<le> nextPos lb idx + 1 then 0 else nextPos lb idx + 1)"
    unfolding nextPos_def [of lb "nextIndex lb idx"] s by auto
qed

lemma take_rotate_step:
  assumes "p < length xs" "n < length xs"
  shows "take (Suc n) (rotate p xs) =
    xs ! p # take n (rotate (if length xs \<le> p + 1 then 0 else p + 1) xs)"
proof (cases "length xs \<le> p + 1")
  case True
  then have "drop p xs = [xs ! p]" using assms by (simp add: Cons_nth_drop_Suc [symmetric])
  moreover have "n \<le> p" using True assms by simp
  ultimately show ?thesis using True assms by (simp add: rotate_drop_take min_absorb1)
next
  case False
  have "take n (drop (Suc p) xs @ take (Suc p) xs) = take n (drop (Suc p) xs @ take p xs)"
    using False assms by (simp add: take_Suc_conv_app_nth)
  then show ?thesis
    using False assms by (simp add: rotate_drop_take Cons_nth_drop_Suc [symmetric])
qed

text \<open>The loop over a list of backends instead of indices.\<close>

fun scanTasks :: "int \<Rightarrow> ('q, 'h, 'j) balancer \<Rightarrow> nat list \<Rightarrow> (nat \<times> i64) option \<Rightarrow> (nat \<times> i64) option" where
  "scanTasks now lb [] best = best"
| "scanTasks now lb (b # bs) best =
     (let best' = better now lb b best
      in if available now (backend lb b) \<and> map_option snd best' = Some 0 then best'
         else scanTasks now lb bs best')"

lemma taskLoop_scan:
  "indexOk lb idx \<Longrightarrow> n \<le> length (lbActive lb) \<Longrightarrow>
    \<exists>idx'. taskLoop now lb n idx best =
      Returned (idx', scanTasks now lb (take n (rotate (nextPos lb idx) (lbActive lb))) best)"
proof (induction n arbitrary: idx best)
  case (Suc n)
  note step = nextIndex_sint [OF Suc.prems(1)]
  have at: "activeAt lb (sint (nextIndex lb idx)) = Returned (lbActive lb ! nextPos lb idx)"
    using step by (simp add: activeAt_def)
  have take: "take (Suc n) (rotate (nextPos lb idx) (lbActive lb)) = lbActive lb ! nextPos lb idx #
      take n (rotate (nextPos lb (nextIndex lb idx)) (lbActive lb))"
    unfolding step(4) using step(2) Suc.prems(2) by (intro take_rotate_step) simp_all
  show ?case
    unfolding take using Suc.IH [OF step(3)] Suc.prems(2) at by (auto simp: Let_def)
qed simp

definition bestOk :: "int \<Rightarrow> ('q, 'h, 'j) balancer \<Rightarrow> (nat \<times> i64) option \<Rightarrow> bool" where
  "bestOk now lb best \<longleftrightarrow> (\<forall>b n. best = Some (b, n) \<longrightarrow>
     n = PendingRequests (backend lb b) \<and> available now (backend lb b))"

lemma better_ok: "bestOk now lb best \<Longrightarrow> bestOk now lb (better now lb b best)"
  by (auto simp: bestOk_def better_def Let_def split: option.splits)

lemma scanTasks_least:
  assumes "\<forall>b \<in> set bs. 0 \<le> sint (PendingRequests (backend lb b))" "bestOk now lb best"
  shows "bestOk now lb (scanTasks now lb bs best) \<and>
    (scanTasks now lb bs best = None \<longleftrightarrow> best = None \<and> (\<forall>b \<in> set bs. \<not> available now (backend lb b))) \<and>
    (\<forall>b n. scanTasks now lb bs best = Some (b, n) \<longrightarrow>
       (b \<in> set bs \<or> best = Some (b, n)) \<and>
       (\<forall>b' \<in> set bs. available now (backend lb b') \<longrightarrow> sint n \<le> sint (PendingRequests (backend lb b'))) \<and>
       (\<forall>b' n'. best = Some (b', n') \<longrightarrow> sint n \<le> sint n'))"
  using assms
proof (induction bs arbitrary: best)
  case Nil
  then show ?case by simp
next
  case (Cons b bs)
  let ?best = "better now lb b best"
  have ok: "bestOk now lb ?best" using Cons.prems(2) by (rule better_ok)
  have cases: "?best = best \<and> (available now (backend lb b) \<longrightarrow>
        (\<exists>m n. best = Some (m, n) \<and> sint n \<le> sint (PendingRequests (backend lb b)))) \<or>
      ?best = Some (b, PendingRequests (backend lb b)) \<and> available now (backend lb b) \<and>
        (\<forall>m n. best = Some (m, n) \<longrightarrow> sint (PendingRequests (backend lb b)) < sint n)"
    by (auto simp: better_def Let_def split: option.splits)
  show ?case
  proof (cases "available now (backend lb b) \<and> map_option snd ?best = Some 0")
    case True
    then obtain m where m: "?best = Some (m, 0)" by auto
    have zero: "0 \<le> sint (PendingRequests (backend lb b'))" if "b' \<in> set (b # bs)" for b'
      using that Cons.prems(1) by blast
    from True m have scan: "scanTasks now lb (b # bs) best = Some (m, 0)" by simp
    show ?thesis
      unfolding scan using ok m zero cases True by (auto simp: Ball_def)
  next
    case False
    then have scan: "scanTasks now lb (b # bs) best = scanTasks now lb bs ?best" by auto
    from Cons.IH [of ?best] ok Cons.prems(1)
    have ih: "bestOk now lb (scanTasks now lb bs ?best)"
      "scanTasks now lb bs ?best = None \<longleftrightarrow> ?best = None \<and> (\<forall>b \<in> set bs. \<not> available now (backend lb b))"
      "\<And>m n. scanTasks now lb bs ?best = Some (m, n) \<Longrightarrow>
         (m \<in> set bs \<or> ?best = Some (m, n)) \<and>
         (\<forall>b' \<in> set bs. available now (backend lb b') \<longrightarrow> sint n \<le> sint (PendingRequests (backend lb b'))) \<and>
         (\<forall>b' n'. ?best = Some (b', n') \<longrightarrow> sint n \<le> sint n')"
      by simp_all
    show ?thesis
      unfolding scan
    proof (intro conjI)
      show "bestOk now lb (scanTasks now lb bs ?best)" by (rule ih(1))
      show "scanTasks now lb bs ?best = None \<longleftrightarrow>
          best = None \<and> (\<forall>b' \<in> set (b # bs). \<not> available now (backend lb b'))"
        unfolding ih(2) using cases by auto
    qed (use ih(3) cases in \<open>fastforce+\<close>)
  qed
qed

lemma getTaskClient_scan:
  assumes "indexOk lb (lbRoundrobin lb)"
  shows "\<exists>idx. getTaskClient now lb = Returned (lb\<lparr>lbRoundrobin := idx\<rparr>,
    case scanTasks now lb (rotate (nextPos lb (lbRoundrobin lb)) (lbActive lb)) None of
      None \<Rightarrow> Inl (TextErr ''no alived client'') | Some (b, _) \<Rightarrow> Inr b)"
proof -
  have "max 1 (length (lbActive lb)) = length (lbActive lb)"
    using assms by (cases "lbActive lb") (auto simp: indexOk_def)
  with taskLoop_scan [OF assms order_refl, of now None] show ?thesis
    by (auto simp: getTaskClient_def)
qed

text \<open>C29: \<open>getTaskClient\<close> never panics on a list with backends, as long as its turn index and the pending
  counts of its backends are not negative (they are 64 bit counters): it returns the error that none is
  alive when all are paused with a request in the last five seconds, and otherwise a backend of
  the list that is not, with the least number of pending requests among all such backends.\<close>

theorem getTaskClient_least:
  assumes "indexOk lb (lbRoundrobin lb)"
    and "\<forall>b \<in> set (lbActive lb). 0 \<le> sint (PendingRequests (backend lb b))"
  shows "\<exists>idx r. getTaskClient now lb = Returned (lb\<lparr>lbRoundrobin := idx\<rparr>, r) \<and>
    (case r of
       Inl e \<Rightarrow> e = TextErr ''no alived client'' \<and>
         (\<forall>b \<in> set (lbActive lb). \<not> available now (backend lb b))
     | Inr b \<Rightarrow> b \<in> set (lbActive lb) \<and> available now (backend lb b) \<and>
         (\<forall>b' \<in> set (lbActive lb). available now (backend lb b') \<longrightarrow>
            sint (PendingRequests (backend lb b)) \<le> sint (PendingRequests (backend lb b'))))"
proof -
  let ?bs = "rotate (nextPos lb (lbRoundrobin lb)) (lbActive lb)"
  let ?s = "scanTasks now lb ?bs None"
  have "bestOk now lb None" by (simp add: bestOk_def)
  with scanTasks_least [of ?bs lb now None] assms(2)
  have s: "bestOk now lb ?s" "?s = None \<longleftrightarrow> (\<forall>b \<in> set (lbActive lb). \<not> available now (backend lb b))"
    "\<And>b n. ?s = Some (b, n) \<Longrightarrow> b \<in> set (lbActive lb) \<and>
       (\<forall>b' \<in> set (lbActive lb). available now (backend lb b') \<longrightarrow> sint n \<le> sint (PendingRequests (backend lb b')))"
    by auto
  from getTaskClient_scan [OF assms(1), of now] obtain idx where
    "getTaskClient now lb = Returned (lb\<lparr>lbRoundrobin := idx\<rparr>,
       case ?s of None \<Rightarrow> Inl (TextErr ''no alived client'') | Some (b, _) \<Rightarrow> Inr b)" by blast
  then show ?thesis
  proof (cases ?s)
    case None
    with \<open>getTaskClient now lb = _\<close> s(2) show ?thesis by auto
  next
    case (Some bn)
    obtain b n where bn: "bn = (b, n)" by force
    with Some s(1) have "n = PendingRequests (backend lb b)" "available now (backend lb b)"
      by (auto simp: bestOk_def)
    with Some bn s(3) \<open>getTaskClient now lb = _\<close> show ?thesis by auto
  qed
qed

definition busyBalancer :: "(nat, nat, unit) balancer" where
  "busyBalancer = twoBalancer\<lparr>lbBackends :=
     [newBackend ''a'' 0 None\<lparr>ecPending := 2\<rparr>, newBackend ''b'' 1 None\<lparr>ecPending := 1\<rparr>,
      newBackend ''c'' 0 None\<lparr>ecPaused := True, ecLastRequest := Some 0\<rparr>], lbActive := [0, 1, 2]\<rparr>"

lemma twoBalancer_rr: "lbRoundrobin twoBalancer = 0" "length (lbActive twoBalancer) = 3"
proof -
  note lb = NewLoadBalanceClient_text [OF twoServers_ok twoBalancer_made]
  have "interleaved (map snd twoServers) = [0, 1, 0]"
    by (simp add: interleaved_def weightTurn_def twoServers_def upt_rec)
  then have "length (lbBackends twoBalancer) = 3" unfolding lb(2) by (simp add: weightLoop_interleaved)
  then show "lbRoundrobin twoBalancer = 0" "length (lbActive twoBalancer) = 3"
    by (simp_all add: lb(1,4))
qed

theorem getTaskClient_least_witness:
  "\<exists>idx. getTaskClient 1000 busyBalancer = Returned (busyBalancer\<lparr>lbRoundrobin := idx\<rparr>, Inr 1)"
proof -
  have ok: "indexOk busyBalancer (lbRoundrobin busyBalancer)"
    by (simp add: indexOk_def busyBalancer_def twoBalancer_rr)
  have b: "backend busyBalancer 0 = newBackend ''a'' 0 None\<lparr>ecPending := 2\<rparr>"
    "backend busyBalancer 1 = newBackend ''b'' 1 None\<lparr>ecPending := 1\<rparr>"
    "backend busyBalancer 2 = newBackend ''c'' 0 None\<lparr>ecPaused := True, ecLastRequest := Some 0\<rparr>"
    "lbActive busyBalancer = [0, 1, 2]"
    by (simp_all add: backend_def busyBalancer_def)
  then have "\<forall>b \<in> set (lbActive busyBalancer). 0 \<le> sint (PendingRequests (backend busyBalancer b))"
    by (simp add: PendingRequests_def newBackend_def)
  note least = getTaskClient_least [OF ok this, of 1000]
  have act: "set (lbActive busyBalancer) = {0, 1, 2}" using b(4) by simp
  from least obtain idx r where
    r: "getTaskClient 1000 busyBalancer = Returned (busyBalancer\<lparr>lbRoundrobin := idx\<rparr>, r)"
    "case r of Inl e \<Rightarrow> e = TextErr ''no alived client'' \<and>
         (\<forall>b \<in> {0, 1, 2}. \<not> available 1000 (backend busyBalancer b))
     | Inr b \<Rightarrow> b \<in> {0, 1, 2} \<and> available 1000 (backend busyBalancer b) \<and>
         (\<forall>b' \<in> {0, 1, 2}. available 1000 (backend busyBalancer b') \<longrightarrow>
            sint (PendingRequests (backend busyBalancer b)) \<le> sint (PendingRequests (backend busyBalancer b')))"
    unfolding act by blast
  have av: "available 1000 (backend busyBalancer 0)" "available 1000 (backend busyBalancer 1)"
    "\<not> available 1000 (backend busyBalancer 2)"
    "sint (PendingRequests (backend busyBalancer 0)) = 2"
    "sint (PendingRequests (backend busyBalancer 1)) = 1"
    unfolding b by (simp_all add: available_def PendingRequests_def newBackend_def)
  have "r = Inr 1"
  proof (cases r)
    case (Inr m)
    with r(2) have "m \<noteq> 0" "m \<noteq> 2" "m \<in> {0, 1, 2}" using av by force+
    with Inr show ?thesis by simp
  qed (use r(2) av in auto)
  with r(1) show ?thesis by blast
qed

text \<open>Idle backends are taken in turn.\<close>

definition idle :: "('q, 'h, 'j) balancer \<Rightarrow> bool" where
  "idle lb \<longleftrightarrow> (\<forall>b \<in> set (lbActive lb). \<not> ecPaused (backend lb b) \<and> PendingRequests (backend lb b) = 0)"

fun taskPicks :: "int list \<Rightarrow> ('q, 'h, 'j) balancer \<Rightarrow> nat list" where
  "taskPicks [] lb = []"
| "taskPicks (now # nows) lb =
     (case getTaskClient now lb of
        Returned (lb1, Inr b) \<Rightarrow> b # taskPicks nows lb1
      | _ \<Rightarrow> [])"

lemma getTaskClient_idle:
  assumes ok: "indexOk lb (lbRoundrobin lb)" and idle: "idle lb"
  shows "getTaskClient now lb = Returned (lb\<lparr>lbRoundrobin := nextIndex lb (lbRoundrobin lb)\<rparr>,
    Inr (lbActive lb ! nextPos lb (lbRoundrobin lb)))"
proof -
  note step = nextIndex_sint [OF ok]
  let ?b = "lbActive lb ! nextPos lb (lbRoundrobin lb)"
  have at: "activeAt lb (sint (nextIndex lb (lbRoundrobin lb))) = Returned ?b"
    using step by (simp add: activeAt_def)
  have "?b \<in> set (lbActive lb)" using step(2) by (rule nth_mem)
  then have b: "available now (backend lb ?b)" "PendingRequests (backend lb ?b) = 0"
    using idle by (auto simp: idle_def available_def)
  obtain n where "max 1 (length (lbActive lb)) = Suc n" by (cases "length (lbActive lb)") auto
  then show ?thesis
    using at b by (simp add: getTaskClient_def better_def Let_def)
qed

lemma taskPicks_idle:
  "indexOk lb (lbRoundrobin lb) \<Longrightarrow> idle lb \<Longrightarrow> length nows \<le> length (lbActive lb) \<Longrightarrow>
    taskPicks nows lb = take (length nows) (rotate (nextPos lb (lbRoundrobin lb)) (lbActive lb))"
proof (induction nows arbitrary: lb)
  case (Cons now nows)
  note step = nextIndex_sint [OF Cons.prems(1)]
  let ?lb = "lb\<lparr>lbRoundrobin := nextIndex lb (lbRoundrobin lb)\<rparr>"
  have "indexOk ?lb (lbRoundrobin ?lb)" "idle ?lb"
    using step(3) Cons.prems(2) by (simp_all add: indexOk_def idle_def backend_def)
  moreover have "nextPos ?lb idx = nextPos lb idx" for idx by (simp add: nextPos_def)
  ultimately have "taskPicks nows ?lb = take (length nows)
      (rotate (nextPos lb (nextIndex lb (lbRoundrobin lb))) (lbActive lb))"
    using Cons.IH [of ?lb] Cons.prems(3) by simp
  then have "taskPicks (now # nows) lb = lbActive lb ! nextPos lb (lbRoundrobin lb) #
      take (length nows) (rotate (nextPos lb (nextIndex lb (lbRoundrobin lb))) (lbActive lb))"
    by (simp add: getTaskClient_idle [OF Cons.prems(1,2)])
  also have "\<dots> = take (length (now # nows)) (rotate (nextPos lb (lbRoundrobin lb)) (lbActive lb))"
    unfolding step(4) length_Cons using step(2) Cons.prems(3)
    by (intro take_rotate_step [symmetric]) simp_all
  finally show ?case .
qed simp

lemma mset_rotate_list: "mset (rotate n xs) = mset xs"
  by (metis append_take_drop_id mset_append rotate_drop_take union_commute)

text \<open>C30: The weights do what they promise: on a new balancer whose backends are idle, as many
  requests in a row as the weights sum up to go to each server as many times as its weight.\<close>

theorem weighted_round_robin:
  fixes lb :: "('q, 'h, 'j) balancer"
  assumes "es \<noteq> []" and "\<forall>e \<in> set es. serverEntry e"
    and "NewLoadBalanceClient keep maxc (serverListText es) = Inr lb"
    and "length nows = sum_list (map snd es)" and "length nows < 2 ^ 63"
  shows "length (taskPicks nows lb) = length nows \<and> (\<forall>i < length es.
    count_list (map (\<lambda>b. ecClient (backend lb b)) (taskPicks nows lb)) i = snd (es ! i))"
proof -
  note lb = NewLoadBalanceClient_text [OF assms(1-3)]
  let ?is = "weightLoop (map snd es)"
  have mset_is: "count (mset ?is) i = (if i < length es then snd (es ! i) else 0)" for i
    by (simp add: count_mset count_weightLoop)
  have "mset ?is = mset (concat (map (\<lambda>i. replicate (snd (es ! i)) i) [0..<length es]))"
  proof (rule multiset_eqI)
    fix i
    have "count (mset (concat (map (\<lambda>i. replicate (f i) i) [0..<n]))) i = (if i < n then f i else 0)"
      for f :: "nat \<Rightarrow> nat" and n
      by (induction n) auto
    then show "count (mset ?is) i = count (mset (concat (map (\<lambda>i. replicate (snd (es ! i)) i) [0..<length es]))) i"
      by (simp add: mset_is)
  qed
  then have "length ?is = length (concat (map (\<lambda>i. replicate (snd (es ! i)) i) [0..<length es]))"
    by (metis size_mset)
  also have "\<dots> = sum_list (map (\<lambda>i. snd (es ! i)) [0..<length es])"
    by (simp add: length_concat comp_def)
  also have "(map (\<lambda>i. snd (es ! i)) [0..<length es]) = map snd es"
    by (intro nth_equalityI) simp_all
  finally have len: "length (lbActive lb) = length nows" using assms(4) by (simp add: lb)
  obtain e es' where "es = e # es'" using assms(1) by (cases es) auto
  with assms(2,4) have pos: "0 < length nows" by (auto simp: serverEntry_def)
  have ok: "indexOk lb (lbRoundrobin lb)"
    using assms(5) pos len by (auto simp: indexOk_def lb(4))
  have "idle lb"
    unfolding idle_def lb(1) backend_def lb(2) by (simp add: newBackend_def PendingRequests_def)
  from taskPicks_idle [OF ok this, of nows] len
  have picks: "taskPicks nows lb = rotate (nextPos lb (lbRoundrobin lb)) (lbActive lb)" by simp
  have "map (\<lambda>b. ecClient (backend lb b)) (lbActive lb) = ?is"
    unfolding lb(1) backend_def by (intro nth_equalityI) (simp_all add: lb(2) newBackend_def)
  then have "mset (map (\<lambda>b. ecClient (backend lb b)) (taskPicks nows lb)) = mset ?is"
    unfolding picks by (metis mset_map mset_rotate_list)
  then have "count_list (map (\<lambda>b. ecClient (backend lb b)) (taskPicks nows lb)) i = count (mset ?is) i" for i
    by (metis count_mset)
  then show ?thesis using mset_is picks len by simp
qed

theorem weighted_round_robin_witness:
  "count_list (map (\<lambda>b. ecClient (backend twoBalancer b)) (taskPicks [0, 1, 2] twoBalancer)) 0 = 2 \<and>
   count_list (map (\<lambda>b. ecClient (backend twoBalancer b)) (taskPicks [0, 1, 2] twoBalancer)) 1 = 1"
  using weighted_round_robin [OF twoServers_ok twoBalancer_made, of "[0, 1, 2]"]
  by (simp add: twoServers_def All_less_Suc)

section \<open>Connections of a backend\<close>

lemma closeConn_shrinks:
  assumes "sliceOk cl"
  shows "length (connections (Client_closeConn k err cl)) \<le> length (connections cl)"
  using dropConnection_simps(1) [OF assms, of k]
  by (simp add: Client_closeConn_def length_remove1)

lemma removeConnection_shrinks:
  assumes "sliceOk cl"
  shows "length (connections (Client_removeConnection k cl)) \<le> length (connections cl)"
proof -
  note d = dropConnection_simps [OF assms, of k]
  have "length (connections (Client_dropConnection k cl)) \<le> length (connections cl)"
    by (simp add: d(1) length_remove1)
  with closeConn_shrinks [OF d(2), of k] show ?thesis
    unfolding Client_removeConnection_def by (auto intro: le_trans)
qed

lemma newConnection_length:
  assumes "sliceOk cl"
  shows "sliceOk (fst (Client_newConnection dial q cl)) \<and>
    length (connections (fst (Client_newConnection dial q cl))) \<le> length (connections cl) + 1"
proof (cases "Client_limitReached cl \<or> dial \<noteq> None")
  case True
  then show ?thesis using assms by (auto simp: Client_newConnection_def split: option.split)
next
  case False
  then have "dial = None" "int (clLen cl) < sint (ccMaxConnections (clConfig cl))"
    using assms by (auto simp: Client_limitReached_def)
  with newConnection_adds [OF assms this(2), of q] show ?thesis by simp
qed

lemma lbClient_updClient [simp]:
  assumes "ecClient (backend lb b) < length (lbClients lb)"
  shows "lbClient (updClient b f lb) b = f (lbClient lb b)"
  using assms by (simp add: lbClient_def updClient_def backend_def)

lemma scast_small:
  fixes v :: i64
  assumes "0 \<le> sint v" "sint v < 2 ^ 31"
  shows "sint (scast v :: 32 word) = sint v"
proof -
  have "sint (scast v :: 32 word) = signed_take_bit 31 (sint v)"
    unfolding scast_eq sint_sbintrunc' by simp
  then show ?thesis using assms by (simp add: signed_take_bit_int_eq_self)
qed

text \<open>A backend never has more than \<open>serverKeepConns\<close> connections of its own making, whatever
  \<open>serverMaxConns\<close> allows: once there are that many, a request is never given a new connection
  but the channel of an existing one in turn, or an error.\<close>

theorem task_channel_keeps_conns:
  assumes "clientInv (lbClient lb b)" and "ecClient (backend lb b) < length (lbClients lb)"
    and "1 \<le> sint (lbServerKeepConns lb)" "sint (lbServerKeepConns lb) < 2 ^ 31"
    and "length (connections (lbClient lb b)) < 2 ^ 31"
  shows "case getTaskChannel dial exchange unmarshal pick q0 q1 b lb of
      Panicked \<Rightarrow> nat (sint (lbServerKeepConns lb)) \<le> length (connections (lbClient lb b))
    | Returned (lb1, r) \<Rightarrow>
        length (connections (lbClient lb1 b)) \<le>
          max (length (connections (lbClient lb b))) (nat (sint (lbServerKeepConns lb))) \<and>
        (if nat (sint (lbServerKeepConns lb)) \<le> length (connections (lbClient lb b))
         then lbClients lb1 = lbClients lb \<and>
           (case r of
              Inl e \<Rightarrow> e = TextErr ''connection have no lbl-client-channel''
            | Inr (k, a) \<Rightarrow> k \<in> set (connections (lbClient lb b)))
         else True)"
proof -
  let ?cl = "lbClient lb b" and ?keep = "sint (lbServerKeepConns lb)"
  let ?r = "getTaskChannel dial exchange unmarshal pick q0 q1 b lb"
  have s: "sliceOk ?cl" using assms(1) by (simp add: clientInv_def)
  have "clConnCount ?cl = word_of_nat (length (connections ?cl))" using assms(1) by (simp add: clientInv_def)
  then have cnt: "sint (clConnCount ?cl) = int (length (connections ?cl))"
    using assms(5) by (simp add: signed_of_nat signed_take_bit_int_eq_self)
  have keep: "sint (scast (lbServerKeepConns lb) :: 32 word) = ?keep"
    using assms(3,4) by (intro scast_small) simp_all
  show ?thesis
  proof (cases "int (length (connections ?cl)) < ?keep")
    case False
    have "lbClients (updBackend b f lb) = lbClients lb" for f by (simp add: updBackend_def)
    moreover have "lbClient (updBackend b (\<lambda>ec. ec\<lparr>ecConnIndex := i\<rparr>) lb) b = ?cl" for i
      by (cases "b < length (lbBackends lb)")
        (simp_all add: lbClient_def updBackend_def backend_def list_update_beyond)
    ultimately show ?thesis
      using False cnt keep assms(3)
      by (auto simp: getTaskChannel_def Let_def split: option.splits ctxVal.splits if_splits)
  next
    case True
    obtain cl1 rk where new: "Client_newConnection dial q0 ?cl = (cl1, rk)" by force
    note len1 = newConnection_length [OF s, of dial q0]
    have room: "length (connections cl1) \<le> nat ?keep" "sliceOk cl1"
      using len1 new True by auto
    have lt: "\<not> nat ?keep \<le> length (connections ?cl)" using True by linarith
    have less: "sint (clConnCount ?cl) < sint (scast (lbServerKeepConns lb) :: 32 word)"
      using True cnt keep by simp
    show ?thesis
    proof (cases rk)
      case (Inl err)
      then have "?r = Returned (updClient b (\<lambda>_. cl1) lb,
          Inl (TextErr (''connect to '' @ clServerAddr ?cl @ '' fail, '' @ errorText err)))"
        using less new by (simp add: getTaskChannel_def Let_def)
      then show ?thesis using room lt assms(2) by simp
    next
      case (Inr k)
      obtain cl2 ra where ch: "newTaskChannel exchange unmarshal pick q1 k cl1 = (cl2, ra)" by force
      then have "connections cl2 = connections cl1" "sliceOk cl2 = sliceOk cl1"
        by (auto simp: newTaskChannel_def Let_def split: prod.splits)
      with room have room2: "length (connections cl2) \<le> nat ?keep" "sliceOk cl2" by simp_all
      note shrink = removeConnection_shrinks [OF room2(2), of k]
      show ?thesis
      proof (cases ra)
        case (Inl err)
        then have "?r = Returned (updClient b (\<lambda>_. Client_removeConnection k cl2) lb,
            Inl (TextErr (''new channel to '' @ clServerAddr ?cl @ '' fail, '' @ errorText err)))"
          using less new \<open>rk = Inr k\<close> ch by (simp add: getTaskChannel_def Let_def)
        then show ?thesis using room2 shrink lt assms(2) by simp
      next
        case (Inr a)
        then have "\<exists>f. ?r = Returned (updClient b (\<lambda>_. onConn k f cl2) lb, Inr (k, a))"
          using less new \<open>rk = Inr k\<close> ch by (auto simp: getTaskChannel_def Let_def)
        then show ?thesis using room2 lt assms(2) by auto
      qed
    qed
  qed
qed

definition connectedBalancer :: "(nat, nat, unit) balancer" where
  "connectedBalancer = twoBalancer\<lparr>lbBackends := [newBackend ''a'' 0 None], lbActive := [0],
     lbClients := [oneConnClient], lbServerKeepConns := 1\<rparr>"

theorem task_channel_keeps_conns_witness:
  "case getTaskChannel None (\<lambda>c. (c, Inl ErrRequestTimeout)) (\<lambda>_. Inl ErrUnknown) 0 0 0 0 connectedBalancer of
      Panicked \<Rightarrow> True
    | Returned (lb1, r) \<Rightarrow> lbClients lb1 = [oneConnClient]"
proof -
  let ?cl = "NewClient zeroConfig ''server:9090'' None :: (nat, nat) client"
  have "sliceOk ?cl" "int (clLen ?cl) < sint (ccMaxConnections (clConfig ?cl))" "clConns ?cl = []"
    "connections ?cl = []"
    by (simp_all add: NewClient_def sliceOk_def zeroConfig_def orDefault_def connections_def)
  with newConnection_adds [OF this(1,2), of 0] have one: "connections oneConnClient = [0]"
    by (simp add: oneConnClient_def)
  have b: "backend connectedBalancer 0 = newBackend ''a'' 0 None"
    "lbClients connectedBalancer = [oneConnClient]" "lbServerKeepConns connectedBalancer = 1"
    by (simp_all add: connectedBalancer_def backend_def)
  then have cl: "lbClient connectedBalancer 0 = oneConnClient" by (simp add: lbClient_def newBackend_def)
  have "clientInv oneConnClient" using oneConn_reach by (rule client_conns.reach_inv)
  with task_channel_keeps_conns [of connectedBalancer 0 None "\<lambda>c. (c, Inl ErrRequestTimeout)"
      "\<lambda>_. Inl ErrUnknown" 0 0 0] show ?thesis
    using b cl one by (auto simp: newBackend_def split: outcome.splits prod.splits)
qed

end
