(* ===== verification/ClientRequest.thy ===== *)
theory ClientRequest
  imports Client
begin

text \<open>
  What \<open>DoRequest\<close> of \<open>client.go\<close> does to a client when nothing else happens meanwhile, and what a
  request that was lost on the way does to the responses of later ones. The operations are those
  of the theories Client and ClientLoop; this theory adds no model.
\<close>

section \<open>Requests are kept by address\<close>

lemma updRequest_simps [simp]:
  "cwConn (updRequest r f w) = cwConn w" "cwNotify (updRequest r f w) = cwNotify w"
  "length (cwRequests (updRequest r f w)) = length (cwRequests w)"
  "r < length (cwRequests w) \<Longrightarrow> cwRequests (updRequest r f w) ! k =
     (if k = r then f (cwRequests w ! r) else cwRequests w ! k)"
  by (auto simp: updRequest_def nth_list_update)

lemma releaseRequest_simps [simp]:
  "cwConn (releaseRequest r n w) = cwConn w"
  "cwNotify (releaseRequest r n w) = releaseNotifyChan n (cwNotify w)"
  "length (cwRequests (releaseRequest r n w)) = length (cwRequests w)"
  by (simp_all add: releaseRequest_def Let_def)

lemma releaseRequest_ctx:
  assumes "r < length (cwRequests w)"
  shows "GetCtxData (reqCtx (cwRequests (releaseRequest r n w) ! k)) CtxResponseChan =
    (if k = r then None else GetCtxData (reqCtx (cwRequests w ! k)) CtxResponseChan)"
  using assms by (simp add: releaseRequest_def Let_def default_context.get_del)

lemma respChan_key: "CtxResponseChan \<noteq> ''''"
  by (simp add: CtxResponseChan_def)

lemma notifyCaller_conn [simp]:
  "cwConn (notifyCaller r d w) = cwConn w" "cwRequests (notifyCaller r d w) = cwRequests w"
  by (simp_all add: notifyCaller_def split: option.split ctxVal.split)

section \<open>Sending a request\<close>

text \<open>The packet of a request goes out unsplit, as a whole message of its own.\<close>

definition sentPacket :: "'q conn \<Rightarrow> nat \<Rightarrow> string \<Rightarrow> byte list \<Rightarrow> packet" where
  "sentPacket c a path data = (requestPacket c a path data)\<lparr>pktStatus := StatusC1\<rparr>"

definition pushedWrite :: "packet \<Rightarrow> 'q conn \<Rightarrow> 'q conn" where
  "pushedWrite pkt c = c\<lparr>cnWriteQueue := cnWriteQueue c @
     (if length (cnWriteQueue c) < cnWriteCap c then [pkt] else [])\<rparr>"

lemma pushedWrite_simps [simp]:
  "cnChans (pushedWrite pkt c) = cnChans c" "cnOut (pushedWrite pkt c) = cnOut c"
  "cnWriteDone (pushedWrite pkt c) = cnWriteDone c" "chanAt (pushedWrite pkt c) b = chanAt c b"
  "coreView (pushedWrite pkt c) = coreView c" "readView (pushedWrite pkt c) = readView c"
  by (simp_all add: pushedWrite_def chanAt_def coreView_def readView_def idView_def)

text \<open>A channel of an open client connection.\<close>

definition clientOpen :: "nat \<Rightarrow> 'q conn \<Rightarrow> bool" where
  "clientOpen a c \<longleftrightarrow> a < length (cnChans c) \<and> chErr (chanAt c a) = None \<and> \<not> cnClosedMark c \<and>
     cnRole c = RoleClient"

lemma SendPacket_request:
  assumes "chErr (chanAt c a) = None" "\<not> cnClosedMark c" "cnRole c = RoleClient"
    "pktStatus pkt \<noteq> Status8" "pktDontChunk pkt"
  shows "SendPacket alone a pkt c =
    (addCounts a (pktPath pkt) cntBothSent (pushedWrite (pkt\<lparr>pktStatus := StatusC1\<rparr>) c), None)"
  using assms
  by (simp add: SendPacket_def sendPacket_def Connection_Closed_def packetToSendQueue_def
      alone_def Let_def pushedWrite_def)

text \<open>What \<open>DoRequest\<close> makes of the connection and of the world when it gets to wait.\<close>

definition requestedConn :: "'q queueOps \<Rightarrow> nat \<Rightarrow> string \<Rightarrow> nat \<Rightarrow> byte list \<Rightarrow> 'q conn \<Rightarrow> 'q conn" where
  "requestedConn ops a path r data c = addCounts a path cntBothSent
     (pushedWrite (sentPacket c a path data) (updQueue a (PushTail ops r) c))"

lemma chanAt_updQueue:
  "a < length (cnChans c) \<Longrightarrow> chanAt (updQueue a f c) b =
     (if b = a then (chanAt c b)\<lparr>chUcrq := map_option f (chUcrq (chanAt c b))\<rparr> else chanAt c b)"
  by (simp add: updQueue_def chanAt_def updChan_def nth_list_update)

lemma updQueue_simps [simp]:
  "cnRole (updQueue a f c) = cnRole c" "cnClosedMark (updQueue a f c) = cnClosedMark c"
  "cnWriteQueue (updQueue a f c) = cnWriteQueue c" "cnWriteCap (updQueue a f c) = cnWriteCap c"
  "cnOut (updQueue a f c) = cnOut c" "cnWriteDone (updQueue a f c) = cnWriteDone c"
  "cnNotifyClosed (updQueue a f c) = cnNotifyClosed c" "cnErr (updQueue a f c) = cnErr c"
  "cnChannels (updQueue a f c) = cnChannels c" "cnReadDone (updQueue a f c) = cnReadDone c"
  "cnReadPending (updQueue a f c) = cnReadPending c"
  "length (cnChans (updQueue a f c)) = length (cnChans c)"
  by (simp_all add: updQueue_def)

lemma readView_updQueue [simp]: "readView (updQueue a f c) = readView c"
  unfolding updQueue_def readView_def idView_def by (simp add: updChan_def map_update_same)

lemma DoRequest_waits:
  assumes "clientOpen a (cwConn w)" "ValidatePath parse path" "reqData (cwRequests w ! r) \<noteq> []"
    and "acquireNotifyChan pick (cwNotify w) = (ns, n)"
  shows "DoRequest parse ops alone pick (Some a) path r w =
    ((updRequest r (\<lambda>rq. rq\<lparr>reqCtx := SetCtxData (reqCtx rq) CtxResponseChan (Some (CvNotify n))\<rparr>)
        (w\<lparr>cwNotify := ns\<rparr>))\<lparr>cwConn := requestedConn ops a path r (reqData (cwRequests w ! r)) (cwConn w)\<rparr>,
     Sent, n)"
proof -
  let ?c = "cwConn w"
  let ?pkt = "requestPacket ?c a path (reqData (cwRequests w ! r))"
  have a: "a < length (cnChans ?c)" "chErr (chanAt ?c a) = None" "\<not> cnClosedMark ?c"
    "cnRole ?c = RoleClient"
    using assms(1) by (simp_all add: clientOpen_def)
  have "SendPacket alone a ?pkt (updQueue a (PushTail ops r) ?c) =
      (addCounts a (pktPath ?pkt) cntBothSent
         (pushedWrite (?pkt\<lparr>pktStatus := StatusC1\<rparr>) (updQueue a (PushTail ops r) ?c)), None)"
    using a by (intro SendPacket_request) (simp_all add: chanAt_updQueue requestPacket_def Status8_def)
  then have "enqueueRequest ops alone a r ?pkt ?c =
      (requestedConn ops a path r (reqData (cwRequests w ! r)) ?c, None)"
    by (simp add: enqueueRequest_def requestedConn_def sentPacket_def) (simp add: requestPacket_def)
  moreover have "pktData ?pkt = reqData (cwRequests w ! r)" by (simp add: requestPacket_def)
  ultimately show ?thesis
    using a assms(2-4) by (simp add: DoRequest_def Let_def Connection_Closed_def)
qed

lemma requestedConn_simps:
  assumes "a < length (cnChans c)"
  shows "cnWriteQueue (requestedConn ops a path r data c) = cnWriteQueue c @
      (if length (cnWriteQueue c) < cnWriteCap c then [sentPacket c a path data] else [])"
    "chUcrq (chanAt (requestedConn ops a path r data c) a) =
      map_option (PushTail ops r) (chUcrq (chanAt c a))"
    "chWhole (chanAt (requestedConn ops a path r data c) a) = chWhole (chanAt c a)"
    "chLoopDone (chanAt (requestedConn ops a path r data c) a) = chLoopDone (chanAt c a)"
    "chReceivedQueue (chanAt (requestedConn ops a path r data c) a) = chReceivedQueue (chanAt c a)"
    "chErr (chanAt (requestedConn ops a path r data c) a) = chErr (chanAt c a)"
    "chId (chanAt (requestedConn ops a path r data c) a) = chId (chanAt c a)"
    "length (cnChans (requestedConn ops a path r data c)) = length (cnChans c)"
    "cnClosedMark (requestedConn ops a path r data c) = cnClosedMark c"
    "cnRole (requestedConn ops a path r data c) = cnRole c"
    "cnWriteCap (requestedConn ops a path r data c) = cnWriteCap c"
    "cnOut (requestedConn ops a path r data c) = cnOut c"
    "cnWriteDone (requestedConn ops a path r data c) = cnWriteDone c"
    "cnNotifyClosed (requestedConn ops a path r data c) = cnNotifyClosed c"
    "readView (requestedConn ops a path r data c) = readView c"
  using assms
  by (simp_all add: requestedConn_def chanAt_addCounts chanAt_updQueue)
    (simp_all add: pushedWrite_def)

lemma clientOpen_requested:
  "clientOpen a c \<Longrightarrow> clientOpen a (requestedConn ops a path r data c)"
  by (simp add: clientOpen_def requestedConn_simps)

section \<open>A request that gets to wait\<close>

lemma wfNotify_release: "wfNotify s \<Longrightarrow> n < length (nsStore s) \<Longrightarrow> wfNotify (releaseNotifyChan n s)"
  by (simp add: wfNotify_def releaseNotifyChan_def)

lemma wfNotify_acquire:
  assumes "wfNotify s" "acquireNotifyChan pick s = (s', n)"
  shows "wfNotify s'"
proof (cases pick)
  case None
  with assms show ?thesis by (auto simp: wfNotify_def acquireNotifyChan_def less_Suc_eq)
next
  case (Some c)
  with assms notin_set_remove1 [of _ "nsPool s" c] show ?thesis
    by (auto simp: wfNotify_def acquireNotifyChan_def)
qed

text \<open>What holds once request \<open>r\<close> waits on notify channel \<open>n\<close>, the last of the uncompleted ones.\<close>

definition waitsOn ::
    "('q \<Rightarrow> nat list) \<Rightarrow> nat \<Rightarrow> nat list \<Rightarrow> nat \<Rightarrow> nat \<Rightarrow> 'q clientWorld \<Rightarrow> 'q clientWorld \<Rightarrow> bool" where
  "waitsOn elems a rs r n w w' \<longleftrightarrow>
     clientReady elems a (chReceivedQueue (chanAt (cwConn w) a)) (rs @ [r]) w' \<and>
     clientOpen a (cwConn w') \<and> chWhole (chanAt (cwConn w') a) = chWhole (chanAt (cwConn w) a) \<and>
     n < length (nsStore (cwNotify w')) \<and> nsStore (cwNotify w') ! n = None \<and>
     wfNotify (cwNotify w') \<and> length (cwRequests w') = length (cwRequests w) \<and>
     (\<forall>k. reqData (cwRequests w' ! k) = reqData (cwRequests w ! k) \<and>
        GetCtxData (reqCtx (cwRequests w' ! k)) CtxResponseChan =
          (if k = r then Some (CvNotify n) else GetCtxData (reqCtx (cwRequests w ! k)) CtxResponseChan))"

lemma DoRequest_ready:
  assumes ready: "clientReady elems a ps rs w" and op: "clientOpen a (cwConn w)"
    and ops: "fifoOps ops elems" and path: "ValidatePath parse path"
    and r: "r < length (cwRequests w)" "reqData (cwRequests w ! r) \<noteq> []"
    and notify: "wfNotify (cwNotify w)" "pickOk pick (cwNotify w)"
  shows "\<exists>w' n. DoRequest parse ops alone pick (Some a) path r w = (w', Sent, n) \<and>
    waitsOn elems a rs r n w w' \<and>
    cwConn w' = requestedConn ops a path r (reqData (cwRequests w ! r)) (cwConn w)"
proof -
  obtain ns n where acq: "acquireNotifyChan pick (cwNotify w) = (ns, n)" by fastforce
  let ?c = "requestedConn ops a path r (reqData (cwRequests w ! r)) (cwConn w)"
  let ?w = "(updRequest r (\<lambda>rq. rq\<lparr>reqCtx := SetCtxData (reqCtx rq) CtxResponseChan (Some (CvNotify n))\<rparr>)
        (w\<lparr>cwNotify := ns\<rparr>))\<lparr>cwConn := ?c\<rparr>"
  from DoRequest_waits [OF op path r(2) acq]
  have run: "DoRequest parse ops alone pick (Some a) path r w = (?w, Sent, n)" .
  from ready obtain q where a: "a < length (cnChans (cwConn w))"
    and nd: "\<not> chLoopDone (chanAt (cwConn w) a)" and queue: "chReceivedQueue (chanAt (cwConn w) a) = ps"
    and q: "chUcrq (chanAt (cwConn w) a) = Some q" "elems q = rs"
    by (auto simp: clientReady_def)
  have "elems (PushTail ops r q) = rs @ [r]" using ops q by (simp add: fifoOps_def)
  then have "clientReady elems a (chReceivedQueue (chanAt (cwConn w) a)) (rs @ [r]) ?w"
    using a nd queue q by (simp add: clientReady_def requestedConn_simps)
  moreover have "reqData (cwRequests ?w ! k) = reqData (cwRequests w ! k) \<and>
        GetCtxData (reqCtx (cwRequests ?w ! k)) CtxResponseChan =
          (if k = r then Some (CvNotify n) else GetCtxData (reqCtx (cwRequests w ! k)) CtxResponseChan)" for k
    using r(1) by (simp add: default_context.get_put respChan_key)
  ultimately have "waitsOn elems a rs r n w ?w"
    using acquireNotifyChan_fresh [OF notify acq] wfNotify_acquire [OF notify(1) acq]
      clientOpen_requested [OF op] a by (simp add: waitsOn_def requestedConn_simps)
  with run show ?thesis by (intro exI [of _ ?w] exI [of _ n]) simp
qed

text \<open>A request without a waiting caller wakes nobody.\<close>

lemma notifyCaller_none:
  "GetCtxData (reqCtx (cwRequests w ! r)) CtxResponseChan = None \<Longrightarrow> notifyCaller r d w = w"
  by (simp add: notifyCaller_def)

section \<open>A request that was dropped\<close>

lemma clientReady_updConn:
  assumes "a < length (cnChans (cwConn w))"
    "length (cnChans (f (cwConn w))) = length (cnChans (cwConn w))"
    "chanAt (f (cwConn w)) a = g (chanAt (cwConn w) a)"
    "chLoopDone (g (chanAt (cwConn w) a)) = chLoopDone (chanAt (cwConn w) a)"
    "chUcrq (g (chanAt (cwConn w) a)) = chUcrq (chanAt (cwConn w) a)"
  shows "clientReady elems a ps rs (updConn f w) \<longleftrightarrow>
    clientReady elems a (chReceivedQueue (chanAt (cwConn w) a)) rs w \<and>
    chReceivedQueue (g (chanAt (cwConn w) a)) = ps"
  using assms by (auto simp: clientReady_def)

lemma clientReady_cwConn:
  "cwConn w' = cwConn w \<Longrightarrow> clientReady elems a ps rs w' = clientReady elems a ps rs w"
  by (simp add: clientReady_def)

lemma clientReady_queue: "clientReady elems a ps rs w \<Longrightarrow> chReceivedQueue (chanAt (cwConn w) a) = ps"
  by (simp add: clientReady_def)

text \<open>C13: A request that finds the write queue full for a second is dropped, yet reported as sent and
  left in the queue of uncompleted requests, also after its caller has given up. The response to
  the next request on the channel is then paired with the dropped one: nobody is woken, the caller
  of the next request goes on waiting, and its request is left to take the response after that.\<close>

theorem dropped_request_shifts_responses:
  assumes w: "clientReady elems a [] [] w" "clientOpen a (cwConn w)" "fifoOps ops elems"
      "chWhole (chanAt (cwConn w) a) = None" "wfNotify (cwNotify w)" "pickOk pick1 (cwNotify w)"
    and full: "cnWriteCap (cwConn w) \<le> length (cnWriteQueue (cwConn w))" "0 < cnWriteCap (cwConn w)"
    and r: "r1 \<noteq> r2" "r1 < length (cwRequests w)" "r2 < length (cwRequests w)"
      "reqData (cwRequests w ! r1) \<noteq> []" "reqData (cwRequests w ! r2) \<noteq> []"
      "ValidatePath parse path1" "ValidatePath parse path2"
    and first: "DoRequest parse ops alone pick1 (Some a) path1 r1 w = (w1, s1, n1)"
    and late: "DoRequest_timeout r1 n1 w1 = (w2, res1)"
    and drained: "w3 = updConn (\<lambda>c. c\<lparr>cnWriteQueue := []\<rparr>) w2" "pickOk pick2 (cwNotify w2)"
    and second: "DoRequest parse ops alone pick2 (Some a) path2 r2 w3 = (w4, s2, n2)"
    and answer: "w5 = updConn (updChan a (\<lambda>ch. ch\<lparr>chReceivedQueue := [p]\<rparr>)) w4"
      "isServerStatusCompleted (pktStatus p)" "pktPath p \<noteq> PathDeleteChannel"
    and round: "handleClientLoop ops run dur a Received (w5, m) = (w6, m6)"
  shows "s1 = Sent \<and> cnWriteQueue (cwConn w1) = cnWriteQueue (cwConn w) \<and> s2 = Sent \<and>
    cnWriteQueue (cwConn w4) = [sentPacket (cwConn w) a path2 (reqData (cwRequests w ! r2))] \<and>
    DoRequest_response r2 n2 w6 = None \<and> clientReady elems a [] [r2] w6"
proof -
  let ?d1 = "reqData (cwRequests w ! r1)" and ?d2 = "reqData (cwRequests w ! r2)"
  have a: "a < length (cnChans (cwConn w))" using w(2) by (simp add: clientOpen_def)
  have w1: "s1 = Sent" "waitsOn elems a [] r1 n1 w w1" "cwConn w1 = requestedConn ops a path1 r1 ?d1 (cwConn w)"
    using DoRequest_ready [OF w(1-3) r(6,2,4) w(5,6)] first by auto
  then have a1: "a < length (cnChans (cwConn w1))" and q1: "cnWriteQueue (cwConn w1) = cnWriteQueue (cwConn w)"
    using full a by (simp_all add: requestedConn_simps)
  have w2: "w2 = releaseRequest r1 n1 w1" using late by (simp add: DoRequest_timeout_def)
  have ready3: "clientReady elems a [] [r1] w3" and open3: "clientOpen a (cwConn w3)"
    and whole3: "chWhole (chanAt (cwConn w3) a) = None"
    using w1(2) a1 w(4) clientReady_queue [OF w(1)]
    by (simp_all add: w2 drained(1) waitsOn_def clientReady_def clientOpen_def chanAt_def)
  have n3: "wfNotify (cwNotify w3)" "pickOk pick2 (cwNotify w3)"
    using w1(2) drained(2) by (simp_all add: drained(1) w2 waitsOn_def wfNotify_release)
  have len3: "length (cwRequests w3) = length (cwRequests w)" and d3: "reqData (cwRequests w3 ! r2) = ?d2"
    using w1(2) r(1-3) by (simp_all add: drained(1) w2 waitsOn_def releaseRequest_def Let_def)
  have none3: "GetCtxData (reqCtx (cwRequests w3 ! r1)) CtxResponseChan = None"
    using w1(2) r(2) by (simp add: drained(1) w2 waitsOn_def releaseRequest_ctx)
  have w4: "s2 = Sent" "waitsOn elems a [r1] r2 n2 w3 w4" "cwConn w4 = requestedConn ops a path2 r2 ?d2 (cwConn w3)"
    using DoRequest_ready [OF ready3 open3 w(3) r(7) _ _ n3, of r2] second len3 d3 r(3,5) by auto
  have "cwConn w3 = (requestedConn ops a path1 r1 ?d1 (cwConn w))\<lparr>cnWriteQueue := []\<rparr>"
    by (simp add: drained(1) w2 w1(3))
  then have q4: "cnWriteQueue (cwConn w4) = [sentPacket (cwConn w) a path2 ?d2]"
    using a full(2) by (simp add: w4(3) requestedConn_simps sentPacket_def requestPacket_def chanAt_def)
      (simp add: requestedConn_simps [unfolded chanAt_def])
  have a4: "a < length (cnChans (cwConn w4))" using w4(2) by (simp add: waitsOn_def clientReady_def)
  have ready5: "clientReady elems a (p # []) (r1 # [r2]) w5" and whole5: "chWhole (chanAt (cwConn w5) a) = None"
    using w4(2) a4 whole3 by (simp_all add: answer(1) waitsOn_def clientReady_def)
  have none5: "notifyCaller r1 d w5 = w5" for d
    using w4(2) none3 r(1) by (intro notifyCaller_none) (simp add: answer(1) waitsOn_def)
  have "pktStatus p \<noteq> Status8" using answer(2) by (auto simp: server_status_defs)
  from client_round [OF ready5 w(3) this refl, of run dur m] whole5 answer(2,3) round none5
  have ready6: "clientReady elems a [] [r2] w6" and n6: "cwNotify w6 = cwNotify w5"
    by (simp_all add: mergePacket_def)
  have "DoRequest_response r2 n2 w6 = None"
    using w4(2) by (simp add: DoRequest_response_def n6 answer(1) waitsOn_def)
  with w1(1) q1 w4(1) q4 ready6 show ?thesis by blast
qed

text \<open>A client with a write queue of one packet that is full, and two requests to send.\<close>

definition busyWorld :: "nat list clientWorld" where
  "busyWorld = \<lparr>cwConn = (case NewConnection True False ownerZero RoleClient 1 [] of
         Inr c \<Rightarrow> c\<lparr>cnWriteQueue := [samplePacket StatusC1 0 1]\<rparr> | Inl _ \<Rightarrow> undefined),
     cwRequests = [NewDefaultRequest [1], NewDefaultRequest [2]],
     cwNotify = \<lparr>nsStore = [], nsPool = []\<rparr>\<rparr>"

lemma busyWorld_facts:
  "clientReady (\<lambda>q. q) 0 [] [] busyWorld" "clientOpen 0 (cwConn busyWorld)"
  "chWhole (chanAt (cwConn busyWorld) 0) = None" "cnWriteCap (cwConn busyWorld) = 1"
  "length (cnWriteQueue (cwConn busyWorld)) = 1"
  by (simp_all add: busyWorld_def NewConnection_def newChannel_def clientReady_def clientOpen_def
      enterChannel_def makeNewChannelId_def chanAt_def channelCtx_def Let_def)

theorem dropped_request_shifts_responses_witness:
  "\<exists>w1 n1 w4 n2 w6 m6.
     DoRequest (\<lambda>p. Inr ()) listOps alone None (Some 0) ''/a'' 0 busyWorld = (w1, Sent, n1) \<and>
     DoRequest (\<lambda>p. Inr ()) listOps alone None (Some 0) ''/b'' 1
       (updConn (\<lambda>c. c\<lparr>cnWriteQueue := []\<rparr>) (fst (DoRequest_timeout 0 n1 w1))) = (w4, Sent, n2) \<and>
     handleClientLoop listOps (\<lambda>h p r d b. Panicked) 0 0 Received
       (updConn (updChan 0 (\<lambda>ch. ch\<lparr>chReceivedQueue := [samplePacket StatusS5 0 7]\<rparr>)) w4, None :: unit handlers) =
       (w6, m6) \<and>
     DoRequest_response 1 n2 w6 = None \<and> clientReady (\<lambda>q. q) 0 [] [1] w6"
proof -
  let ?p = "samplePacket StatusS5 0 7" and ?parse = "\<lambda>p::string. Inr () :: gerr + unit"
  obtain w1 s1 n1 where 1: "DoRequest ?parse listOps alone None (Some 0) ''/a'' 0 busyWorld = (w1, s1, n1)"
    by (metis prod_cases3)
  obtain w2 res where 2: "DoRequest_timeout 0 n1 w1 = (w2, res)" by fastforce
  let ?w3 = "updConn (\<lambda>c. c\<lparr>cnWriteQueue := []\<rparr>) w2"
  obtain w4 s2 n2 where 4: "DoRequest ?parse listOps alone None (Some 0) ''/b'' 1 ?w3 = (w4, s2, n2)"
    by (metis prod_cases3)
  let ?w5 = "updConn (updChan 0 (\<lambda>ch. ch\<lparr>chReceivedQueue := [?p]\<rparr>)) w4"
  obtain w6 m6 where 6: "handleClientLoop listOps (\<lambda>h p r d b. Panicked) 0 0 Received (?w5, None :: unit handlers) = (w6, m6)"
    by fastforce
  have "s1 = Sent \<and> cnWriteQueue (cwConn w1) = cnWriteQueue (cwConn busyWorld) \<and> s2 = Sent \<and>
    cnWriteQueue (cwConn w4) =
      [sentPacket (cwConn busyWorld) 0 ''/b'' (reqData (cwRequests busyWorld ! 1))] \<and>
    DoRequest_response 1 n2 w6 = None \<and> clientReady (\<lambda>q. q) 0 [] [1] w6"
  proof (rule dropped_request_shifts_responses [OF busyWorld_facts(1,2) fifo_listOps busyWorld_facts(3)
        _ _ _ _ _ _ _ _ _ _ _ 1 2 refl _ 4 refl _ _ 6])
    show "isServerStatusCompleted (pktStatus ?p)" "pktPath ?p \<noteq> PathDeleteChannel"
      by (simp_all add: samplePacket_def server_status_defs PathDeleteChannel_def)
    show "cnWriteCap (cwConn busyWorld) \<le> length (cnWriteQueue (cwConn busyWorld))"
      "0 < cnWriteCap (cwConn busyWorld)" by (simp_all add: busyWorld_facts)
  qed (simp_all add: busyWorld_facts busyWorld_def wfNotify_def pickOk_def ValidatePath_def NewDefaultRequest_def)
  with 1 2 4 6 show ?thesis
    by - (rule exI [of _ w1], rule exI [of _ n1], rule exI [of _ w4], rule exI [of _ n2],
      rule exI [of _ w6], rule exI [of _ m6], simp)
qed

end
