(* ===== verification/EndToEnd.thy ===== *)
theory EndToEnd
  imports ClientRequest
begin

text \<open>
  One request and its response end to end: the composition of \<open>DoRequest\<close>, the two write loops,
  the two read loops and the two loops that handle packets, with a handler at the server. Each
  side takes what the other one put on its socket; nothing else happens meanwhile. The
  operations are those of the theories imported; only their order is fixed here.
\<close>

section \<open>Loops that are ready\<close>

lemma idView_chId:
  assumes "idView c' = idView c" "a < length (cnChans c)"
  shows "chId (chanAt c' a) = chId (chanAt c a)"
proof -
  have m: "map chId (cnChans c') = map chId (cnChans c)"
    using arg_cong [OF assms(1), of "\<lambda>v. map fst (fst v)"] by (simp add: idView_def comp_def)
  from arg_cong [OF m, of "\<lambda>l. l ! a"] assms(2) map_eq_imp_length_eq [OF m] show ?thesis by (simp add: chanAt_def)
qed

text \<open>A read loop that can take a packet of status \<open>st\<close> for the channel \<open>a\<close> with id \<open>k\<close>.\<close>

definition listening ::
    "(byte \<Rightarrow> byte \<Rightarrow> gerr option) \<Rightarrow> byte \<Rightarrow> u32 \<Rightarrow> nat \<Rightarrow> 'q conn \<Rightarrow> bool" where
  "listening check st k a c \<longleftrightarrow>
     \<not> cnReadDone c \<and> \<not> cnClosedMark c \<and> cnErr c = None \<and> cnReadPending c = None \<and>
     wellAddressed c \<and> getChannel k c = Some a \<and> check (chPacketStatus (chanAt c a)) st = None \<and>
     (\<forall>b < length (cnChans c). length (chReceivedQueue (chanAt c b)) \<le> chQueueCap (chanAt c b)) \<and>
     length (chReceivedQueue (chanAt c a)) < chQueueCap (chanAt c a)"

text \<open>A write loop with nothing to do, and room in its queue.\<close>

definition writerIdle :: "'q conn \<Rightarrow> bool" where
  "writerIdle c \<longleftrightarrow> \<not> cnWriteDone c \<and> \<not> cnNotifyClosed c \<and> cnWriteQueue c = [] \<and> 0 < cnWriteCap c"

lemma listening_cong:
  assumes "readView c' = readView c" and l: "listening check st k a c"
  shows "listening check st k a c'"
proof -
  note d = readView_D [OF assms(1)]
  from l have a: "a < length (cnChans c)" unfolding listening_def wellAddressed_def by blast
  then show ?thesis using l d by (simp add: listening_def wellAddressed_def)
qed

lemma listening_room:
  assumes "listening check st (pktChannelId p) a c"
  shows "hasRoom c [p]"
  using assms by (auto simp: listening_def hasRoom_def toChannel_def wellAddressed_def intro: Suc_leI)

text \<open>A packet came in and was taken out of its queue: the loop is ready for the next one.\<close>

abbreviation arrived :: "nat \<Rightarrow> packet \<Rightarrow> 'q conn \<Rightarrow> 'q conn" where
  "arrived a p \<equiv> updChan a (\<lambda>ch. ch\<lparr>chPacketStatus := pktStatus p,
     chReceivedQueue := chReceivedQueue ch @ [received a p]\<rparr>)"

abbreviation drained :: "nat \<Rightarrow> 'q conn \<Rightarrow> 'q conn" where
  "drained a \<equiv> updChan a (\<lambda>ch. ch\<lparr>chReceivedQueue := []\<rparr>)"

lemma listening_again:
  assumes l: "listening check st k a c" and st: "check (pktStatus p) st = None"
    and v1: "readView c1 = readView (arrived a p c)" and v2: "readView c2 = readView (drained a c1)"
  shows "listening check st k a c2"
proof -
  note d1 = readView_D [OF v1] and d2 = readView_D [OF v2]
  have a: "a < length (cnChans c)" using l unfolding listening_def wellAddressed_def by blast
  have len: "length (cnChans c2) = length (cnChans c)" "length (cnChans c1) = length (cnChans c)"
    using d1(6) d2(6) by simp_all
  have get: "getChannel x c2 = getChannel x c" for x
    using d1(7) [of x] d2(7) [of x] by (simp add: getChannel_def)
  have ch: "chReceivedQueue (chanAt c2 b) = (if b = a then [] else chReceivedQueue (chanAt c b)) \<and>
      chQueueCap (chanAt c2 b) = chQueueCap (chanAt c b) \<and>
      chPacketStatus (chanAt c2 b) = (if b = a then pktStatus p else chPacketStatus (chanAt c b))"
    if "b < length (cnChans c)" for b
    using that d1(9-11) [of b] d2(9-11) [of b] len by (cases "a = b") (simp_all add: chanAt_updChan)
  show ?thesis
    using l st a ch d1(1-5) d2(1-5) by (simp add: listening_def wellAddressed_def get len)
qed

lemma readView_eqI:
  assumes "cnErr c' = cnErr c" "cnClosedMark c' = cnClosedMark c" "cnReadDone c' = cnReadDone c"
    "cnReadPending c' = cnReadPending c" "idView c' = idView c" "length (cnChans c') = length (cnChans c)"
    "\<And>b. b < length (cnChans c) \<Longrightarrow> chReceivedQueue (chanAt c' b) = chReceivedQueue (chanAt c b) \<and>
       chQueueCap (chanAt c' b) = chQueueCap (chanAt c b) \<and>
       chPacketStatus (chanAt c' b) = chPacketStatus (chanAt c b)"
  shows "readView c' = readView c"
proof -
  have "map (\<lambda>ch. (chReceivedQueue ch, chQueueCap ch, chPacketStatus ch)) (cnChans c') =
      map (\<lambda>ch. (chReceivedQueue ch, chQueueCap ch, chPacketStatus ch)) (cnChans c)"
    using assms(6,7) by (intro nth_equalityI) (simp_all add: chanAt_def)
  with assms(1-5) show ?thesis by (simp add: readView_def) (simp add: idView_def)
qed

context read_loop begin

lemma deliver_single:
  assumes l: "listening check (pktStatus p) (pktChannelId p) a c" and p: "sendable p"
  shows "\<exists>c'. (loop ^^ 2) (c, encode p) = (c', []) \<and> coreView c' = coreView c \<and>
    writeView c' = writeView c \<and> ready c' \<and> cnReadPending c' = None \<and>
    chReceivedQueue (chanAt c' a) = chReceivedQueue (chanAt c a) @ [received a p] \<and>
    readView c' = readView (arrived a p c)"
proof -
  have a: "a < length (cnChans c)" using l unfolding listening_def wellAddressed_def by blast
  have c: "ready c" "cnReadPending c = None" "getChannel (pktChannelId p) c = Some a"
    "check (chPacketStatus (chanAt c a)) (pktStatus p) = None"
    "length (chReceivedQueue (chanAt c a)) < chQueueCap (chanAt c a)"
    using l by (simp_all add: ready_iff listening_def)
  from deliver_one [OF c(1,2) p c(3) a c(4,5), of "[]", unfolded append_Nil2] obtain c' where
    c': "(loop ^^ 2) (c, encode p) = (c', [])" "ready c'" "cnReadPending c' = None" "idView c' = idView c"
      "length (cnChans c') = length (cnChans c)" "coreView c' = coreView c" "writeView c' = writeView c"
    and ch: "\<And>b. b < length (cnChans c) \<Longrightarrow> chQueueCap (chanAt c' b) = chQueueCap (chanAt c b)"
      "\<And>b. b < length (cnChans c) \<Longrightarrow> chPacketStatus (chanAt c' b) =
         (if b = a then pktStatus p else chPacketStatus (chanAt c b))"
      "\<And>b. b < length (cnChans c) \<Longrightarrow> chReceivedQueue (chanAt c' b) =
         chReceivedQueue (chanAt c b) @ (if b = a then [received a p] else [])"
    by metis
  have "idView (arrived a p c) = idView c" by (rule idView_updChan) simp
  then have "readView c' = readView (arrived a p c)"
    using c' c(1,2) ch by (intro readView_eqI) (auto simp: ready_iff chanAt_updChan)
  with c' ch(3) [OF a] show ?thesis by simp
qed

end

lemma answer_nonempty: "answer run m path params data True = Some d \<Longrightarrow> d \<noteq> []"
  by (auto simp: answer_def split: option.splits outcome.splits prod.splits if_splits)

lemma writeLoop_one:
  assumes "\<not> cnWriteDone c" "\<not> cnClosedMark c" "\<not> cnNotifyClosed c" "cnWriteQueue c = [p]" "sendable p"
  shows "\<exists>c'. writeLoop False fullWriter c = c' \<and> cnOut c' = cnOut c @ encode p \<and>
    cnWriteQueue c' = [] \<and> coreView c' = coreView c \<and> readView c' = readView c \<and> \<not> cnWriteDone c'"
  using writeLoop_full [of c "[(p, encode p)]" "[]" False] assms CreateNetPacket_sendable [OF assms(5)]
  by simp

section \<open>The exchange\<close>

definition exchange where
  "exchange parse ops srun crun pick spick sdur cdur ca sa path r w s m cm =
     (let (w1, sending, n) = DoRequest parse ops alone pick (Some ca) path r w;
          c1 = writeLoop False fullWriter (cwConn w1);
          (s1, rest) = (serverReadLoop ^^ 2) (s, drop (length (cnOut (cwConn w1))) (cnOut c1));
          (s2, m2) = handleServerLoop parse srun spick sdur alone sa Received (s1, m);
          s3 = writeLoop False fullWriter s2;
          (c2, rest') = (clientReadLoop ^^ 2) (c1, drop (length (cnOut s2)) (cnOut s3));
          (w2, cm2) = handleClientLoop ops crun cdur ca Received (w1\<lparr>cwConn := c2\<rparr>, cm)
      in (w2, s3, m2, cm2, DoRequest_response r n w2))"

text \<open>The packet of the request, with its size and path in the limits of the reader.\<close>

definition carriable :: "string \<Rightarrow> byte list \<Rightarrow> bool" where
  "carriable path data \<longleftrightarrow> path \<noteq> '''' \<and> length path \<le> unat MaxPathLen \<and> CHR 0x00 \<notin> set path \<and>
     data \<noteq> [] \<and> length data \<le> unat MaxPacketSize"

lemma sendable_sent: "carriable path data \<Longrightarrow> sendable (sentPacket c a path data)"
  by (simp add: sendable_def carriable_def sentPacket_def requestPacket_def noNul_def status_defs)

lemma sendable_response: "carriable path data \<Longrightarrow> sendable (responsePacket a path k data)"
  by (simp add: sendable_def carriable_def responsePacket_def noNul_def status_defs)

section \<open>The server's half\<close>

lemma answerable_view:
  assumes "coreView c' = coreView c" "a < length (cnChans c)"
  shows "answerable a c' = answerable a c"
  using coreView_D [OF assms(1)] assms(2) by (simp add: answerable_def)

definition serverIdle :: "u32 \<Rightarrow> nat \<Rightarrow> 'q conn \<Rightarrow> bool" where
  "serverIdle k a c \<longleftrightarrow> answerable a c \<and> \<not> chLoopDone (chanAt c a) \<and> chWhole (chanAt c a) = None \<and>
     chReceivedQueue (chanAt c a) = [] \<and> listening CheckClientPacketStatus StatusC1 k a c \<and> writerIdle c"

text \<open>A read loop between two packets.\<close>

definition readerIdle :: "'q conn \<Rightarrow> bool" where
  "readerIdle c \<longleftrightarrow> \<not> cnReadDone c \<and> \<not> cnClosedMark c \<and> cnErr c = None \<and> cnReadPending c = None"

lemma server_reads:
  assumes idle: "serverIdle (pktChannelId p) sa s" and p: "sendable p" "pktStatus p = StatusC1"
  shows "\<exists>s1. (serverReadLoop ^^ 2) (s, encode p) = (s1, []) \<and> answerable sa s1 \<and>
    \<not> chLoopDone (chanAt s1 sa) \<and> chWhole (chanAt s1 sa) = None \<and>
    chReceivedQueue (chanAt s1 sa) = [received sa p] \<and> writerIdle s1 \<and> readerIdle s1 \<and>
    idView s1 = idView s \<and> length (cnChans s1) = length (cnChans s) \<and>
    coreView s1 = coreView s \<and> readView s1 = readView (arrived sa p s)"
proof -
  have i: "answerable sa s" "\<not> chLoopDone (chanAt s sa)" "chWhole (chanAt s sa) = None"
    "chReceivedQueue (chanAt s sa) = []" "writerIdle s"
    "listening CheckClientPacketStatus (pktStatus p) (pktChannelId p) sa s"
    using idle p(2) by (simp_all add: serverIdle_def)
  have sa: "sa < length (cnChans s)" using i(1) by (simp add: answerable_def)
  from server_loop.deliver_single [OF i(6) p(1)] obtain s1 where
    s1: "(serverReadLoop ^^ 2) (s, encode p) = (s1, [])" "coreView s1 = coreView s"
      "writeView s1 = writeView s" "chReceivedQueue (chanAt s1 sa) = [received sa p]"
      "readerIdle s1" "readView s1 = readView (arrived sa p s)"
    using i(4) by (auto simp: readerIdle_def)
  note v = coreView_D [OF s1(2)]
  have "answerable sa s1" using answerable_view [OF s1(2) sa] i(1) by simp
  moreover have "writerIdle s1" using i(5) s1(3) v by (simp add: writerIdle_def writeView_def)
  ultimately show ?thesis using s1 v sa i(2,3) by (intro exI [of _ s1]) simp
qed

lemma server_writes:
  assumes "answerable sa s" "\<not> cnWriteDone s" "\<not> cnNotifyClosed s" "readerIdle s"
    and "cnWriteQueue s = [responsePacket sa path k d]" "carriable path d"
  shows "\<exists>s'. writeLoop False fullWriter s = s' \<and> cnWriteQueue s' = [] \<and>
    cnOut s' = cnOut s @ encode (responsePacket sa path k d) \<and> answerable sa s' \<and> readerIdle s' \<and>
    idView s' = idView s \<and> chReceivedQueue (chanAt s' sa) = chReceivedQueue (chanAt s sa) \<and>
    chWhole (chanAt s' sa) = chWhole (chanAt s sa) \<and> chLoopDone (chanAt s' sa) = chLoopDone (chanAt s sa) \<and>
    coreView s' = coreView s \<and> readView s' = readView s \<and> \<not> cnWriteDone s'"
proof -
  have sa: "sa < length (cnChans s)" and "\<not> cnClosedMark s" using assms(1) by (simp_all add: answerable_def)
  from writeLoop_one [OF assms(2) this(2) assms(3,5) sendable_response [OF assms(6)]] obtain s' where
    s': "writeLoop False fullWriter s = s'" "cnWriteQueue s' = []" "coreView s' = coreView s"
      "readView s' = readView s" "cnOut s' = cnOut s @ encode (responsePacket sa path k d)" "\<not> cnWriteDone s'"
    by blast
  note r = readView_D [OF s'(4)]
  have "readerIdle s'" using assms(4) r by (simp add: readerIdle_def)
  moreover have "answerable sa s'" using answerable_view [OF s'(3) sa] assms(1) by simp
  ultimately show ?thesis using s' r(8) r(9) [OF sa] coreView_D(11,12) [OF s'(3) sa] by blast
qed

lemma server_half:
  assumes idle: "serverIdle (pktChannelId p) sa s"
    and p: "sendable p" "pktStatus p = StatusC1"
    and path: "parse (pktPath p) = Inr (upath, params)" "isUserPath upath"
    and ans: "answer srun m upath params (pktData p) True = Some d" "carriable upath d"
  shows "\<exists>s1 s2 m2 s3. (serverReadLoop ^^ 2) (s, encode p) = (s1, []) \<and>
    handleServerLoop parse srun pick dur alone sa Received (s1, m) = (s2, m2) \<and>
    writeLoop False fullWriter s2 = s3 \<and> ensureMap m2 = ensureMap m \<and>
    cnOut s3 = cnOut s2 @ encode (responsePacket sa upath (pktChannelId p) d) \<and>
    serverIdle (pktChannelId p) sa s3 \<and> idView s3 = idView s"
proof -
  from server_reads [OF idle p] obtain s1 where
    s1: "(serverReadLoop ^^ 2) (s, encode p) = (s1, [])" "answerable sa s1"
      "\<not> chLoopDone (chanAt s1 sa)" "chWhole (chanAt s1 sa) = None"
      "chReceivedQueue (chanAt s1 sa) = [received sa p]" "writerIdle s1" "readerIdle s1"
      "readView s1 = readView (arrived sa p s)" by blast
  let ?whole = "parsePath parse (received sa p)"
  have whole: "pktPath ?whole = upath" "pktParams ?whole = Some params" "pktData ?whole = pktData p"
    "pktChannel ?whole = Some sa"
    using path(1) by (simp_all add: parsePath_def received_def wireView_def)
  have rec: "pktStatus (received sa p) = StatusC1" "pktPath (received sa p) = pktPath p"
    "pktChannelId (received sa p) = pktChannelId p"
    using p(2) by (simp_all add: received_def wireView_def)
  have comp: "isClientStatusCompleted StatusC1" "StatusC1 \<noteq> Status8"
    by (simp_all add: client_status_defs)
  have user: "upath \<noteq> PathNewChannel" "upath \<noteq> PathDeleteChannel" "pktPath p \<noteq> ''''"
    using path(2) p(1) by (simp_all add: isUserPath_def sendable_def)
  have merge: "mergePacket None q = q" for q by (simp add: mergePacket_def)
  have small: "length d \<le> unat MaxPacketSize" using ans(2) by (simp add: carriable_def)
  from round_received [OF s1(2,3,5), of ?whole parse sa "Some d" srun m pick dur]
  obtain s2 m2 where s2: "handleServerLoop parse srun pick dur alone sa Received (s1, m) = (s2, m2)"
      "ensureMap m2 = ensureMap m" "answerable sa s2" "chReceivedQueue (chanAt s2 sa) = []"
      "cnWriteDone s2 = cnWriteDone s1" "cnNotifyClosed s2 = cnNotifyClosed s1"
      "cnReadDone s2 = cnReadDone s1" "cnReadPending s2 = cnReadPending s1" "cnErr s2 = cnErr s1"
      "chWhole (chanAt s2 sa) = None" "\<not> chLoopDone (chanAt s2 sa)"
      "cnWriteQueue s2 = cnWriteQueue s1 @ (if length (cnWriteQueue s1) < cnWriteCap s1
          then [responsePacket sa upath (pktChannelId p) d] else [])"
      "readView s2 = readView (drained sa s1)" "cnWriteCap s2 = cnWriteCap s1"
    using s1(4) rec comp user whole merge ans(1) small by auto
  have "readerIdle s2" "\<not> cnWriteDone s2" "\<not> cnNotifyClosed s2"
    "cnWriteQueue s2 = [responsePacket sa upath (pktChannelId p) d]"
    using s2(3,5-12) s1(6,7) by (simp_all add: readerIdle_def writerIdle_def answerable_def)
  from server_writes [OF s2(3) this(2,3,1,4) ans(2)] obtain s3 where
    s3: "writeLoop False fullWriter s2 = s3" "cnWriteQueue s3 = []" "answerable sa s3"
      "cnOut s3 = cnOut s2 @ encode (responsePacket sa upath (pktChannelId p) d)"
      "chReceivedQueue (chanAt s3 sa) = chReceivedQueue (chanAt s2 sa)"
      "chWhole (chanAt s3 sa) = chWhole (chanAt s2 sa)" "chLoopDone (chanAt s3 sa) = chLoopDone (chanAt s2 sa)"
      "coreView s3 = coreView s2" "readView s3 = readView s2" "\<not> cnWriteDone s3" by blast
  have "listening CheckClientPacketStatus StatusC1 (pktChannelId p) sa s3"
  proof (rule listening_again [OF _ _ s1(8)])
    show "listening CheckClientPacketStatus StatusC1 (pktChannelId p) sa s" using idle by (simp add: serverIdle_def)
    show "CheckClientPacketStatus (pktStatus p) StatusC1 = None" by (simp add: p(2) client_status_defs)
    show "readView s3 = readView (drained sa s1)" using s3(9) s2(13) by (rule trans)
  qed
  moreover have "writerIdle s3"
    using s3(2,10) coreView_D(4,5) [OF s3(8)] s2(6,14) s1(6) by (simp add: writerIdle_def)
  ultimately have "serverIdle (pktChannelId p) sa s3" using s3(3,5-7) s2(4,10,11) by (simp add: serverIdle_def)
  moreover have "idView s3 = idView s"
  proof -
    have "idView s3 = idView (drained sa s1)" using readView_D(8) [OF trans [OF s3(9) s2(13)]] .
    also have "\<dots> = idView s1" by (rule idView_updChan) simp
    also have "\<dots> = idView (arrived sa p s)" using readView_D(8) [OF s1(8)] .
    also have "\<dots> = idView s" by (rule idView_updChan) simp
    finally show ?thesis .
  qed
  ultimately show ?thesis using s1(1) s2(1,2) s3(1,4)
    by - (rule exI [of _ s1], rule exI [of _ s2], rule exI [of _ m2], auto)
qed

section \<open>The client's half\<close>

text \<open>A channel with nothing under way: the client can send on it, and its loops are ready.\<close>

definition clientIdle :: "('q \<Rightarrow> nat list) \<Rightarrow> nat \<Rightarrow> 'q clientWorld \<Rightarrow> bool" where
  "clientIdle elems a w \<longleftrightarrow> clientReady elems a [] [] w \<and> clientOpen a (cwConn w) \<and>
     chWhole (chanAt (cwConn w) a) = None \<and> wfNotify (cwNotify w) \<and>
     listening CheckServerPacketStatus StatusS5 (chId (chanAt (cwConn w) a)) a (cwConn w) \<and>
     writerIdle (cwConn w)"

lemma clientIdle_D:
  assumes "clientIdle elems a w"
  shows "a < length (cnChans (cwConn w))" "chErr (chanAt (cwConn w) a) = None" "\<not> cnClosedMark (cwConn w)"
    "cnRole (cwConn w) = RoleClient" "clientReady elems a [] [] w" "chWhole (chanAt (cwConn w) a) = None"
    "wfNotify (cwNotify w)" "writerIdle (cwConn w)"
    "listening CheckServerPacketStatus StatusS5 (chId (chanAt (cwConn w) a)) a (cwConn w)"
  using assms by (simp_all add: clientIdle_def clientOpen_def)

lemma wfNotify_response: "wfNotify s \<Longrightarrow> wfNotify (notifyResponse n d s)"
  by (auto simp: wfNotify_def notifyResponse_def split: option.split)

text \<open>The caller takes the response: what it leaves of the world.\<close>

lemma DoRequest_response_taken:
  assumes "nsStore (cwNotify w) ! n = Some d" "wfNotify (cwNotify w)" "n < length (nsStore (cwNotify w))"
  shows "\<exists>w'. DoRequest_response r n w = Some (w', Inr d) \<and> cwConn w' = cwConn w \<and>
    wfNotify (cwNotify w') \<and> map reqData (cwRequests w') = map reqData (cwRequests w)"
proof -
  let ?w = "w\<lparr>cwNotify := (cwNotify w)\<lparr>nsStore := (nsStore (cwNotify w))[n := None]\<rparr>\<rparr>"
  have "wfNotify (cwNotify ?w)" "n < length (nsStore (cwNotify ?w))" using assms(2,3) by (simp_all add: wfNotify_def)
  then have "wfNotify (cwNotify (releaseRequest r n ?w))" by (simp add: wfNotify_release)
  moreover have "map reqData (cwRequests (releaseRequest r n ?w)) = map reqData (cwRequests w)"
    by (simp add: releaseRequest_def updRequest_def Let_def map_update_same)
  ultimately show ?thesis using assms(1)
    by (intro exI [of _ "releaseRequest r n ?w"]) (simp add: DoRequest_response_def)
qed

lemma client_half:
  assumes w: "clientReady elems ca [] [r] w" "chWhole (chanAt (cwConn w) ca) = None" "fifoOps ops elems"
      "clientOpen ca (cwConn w)" "chId (chanAt (cwConn w) ca) = k" "wfNotify (cwNotify w)"
    and caller: "GetCtxData (reqCtx (cwRequests w ! r)) CtxResponseChan = Some (CvNotify n)"
      "n < length (nsStore (cwNotify w))" "nsStore (cwNotify w) ! n = None"
    and c1: "coreView c1 = coreView (cwConn w)" "chReceivedQueue (chanAt c1 ca) = []"
      "listening CheckServerPacketStatus StatusS5 k ca c1" "writerIdle c1"
    and path: "carriable upath d" "upath \<noteq> PathDeleteChannel"
  shows "\<exists>c2 w2 cm2 w3. (clientReadLoop ^^ 2) (c1, encode (responsePacket sa upath k d)) = (c2, []) \<and>
    handleClientLoop ops run dur ca Received (w\<lparr>cwConn := c2\<rparr>, cm) = (w2, cm2) \<and>
    DoRequest_response r n w2 = Some (w3, Inr d) \<and> cwConn w3 = cwConn w2 \<and>
    idView (cwConn w2) = idView (cwConn w) \<and> clientIdle elems ca w3 \<and>
    map reqData (cwRequests w3) = map reqData (cwRequests w)"
proof -
  let ?p = "responsePacket sa upath k d"
  have p: "pktStatus ?p = StatusS5" "pktChannelId ?p = k" by (simp_all add: responsePacket_def)
  from client_loop.deliver_single [of ?p ca c1] sendable_response [OF path(1)] c1(2,3) obtain c2 where
    c2: "(clientReadLoop ^^ 2) (c1, encode ?p) = (c2, [])" "coreView c2 = coreView c1"
      "writeView c2 = writeView c1" "chReceivedQueue (chanAt c2 ca) = [received ca ?p]"
      "readView c2 = readView (arrived ca ?p c1)"
    unfolding p by auto
  have v: "coreView c2 = coreView (cwConn w)" using c2(2) c1(1) by simp
  note d = coreView_D [OF v]
  let ?w = "w\<lparr>cwConn := c2\<rparr>"
  have ca: "ca < length (cnChans (cwConn w))" using w(1) by (simp add: clientReady_def)
  have ready: "clientReady elems ca (received ca ?p # []) (r # []) ?w"
    using w(1) d ca c2(4) by (simp add: clientReady_def)
  have whole: "received ca ?p = mergePacket (chWhole (chanAt (cwConn ?w) ca)) (received ca ?p)"
    using w(2) d ca by (simp add: mergePacket_def)
  have rec: "pktStatus (received ca ?p) = StatusS5" "pktPath (received ca ?p) = upath"
    "pktData (received ca ?p) = d"
    by (simp_all add: received_def wireView_def responsePacket_def)
  have st: "isServerStatusCompleted StatusS5" "StatusS5 \<noteq> Status8" by (simp_all add: server_status_defs)
  from client_round [OF ready w(3) _ whole, of run dur cm] path(2) st rec
  obtain w2 cm2 where w2: "handleClientLoop ops run dur ca Received (?w, cm) = (w2, cm2)"
    "clientReady elems ca [] [] w2" "chWhole (chanAt (cwConn w2) ca) = None"
    "cwNotify w2 = cwNotify (notifyCaller r d ?w)" "idView (cwConn w2) = idView c2"
    "cnClosedMark (cwConn w2) = cnClosedMark c2" "cwRequests w2 = cwRequests w"
    "readView (cwConn w2) = readView (drained ca c2)" "roundView ca (cwConn w2) = roundView ca c2" by auto
  have n2: "cwNotify w2 = notifyResponse n d (cwNotify w)"
    using caller(1) w2(4) by (simp add: notifyCaller_def)
  have "nsStore (cwNotify w2) ! n = Some d" "n < length (nsStore (cwNotify w2))" "wfNotify (cwNotify w2)"
    using caller(2,3) w(6) wfNotify_response [OF w(6)] by (simp_all add: n2) (simp_all add: notifyResponse_def)
  from DoRequest_response_taken [OF this(1,3,2), of r] obtain w3 where w3:
    "DoRequest_response r n w2 = Some (w3, Inr d)" "cwConn w3 = cwConn w2" "wfNotify (cwNotify w3)"
    "map reqData (cwRequests w3) = map reqData (cwRequests w)"
    unfolding w2(7) by blast
  have id: "idView (cwConn w2) = idView (cwConn w)" using w2(5) d(6) by simp
  have cid: "chId (chanAt (cwConn w2) ca) = k" using idView_chId [OF id ca] w(5) by simp
  have "listening CheckServerPacketStatus StatusS5 k ca (cwConn w2)"
    by (rule listening_again [OF c1(3) _ c2(5) w2(8)]) (simp add: p server_status_defs)
  moreover have "writerIdle (cwConn w2)"
    using w2(9) c2(3) coreView_D(4,5) [OF c2(2)] c1(4) by (simp add: writerIdle_def roundView_def writeView_def)
  moreover have "clientOpen ca (cwConn w2)"
    using w(4) w2(6,9) d(1,3,7,9) ca by (simp add: clientOpen_def roundView_def)
  ultimately have "clientIdle elems ca w3"
    using w2(2,3) w3(2,3) clientReady_cwConn [OF w3(2)] by (simp add: clientIdle_def cid)
  with c2(1) w2(1) w3(1,2,4) id show ?thesis
    by - (rule exI [of _ c2], rule exI [of _ w2], rule exI [of _ cm2], rule exI [of _ w3], simp)
qed

section \<open>One request, one response\<close>

text \<open>The client's side of an exchange, around whatever the server does with the packet.\<close>

lemma exchange_client:
  assumes client: "clientIdle elems ca w" "fifoOps ops elems" "pickOk pick (cwNotify w)"
    and request: "r < length (cwRequests w)" "ValidatePath parse path"
      "carriable path (reqData (cwRequests w ! r))"
    and p: "p = sentPacket (cwConn w) ca path (reqData (cwRequests w ! r))"
    and server: "(serverReadLoop ^^ 2) (s, encode p) = (s1, [])"
      "handleServerLoop parse srun spick sdur alone sa Received (s1, m) = (s2, m2)"
      "writeLoop False fullWriter s2 = s3"
      "cnOut s3 = cnOut s2 @ encode (responsePacket sa upath (pktChannelId p) d)"
    and resp: "carriable upath d" "upath \<noteq> PathDeleteChannel"
  shows "\<exists>w' cm' w''. exchange parse ops srun crun pick spick sdur cdur ca sa path r w s m cm =
      (w', s3, m2, cm', Some (w'', Inr d)) \<and> cwConn w'' = cwConn w' \<and>
    idView (cwConn w') = idView (cwConn w) \<and> clientIdle elems ca w'' \<and>
    map reqData (cwRequests w'') = map reqData (cwRequests w)"
proof -
  let ?c = "cwConn w" and ?data = "reqData (cwRequests w ! r)"
  let ?k = "chId (chanAt ?c ca)"
  note c = clientIdle_D [OF client(1)]
  have ca: "ca < length (cnChans ?c)" by (rule c(1))
  have "clientOpen ca ?c" "?data \<noteq> []" using client(1) request(3) by (simp_all add: clientIdle_def carriable_def)
  from DoRequest_ready [OF c(5) this(1) client(2) request(2,1) this(2) c(7) client(3)]
  obtain w1 n where w1: "DoRequest parse ops alone pick (Some ca) path r w = (w1, Sent, n)"
    "waitsOn elems ca [] r n w w1" "cwConn w1 = requestedConn ops ca path r ?data ?c" by blast
  have q1: "cnWriteQueue (cwConn w1) = [p]" "\<not> cnWriteDone (cwConn w1)"
    "\<not> cnClosedMark (cwConn w1)" "\<not> cnNotifyClosed (cwConn w1)"
    using c(3,8) ca by (simp_all add: p w1(3) requestedConn_simps writerIdle_def)
  have "sendable p" unfolding p by (rule sendable_sent [OF request(3)])
  from writeLoop_one [OF q1(2-4,1) this] obtain c1 where
    c1: "writeLoop False fullWriter (cwConn w1) = c1" "cnOut c1 = cnOut (cwConn w1) @ encode p"
      "coreView c1 = coreView (cwConn w1)" "readView c1 = readView (cwConn w1)"
      "cnWriteQueue c1 = []" "\<not> cnWriteDone c1" by blast
  have k: "pktChannelId p = ?k" by (simp add: p sentPacket_def requestPacket_def)
  have rv: "readView c1 = readView ?c" using c1(4) ca by (simp add: w1(3) requestedConn_simps)
  have l1: "listening CheckServerPacketStatus StatusS5 ?k ca c1" by (rule listening_cong [OF rv c(9)])
  have i1: "writerIdle c1"
    using c1(5,6) coreView_D(4,5) [OF c1(3)] c(8) ca by (simp add: writerIdle_def w1(3) requestedConn_simps)
  have qq: "chReceivedQueue (chanAt c1 ca) = []"
    using readView_D(9) [OF rv ca] clientReady_queue [OF c(5)] by simp
  have wt: "clientReady elems ca [] [r] w1" "chWhole (chanAt (cwConn w1) ca) = None"
    "GetCtxData (reqCtx (cwRequests w1 ! r)) CtxResponseChan = Some (CvNotify n)"
    "n < length (nsStore (cwNotify w1))" "nsStore (cwNotify w1) ! n = None" "clientOpen ca (cwConn w1)"
    "wfNotify (cwNotify w1)"
    and data: "length (cwRequests w1) = length (cwRequests w)"
      "reqData (cwRequests w1 ! k) = reqData (cwRequests w ! k)" for k
    using w1(2) c(6) clientReady_queue [OF c(5)] by (simp_all add: waitsOn_def)
  have id1: "chId (chanAt (cwConn w1) ca) = ?k" using ca by (simp add: w1(3) requestedConn_simps)
  from client_half [OF wt(1,2) client(2) wt(6) id1 wt(7,3-5) c1(3) qq l1 i1 resp, of sa crun cdur cm]
  obtain c2 w2 cm2 w3 where c2:
    "(clientReadLoop ^^ 2) (c1, encode (responsePacket sa upath ?k d)) = (c2, [])"
    "handleClientLoop ops crun cdur ca Received (w1\<lparr>cwConn := c2\<rparr>, cm) = (w2, cm2)"
    "DoRequest_response r n w2 = Some (w3, Inr d)" "cwConn w3 = cwConn w2"
    "idView (cwConn w2) = idView (cwConn w1)" "clientIdle elems ca w3"
    "map reqData (cwRequests w3) = map reqData (cwRequests w1)" by blast
  have "map reqData (cwRequests w1) = map reqData (cwRequests w)"
    using data by (intro nth_equalityI) simp_all
  moreover have "idView (cwConn w1) = idView ?c"
    using readView_D(8) [OF rv] coreView_D(6) [OF c1(3)] by simp
  moreover have "exchange parse ops srun crun pick spick sdur cdur ca sa path r w s m cm =
      (w2, s3, m2, cm2, Some (w3, Inr d))"
    by (simp add: exchange_def w1(1) c1(1,2) server [unfolded k] c2(1-3) Let_def)
  ultimately show ?thesis using c2(4-7) by metis
qed

text \<open>On an idle channel a request is answered by the server's handler, and the channel is idle again
  on both sides.\<close>

theorem exchange_idle:
  assumes client: "clientIdle elems ca w" "fifoOps ops elems" "pickOk pick (cwNotify w)"
    and server: "serverIdle (chId (chanAt (cwConn w) ca)) sa s"
    and request: "r < length (cwRequests w)" "parse path = Inr (upath, params)"
      "carriable path (reqData (cwRequests w ! r))" "isUserPath upath"
    and ans: "answer srun m upath params (reqData (cwRequests w ! r)) True = Some d" "carriable upath d"
  shows "\<exists>w' s' m' cm' w''.
    exchange parse ops srun crun pick spick sdur cdur ca sa path r w s m cm =
      (w', s', m', cm', Some (w'', Inr d)) \<and>
    clientIdle elems ca w'' \<and> serverIdle (chId (chanAt (cwConn w'') ca)) sa s' \<and>
    chId (chanAt (cwConn w'') ca) = chId (chanAt (cwConn w) ca) \<and>
    map reqData (cwRequests w'') = map reqData (cwRequests w) \<and> ensureMap m' = ensureMap m \<and>
    idView (cwConn w'') = idView (cwConn w) \<and> idView s' = idView s"
proof -
  let ?data = "reqData (cwRequests w ! r)"
  let ?p = "sentPacket (cwConn w) ca path ?data"
  have valid: "ValidatePath parse path" using request(2,3) by (simp add: ValidatePath_def carriable_def)
  have p: "pktStatus ?p = StatusC1" "pktChannelId ?p = chId (chanAt (cwConn w) ca)" "pktPath ?p = path"
    "pktData ?p = ?data" by (simp_all add: sentPacket_def requestPacket_def)
  have sp: "sendable ?p" by (rule sendable_sent [OF request(3)])
  have idle: "serverIdle (pktChannelId ?p) sa s" using server by (simp add: p(2))
  have q: "parse (pktPath ?p) = Inr (upath, params)" "answer srun m upath params (pktData ?p) True = Some d"
    using request(2) ans(1) by (simp_all only: p)
  from server_half [of ?p sa s parse upath params srun m d spick sdur, OF idle sp p(1) q(1) request(4) q(2) ans(2)]
  obtain s1 s2 m2 s3 where s: "(serverReadLoop ^^ 2) (s, encode ?p) = (s1, [])"
    "handleServerLoop parse srun spick sdur alone sa Received (s1, m) = (s2, m2)"
    "writeLoop False fullWriter s2 = s3"
    "cnOut s3 = cnOut s2 @ encode (responsePacket sa upath (pktChannelId ?p) d)"
    "ensureMap m2 = ensureMap m" "serverIdle (pktChannelId ?p) sa s3" "idView s3 = idView s" by blast
  have notDelete: "upath \<noteq> PathDeleteChannel" using request(4) by (simp add: isUserPath_def)
  from exchange_client [OF client request(1) valid request(3) refl s(1-4) ans(2) notDelete,
      of crun cdur cm]
  obtain w' cm' w'' where e: "exchange parse ops srun crun pick spick sdur cdur ca sa path r w s m cm =
      (w', s3, m2, cm', Some (w'', Inr d))" "cwConn w'' = cwConn w'" "idView (cwConn w') = idView (cwConn w)"
      "clientIdle elems ca w''" "map reqData (cwRequests w'') = map reqData (cwRequests w)" by blast
  have id: "chId (chanAt (cwConn w'') ca) = chId (chanAt (cwConn w) ca)"
    unfolding e(2) by (rule idView_chId [OF e(3) clientIdle_D(1) [OF client(1)]])
  have "serverIdle (chId (chanAt (cwConn w'') ca)) sa s3" unfolding id using s(6) unfolding p(2) .
  moreover have "idView (cwConn w'') = idView (cwConn w)" using e(2,3) by simp
  ultimately show ?thesis using e(1,4,5) id s(5,7) by blast
qed

text \<open>Channel 0 of a fresh connection, whose server echoes what it gets on one path.\<close>

lemma fresh_serverIdle: "serverIdle 0 0 (freshConn RoleServer)"
proof -
  note f = NewConnection_Inr [OF freshConn_New [of RoleServer]]
  show ?thesis
    using f freshConn_addressed [of RoleServer]
    by (simp add: serverIdle_def answerable_def listening_def writerIdle_def getChannel_def client_status_defs)
qed

lemma waiting_clientIdle:
  "clientIdle (\<lambda>q. q) 0 (waitingWorld [] [])" "chId (chanAt (cwConn (waitingWorld [] [])) 0) = 0"
proof -
  show i: "chId (chanAt (cwConn (waitingWorld [] [])) 0) = 0" by (rule waitingWorld_facts(4))
  obtain c :: "nat list conn" where c: "NewConnection True False ownerZero RoleClient 100 [] = Inr c"
    by (simp add: NewConnection_def)
  note f = NewConnection_Inr [OF c]
  have w: "cwConn (waitingWorld [] []) = updChan 0 (\<lambda>ch. ch\<lparr>chReceivedQueue := []\<rparr>) c"
    "cwNotify (waitingWorld [] []) = \<lparr>nsStore = [None], nsPool = []\<rparr>"
    by (simp_all add: waitingWorld_def c)
  show "clientIdle (\<lambda>q. q) 0 (waitingWorld [] [])"
    unfolding clientIdle_def i using f waitingWorld_facts(1,2) [of "[]" "[]"]
    by (simp add: w clientOpen_def listening_def writerIdle_def getChannel_def wfNotify_def
        wellAddressed_def server_status_defs)
qed

end
