(* ===== verification/Handshake.thy ===== *)
theory Handshake
  imports EndToEnd
begin

text \<open>
  The creation of a channel by both sides: \<open>Client.newChannel\<close> of \<open>client.go\<close> asks on the system
  channel, the server makes a channel and answers with its id, and the client makes one of its own
  with an id of its own allocator. This theory runs both and states when the two ids agree.
\<close>

section \<open>Views of a new channel\<close>

text \<open>The view of the ids after a channel was made; it depends on the view before only.\<close>

definition newView where
  "newView pick c = idView (fst (newChannel pick False 0 [] [] None c))"

definition newId :: "nat \<Rightarrow> 'q conn \<Rightarrow> u32" where
  "newId pick c = snd (makeNewChannelId pick c)"

lemma idView_D:
  assumes "idView c' = idView c"
  shows "cnFree c' = cnFree c" "cnMaxChannelId c' = cnMaxChannelId c" "cnChannels c' = cnChannels c"
    "cnChannelCount c' = cnChannelCount c" "length (cnChans c') = length (cnChans c)"
    "map (\<lambda>ch. (chId ch, chClosedMark ch)) (cnChans c') = map (\<lambda>ch. (chId ch, chClosedMark ch)) (cnChans c)"
proof -
  show m: "map (\<lambda>ch. (chId ch, chClosedMark ch)) (cnChans c') = map (\<lambda>ch. (chId ch, chClosedMark ch)) (cnChans c)"
    using assms by (simp add: idView_def)
  show "length (cnChans c') = length (cnChans c)" by (rule map_eq_imp_length_eq [OF m])
qed (use assms in \<open>simp_all add: idView_def\<close>)

lemma newChannel_view:
  assumes "idView c' = idView c"
  shows "idView (fst (newChannel pick False n cc sc u c')) = newView pick c"
    "snd (newChannel pick False n cc sc u c') = length (cnChans c)"
    "chId (chanAt (fst (newChannel pick False n cc sc u c')) (length (cnChans c))) = newId pick c"
  using idView_D [OF assms]
  by (auto simp: newView_def newId_def newChannel_def enterChannel_def makeNewChannelId_def Let_def idView_def
      chanAt_def nth_append)

lemma newView_D:
  assumes "idView c' = newView pick c"
  shows "getChannel x c' = (if x = newId pick c then Some (length (cnChans c)) else getChannel x c)"
    "length (cnChans c') = Suc (length (cnChans c))"
    "chId (chanAt c' (length (cnChans c))) = newId pick c"
    "cnFree c' = cnFree (fst (makeNewChannelId pick c))"
    "cnMaxChannelId c' = cnMaxChannelId (fst (makeNewChannelId pick c))"
proof -
  let ?d = "fst (newChannel pick False 0 [] [] None c)"
  have v: "idView c' = idView ?d" using assms by (simp add: newView_def)
  note e = idView_D [OF v]
  have d: "cnChannels ?d = AList.update (newId pick c) (length (cnChans c)) (cnChannels c)"
    "length (cnChans ?d) = Suc (length (cnChans c))"
    "chId (chanAt ?d (length (cnChans c))) = newId pick c"
    "cnFree ?d = cnFree (fst (makeNewChannelId pick c))"
    "cnMaxChannelId ?d = cnMaxChannelId (fst (makeNewChannelId pick c))"
    by (auto simp: newId_def newChannel_def enterChannel_def makeNewChannelId_def Let_def chanAt_def nth_append)
  show "getChannel x c' = (if x = newId pick c then Some (length (cnChans c)) else getChannel x c)"
    by (simp add: getChannel_def e(3) d(1) update_conv')
  show len: "length (cnChans c') = Suc (length (cnChans c))"
    "cnFree c' = cnFree (fst (makeNewChannelId pick c))"
    "cnMaxChannelId c' = cnMaxChannelId (fst (makeNewChannelId pick c))" using e d by simp_all
  from arg_cong [OF e(6), of "\<lambda>l. fst (l ! length (cnChans c))"] len(1) d(2,3)
  show "chId (chanAt c' (length (cnChans c))) = newId pick c" by (simp add: chanAt_def)
qed

lemma makeNewChannelId_frame [simp]:
  "cnRole (fst (makeNewChannelId pick c)) = cnRole c" "cnErr (fst (makeNewChannelId pick c)) = cnErr c"
  "cnClosedMark (fst (makeNewChannelId pick c)) = cnClosedMark c"
  "cnWriteQueue (fst (makeNewChannelId pick c)) = cnWriteQueue c"
  "cnWriteCap (fst (makeNewChannelId pick c)) = cnWriteCap c"
  "cnWriteDone (fst (makeNewChannelId pick c)) = cnWriteDone c"
  "cnNotifyClosed (fst (makeNewChannelId pick c)) = cnNotifyClosed c"
  "cnReadDone (fst (makeNewChannelId pick c)) = cnReadDone c"
  "cnReadPending (fst (makeNewChannelId pick c)) = cnReadPending c"
  "cnChans (fst (makeNewChannelId pick c)) = cnChans c"
  by (simp_all add: makeNewChannelId_def Let_def)

lemma newChannel_frame [simp]:
  "cnRole (fst (newChannel pick False n cc sc u c)) = cnRole c"
  "cnErr (fst (newChannel pick False n cc sc u c)) = cnErr c"
  "cnClosedMark (fst (newChannel pick False n cc sc u c)) = cnClosedMark c"
  "cnWriteQueue (fst (newChannel pick False n cc sc u c)) = cnWriteQueue c"
  "cnWriteCap (fst (newChannel pick False n cc sc u c)) = cnWriteCap c"
  "cnWriteDone (fst (newChannel pick False n cc sc u c)) = cnWriteDone c"
  "cnNotifyClosed (fst (newChannel pick False n cc sc u c)) = cnNotifyClosed c"
  "cnReadDone (fst (newChannel pick False n cc sc u c)) = cnReadDone c"
  "cnReadPending (fst (newChannel pick False n cc sc u c)) = cnReadPending c"
  by (simp_all add: newChannel_def enterChannel_def Let_def split_def)

lemma newChannel_chanAt:
  "a < length (cnChans c) \<Longrightarrow> chanAt (fst (newChannel pick False n cc sc u c)) a = chanAt c a"
  by (simp add: newChannel_def enterChannel_def Let_def split_def chanAt_def nth_append)

section \<open>A channel is made on an idle connection\<close>

lemma listening_newChannel:
  assumes l: "listening check st k a c" and k: "k \<noteq> newId pick c"
  shows "listening check st k a (fst (newChannel pick False n cc sc u c))"
proof -
  let ?c = "fst (newChannel pick False n cc sc u c)"
  note v = newView_D [OF newChannel_view(1) [OF refl [of "idView c"], of pick n cc sc u]]
  have a: "a < length (cnChans c)" using l unfolding listening_def wellAddressed_def by blast
  have at: "chanAt ?c a = chanAt c a" by (rule newChannel_chanAt [OF a])
  have addr: "wellAddressed ?c"
    using l unfolding listening_def wellAddressed_def v(1,2) by (auto simp: less_Suc_eq split: if_splits)
  have "length (chReceivedQueue (chanAt ?c b)) \<le> chQueueCap (chanAt ?c b)" if "b < Suc (length (cnChans c))" for b
  proof (cases "b < length (cnChans c)")
    case True
    then show ?thesis using l newChannel_chanAt [OF True] by (simp add: listening_def)
  next
    case False
    with that have "b = length (cnChans c)" by simp
    then show ?thesis by (simp add: newChannel_def enterChannel_def Let_def split_def chanAt_def nth_append)
  qed
  then show ?thesis using l k at addr by (simp add: listening_def v(1,2))
qed

lemma clientIdle_newChannel:
  assumes i: "clientIdle elems a w" and k: "chId (chanAt (cwConn w) a) \<noteq> newId pick (cwConn w)"
  shows "clientIdle elems a (updConn (\<lambda>c. fst (newChannel pick False n cc sc u c)) w)"
proof -
  have a: "a < length (cnChans (cwConn w))" using i by (simp add: clientIdle_def clientOpen_def)
  note v = newView_D(2) [OF newChannel_view(1) [OF refl [of "idView (cwConn w)"], of pick n cc sc u]]
  show ?thesis
    using i listening_newChannel [OF _ k] newChannel_chanAt [OF a] v
    by (simp add: clientIdle_def clientReady_def clientOpen_def writerIdle_def)
qed

lemma serverIdle_newChannel:
  assumes i: "serverIdle k a c" and k: "k \<noteq> newId pick c"
  shows "serverIdle k a (fst (newChannel pick False n cc sc u c))"
proof -
  have a: "a < length (cnChans c)" using i by (simp add: serverIdle_def answerable_def)
  note v = newView_D(2) [OF newChannel_view(1) [OF refl [of "idView c"], of pick n cc sc u]]
  show ?thesis
    using i listening_newChannel [OF _ k] newChannel_chanAt [OF a] v
    by (simp add: serverIdle_def answerable_def writerIdle_def)
qed

text \<open>The channel just made is idle, when the connection is.\<close>

lemma newChannel_fresh:
  assumes "c' = fst (newChannel pick False n cc sc u c)" "a = length (cnChans c)"
  shows "chErr (chanAt c' a) = None" "\<not> chLoopDone (chanAt c' a)" "chWhole (chanAt c' a) = None"
    "chReceivedQueue (chanAt c' a) = []" "chQueueCap (chanAt c' a) = n" "chUcrq (chanAt c' a) = u"
    "chPacketStatus (chanAt c' a) = 255" "chId (chanAt c' a) = newId pick c" "a < length (cnChans c')"
    "\<not> chClosedMark (chanAt c' a)"
  using assms
  by (simp_all add: newId_def newChannel_def enterChannel_def Let_def split_def chanAt_def nth_append)

lemma listening_fresh:
  assumes l: "listening check st k a c" and n: "0 < n" "check 255 st' = None"
  shows "listening check st' (newId pick c) (length (cnChans c)) (fst (newChannel pick False n cc sc u c))"
proof -
  let ?c = "fst (newChannel pick False n cc sc u c)"
  note v = newView_D(1,2) [OF newChannel_view(1) [OF refl [of "idView c"], of pick n cc sc u]]
  note f = newChannel_fresh [where pick = pick and n = n and cc = cc and sc = sc and u = u and c = c, OF refl refl]
  have addr: "wellAddressed ?c"
    using l unfolding listening_def wellAddressed_def v by (auto simp: less_Suc_eq split: if_splits)
  have "length (chReceivedQueue (chanAt ?c b)) \<le> chQueueCap (chanAt ?c b)" if "b < Suc (length (cnChans c))" for b
    using that l f newChannel_chanAt [of b c pick n cc sc u] by (cases "b < length (cnChans c)")
      (simp_all add: listening_def less_Suc_eq)
  then show ?thesis using l n f addr by (simp add: listening_def v)
qed

lemma clientIdle_fresh:
  assumes i: "clientIdle elems a w" and u: "elems q = []" "0 < n"
  shows "clientIdle elems (length (cnChans (cwConn w)))
    (updConn (\<lambda>c. fst (newChannel pick False n cc sc (Some q) c)) w)"
proof -
  note f = newChannel_fresh [where pick = pick and n = n and cc = cc and sc = sc and u = "Some q" and c = "cwConn w", OF refl refl]
  have l: "listening CheckServerPacketStatus StatusS5 (newId pick (cwConn w)) (length (cnChans (cwConn w)))
      (fst (newChannel pick False n cc sc (Some q) (cwConn w)))"
    by (rule listening_fresh [OF clientIdle_D(9) [OF i] u(2)]) (simp add: server_status_defs)
  show ?thesis
    using clientIdle_D [OF i] u f l
    by (simp add: clientIdle_def clientReady_def clientOpen_def writerIdle_def)
qed

lemma serverIdle_fresh:
  assumes i: "serverIdle k a c" and n: "0 < n"
  shows "serverIdle (newId pick c) (length (cnChans c)) (fst (newChannel pick False n cc sc u c))"
proof -
  note f = newChannel_fresh [where pick = pick and n = n and cc = cc and sc = sc and u = u and c = c, OF refl refl]
  have l: "listening CheckClientPacketStatus StatusC1 (newId pick c) (length (cnChans c))
      (fst (newChannel pick False n cc sc u c))"
    using i by (intro listening_fresh [OF _ n]) (auto simp: serverIdle_def client_status_defs)
  show ?thesis
    using i f l by (simp add: serverIdle_def answerable_def writerIdle_def)
qed

section \<open>The server makes a channel\<close>

lemma NewChannel_response_small: "length (ResponseNewChannel 0 '''' k) \<le> 50"
proof -
  have "unat k < 2 ^ 32" using unsigned_less [of k] by (simp del: unsigned_less)
  then have "unat k < 10 ^ 10" by simp
  with length_showNat [of 10] have "length (showNat (unat k)) \<le> 10" by simp
  then show ?thesis
    by (simp add: ResponseNewChannel_def codeMessage_def jsonString_def jsonChar_def showInt_def showNat.simps [of 0])
qed

lemma NewChannel_carriable: "carriable PathNewChannel (ResponseNewChannel 0 '''' k)"
  using NewChannel_response_small [of k] responses_nonempty
  by (simp add: carriable_def PathNewChannel_def)

text \<open>The connection once the queue of the channel is empty and a channel was made.\<close>

definition withNewChannel :: "nat \<Rightarrow> nat \<Rightarrow> 'q conn \<Rightarrow> 'q conn" where
  "withNewChannel pick a c = fst (newChannel pick False 100 [] [] None (drained a c))"

text \<open>What the loops of the channels depend on.\<close>

definition loopsView where
  "loopsView c = (readView c, map (\<lambda>ch. (chErr ch, chLoopDone ch, chWhole ch)) (cnChans c))"

lemma loopsView_D:
  assumes "loopsView c' = loopsView c"
  shows "readView c' = readView c" "length (cnChans c') = length (cnChans c)"
    "b < length (cnChans c) \<Longrightarrow> chErr (chanAt c' b) = chErr (chanAt c b) \<and>
       chLoopDone (chanAt c' b) = chLoopDone (chanAt c b) \<and> chWhole (chanAt c' b) = chWhole (chanAt c b)"
proof -
  let ?f = "\<lambda>ch. (chErr ch, chLoopDone ch, chWhole ch)"
  show v: "readView c' = readView c" and len: "length (cnChans c') = length (cnChans c)"
    using assms readView_D(6) [of c' c] by (simp_all add: loopsView_def)
  have m: "map ?f (cnChans c') = map ?f (cnChans c)" using assms by (simp add: loopsView_def)
  assume "b < length (cnChans c)"
  with arg_cong [OF m, of "\<lambda>l. l ! b"] len
  show "chErr (chanAt c' b) = chErr (chanAt c b) \<and>
       chLoopDone (chanAt c' b) = chLoopDone (chanAt c b) \<and> chWhole (chanAt c' b) = chWhole (chanAt c b)"
    by (simp add: chanAt_def)
qed

lemma loopsView_steady:
  assumes "\<And>b. steady b c' = steady b c" "map chWhole (cnChans c') = map chWhole (cnChans c)"
  shows "loopsView c' = loopsView c"
proof -
  have len: "length (cnChans c') = length (cnChans c)" and v: "readView c' = readView c"
    using assms(1) [of 0] by (simp_all add: steady_def)
  have "map (\<lambda>ch. (chErr ch, chLoopDone ch, chWhole ch)) (cnChans c') =
      map (\<lambda>ch. (chErr ch, chLoopDone ch, chWhole ch)) (cnChans c)"
  proof (rule nth_equalityI)
    fix b
    assume "b < length (map (\<lambda>ch. (chErr ch, chLoopDone ch, chWhole ch)) (cnChans c'))"
    then have b: "b < length (cnChans c)" using len by simp
    then show "map (\<lambda>ch. (chErr ch, chLoopDone ch, chWhole ch)) (cnChans c') ! b =
        map (\<lambda>ch. (chErr ch, chLoopDone ch, chWhole ch)) (cnChans c) ! b"
      using assms(1) [of b] chWhole_list [OF assms(2) b] len by (simp add: steady_def chanAt_def)
  qed (simp add: len)
  with v show ?thesis by (simp add: loopsView_def)
qed

lemma round_new_channel:
  assumes ok: "answerable a c" and nd: "\<not> chLoopDone (chanAt c a)" and wh: "chWhole (chanAt c a) = None"
    and q: "chReceivedQueue (chanAt c a) = [pkt]" and st: "pktStatus pkt = StatusC1"
    and path: "pktPath pkt = PathNewChannel" "pktChannel pkt = Some a" "pktParams pkt = None"
      "parse PathNewChannel = Inr (PathNewChannel, params)"
  shows "\<exists>c'. handleServerLoop parse run pick dur alone a Received (c, m) = (c', m) \<and> answerable a c' \<and>
    cnWriteDone c' = cnWriteDone c \<and> cnNotifyClosed c' = cnNotifyClosed c \<and> cnErr c' = cnErr c \<and>
    cnReadDone c' = cnReadDone c \<and> cnReadPending c' = cnReadPending c \<and> idView c' = newView pick c \<and>
    cnWriteCap c' = cnWriteCap c \<and> loopsView c' = loopsView (withNewChannel pick a c) \<and>
    cnWriteQueue c' = cnWriteQueue c @ (if length (cnWriteQueue c) < cnWriteCap c
      then [responsePacket a PathNewChannel (pktChannelId pkt) (ResponseNewChannel 0 '''' (newId pick c))] else [])"
proof -
  let ?c0 = "updChan a (\<lambda>ch. ch\<lparr>chReceivedQueue := []\<rparr>) c" and ?w = "parsePath parse pkt"
  let ?d = "ResponseNewChannel 0 '''' (newId pick c)"
  have a: "a < length (cnChans c)" using ok by (simp add: answerable_def)
  have v0: "idView ?c0 = idView c" by (rule idView_updChan) simp
  define c1 where "c1 = fst (newChannel pick False 100 [] [] None ?c0)"
  note new = newChannel_view [OF v0, of pick 100 "[]" "[]" None, folded c1_def]
  have w: "pktPath ?w = PathNewChannel" "pktStatus ?w = StatusC1" "pktChannelId ?w = pktChannelId pkt"
    using path st by (simp_all add: parsePath_def)
  have "newChannel pick False 100 [] [] None ?c0 = (c1, length (cnChans c))"
    using new(2) by (simp add: c1_def prod_eq_iff)
  then have h: "serverHandle parse run pick m pkt True ?c0 = (c1, m, ?w, ?d, None)"
    using path w(1) new(3) by (simp add: serverHandle_def PathNewChannel_def)
  have comp: "isClientStatusCompleted StatusC1" "StatusC1 \<noteq> Status8" by (simp_all add: client_status_defs)
  define c2 where "c2 = updOwner (Server_AddMeasure PathNewChannel 1 dur) c1"
  have ch1: "chanAt c1 a = chanAt ?c0 a" using newChannel_chanAt [of a ?c0] a by (simp add: c1_def)
  have s2: "\<And>e. steady e c2 = steady e c1" "cnWriteQueue c2 = cnWriteQueue c" "cnWriteCap c2 = cnWriteCap c"
    by (simp_all add: c2_def) (simp_all add: updOwner_def c1_def)
  have ok1: "answerable a c1" using ok a ch1 by (simp add: answerable_def c1_def)
      (simp add: newChannel_def enterChannel_def Let_def split_def)
  then have ok2: "answerable a c2" using answerable_steady [OF s2(1)] by simp
  have ne: "?d \<noteq> []" using NewChannel_carriable [of "newId pick c"] by (simp add: carriable_def)
  have small: "length ?d \<le> unat MaxPacketSize" using NewChannel_carriable [of "newId pick c"] by (simp add: carriable_def)
  from SendPacket_response [of c2 a ?d a PathNewChannel "pktChannelId pkt"] ok2 small
  obtain c3 where c3: "SendPacket alone a ((responsePacket a PathNewChannel (pktChannelId pkt) ?d)\<lparr>pktStatus := 0\<rparr>) c2 = (c3, None)"
    "\<And>e. steady e c3 = steady e c2" "map chWhole (cnChans c3) = map chWhole (cnChans c2)" "cnWriteQueue c3 = cnWriteQueue c2 @
      (if length (cnWriteQueue c2) < cnWriteCap c2 then [responsePacket a PathNewChannel (pktChannelId pkt) ?d] else [])"
    by (auto simp: answerable_def)
  define c4 where "c4 = addCounts a PathNewChannel cntWholeReceived (updChan a (\<lambda>ch. ch\<lparr>chWhole := None\<rparr>) c3)"
  have wh0: "chWhole (chanAt ?c0 a) = None" using wh a by simp
  have "serverReceive parse run pick dur alone a pkt (?c0, m) = (c4, m)"
    using h w wh0 st comp(1) ne c3(1)
    by (simp add: serverReceive_def mergePacket_def Let_def serverError_def serverRespond_eq c2_def [symmetric] c4_def)
  then have run: "handleServerLoop parse run pick dur alone a Received (c, m) = (c4, m)"
    using handleServerLoop_Received [OF nd q, of parse run pick dur alone m] st comp(2) by simp
  have s4: "steady e c4 = steady e c1" for e using c3(2) s2(1) by (simp add: c4_def steady_updChan)
  have "chWhole (chanAt c1 a) = None" "a < length (cnChans c1)" using ch1 wh0 ok1 by (simp_all add: answerable_def)
  then have same: "(map chWhole (cnChans c1))[a := None] = map chWhole (cnChans c1)"
    by (simp add: list_update_same_conv chanAt_def)
  have "a < length (cnChans c3)" using c3(2) [of a] ok2 by (simp add: steady_def answerable_def)
  then have "map chWhole (cnChans c4) = (map chWhole (cnChans c3))[a := None]"
    by (simp add: c4_def addCounts_def updOwner_def updChan_def map_update nth_list_update map_update_same)
  also have "\<dots> = map chWhole (cnChans c1)" unfolding c3(3) using same by (simp add: c2_def updOwner_def)
  finally have "loopsView c4 = loopsView c1" by (rule loopsView_steady [OF s4])
  then have lv: "loopsView c4 = loopsView (withNewChannel pick a c)" by (simp add: c1_def withNewChannel_def)
  have "answerable a c4" using answerable_steady [OF s4] ok1 by simp
  moreover have "idView c4 = newView pick c" using s4 new(1) by (simp add: steady_def)
  moreover have "cnWriteDone c4 = cnWriteDone c" "cnNotifyClosed c4 = cnNotifyClosed c" "cnErr c4 = cnErr c"
    "cnReadDone c4 = cnReadDone c" "cnReadPending c4 = cnReadPending c" "cnWriteCap c4 = cnWriteCap c"
    using s4 by (simp_all add: steady_def c1_def)
  moreover have "cnWriteQueue c4 = cnWriteQueue c3" by (simp add: c4_def)
  ultimately show ?thesis using run c3(4) s2(2,3) lv by (intro exI [of _ c4]) simp
qed

lemma loopsView_core:
  assumes "coreView c' = coreView c" "readView c' = readView c"
  shows "loopsView c' = loopsView c"
proof -
  have m: "map (\<lambda>ch. (chErr ch, chUcrq ch, chWhole ch, chLoopDone ch, chCtx ch)) (cnChans c') =
      map (\<lambda>ch. (chErr ch, chUcrq ch, chWhole ch, chLoopDone ch, chCtx ch)) (cnChans c)"
    using assms(1) by (simp add: coreView_def)
  from arg_cong [OF m, of "map (\<lambda>(e, u, w, l, x). (e, l, w))"] assms(2)
  show ?thesis by (simp add: loopsView_def comp_def)
qed

lemma serverIdle_loops:
  assumes i: "serverIdle k a c" and v: "loopsView c' = loopsView c" and r: "cnRole c' = cnRole c" "writerIdle c'"
  shows "serverIdle k a c'"
proof -
  note d = loopsView_D [OF v]
  have a: "a < length (cnChans c)" using i by (simp add: serverIdle_def answerable_def)
  have "listening CheckClientPacketStatus StatusC1 k a c'"
    using i by (intro listening_cong [OF d(1)]) (simp add: serverIdle_def)
  then show ?thesis
    using i r d(2) d(3) [OF a] readView_D(3) [OF d(1)] readView_D(9) [OF d(1) a]
    by (simp add: serverIdle_def answerable_def)
qed

lemma server_new_half:
  assumes idle: "serverIdle (pktChannelId p) sa s"
    and p: "sendable p" "pktStatus p = StatusC1" "pktPath p = PathNewChannel"
    and parse: "parse PathNewChannel = Inr (PathNewChannel, params)"
  shows "\<exists>s1 s2 s3. (serverReadLoop ^^ 2) (s, encode p) = (s1, []) \<and>
    handleServerLoop parse srun pick dur alone sa Received (s1, m) = (s2, m) \<and>
    writeLoop False fullWriter s2 = s3 \<and>
    cnOut s3 = cnOut s2 @ encode (responsePacket sa PathNewChannel (pktChannelId p)
      (ResponseNewChannel 0 '''' (newId pick s))) \<and>
    answerable sa s3 \<and> readerIdle s3 \<and> idView s3 = newView pick s \<and>
    serverIdle (newId pick s) (length (cnChans s)) s3 \<and>
    (pktChannelId p \<noteq> newId pick s \<longrightarrow> serverIdle (pktChannelId p) sa s3)"
proof -
  from server_reads [OF idle p(1,2)] obtain s1 where
    s1: "(serverReadLoop ^^ 2) (s, encode p) = (s1, [])" "answerable sa s1"
      "\<not> chLoopDone (chanAt s1 sa)" "chWhole (chanAt s1 sa) = None"
      "chReceivedQueue (chanAt s1 sa) = [received sa p]" "writerIdle s1" "readerIdle s1"
      "idView s1 = idView s" "readView s1 = readView (arrived sa p s)"
      "length (cnChans s1) = length (cnChans s)" by blast
  have rec: "pktStatus (received sa p) = StatusC1" "pktPath (received sa p) = PathNewChannel"
    "pktChannel (received sa p) = Some sa" "pktParams (received sa p) = None"
    "pktChannelId (received sa p) = pktChannelId p"
    using p(2,3) by (simp_all add: received_def wireView_def)
  have new: "newView pick s1 = newView pick s" "newId pick s1 = newId pick s"
    using newChannel_view [OF s1(8), of pick 0 "[]" "[]" None]
      newChannel_view [OF refl [of "idView s1"], of pick 0 "[]" "[]" None] idView_D(5) [OF s1(8)]
    by simp_all
  from round_new_channel [OF s1(2-5) rec(1-4), of parse params srun pick dur m] parse obtain s2 where
    s2: "handleServerLoop parse srun pick dur alone sa Received (s1, m) = (s2, m)" "answerable sa s2"
      "cnWriteDone s2 = cnWriteDone s1" "cnNotifyClosed s2 = cnNotifyClosed s1" "cnErr s2 = cnErr s1"
      "cnReadDone s2 = cnReadDone s1" "cnReadPending s2 = cnReadPending s1" "idView s2 = newView pick s"
      "cnWriteQueue s2 = cnWriteQueue s1 @ (if length (cnWriteQueue s1) < cnWriteCap s1
        then [responsePacket sa PathNewChannel (pktChannelId p) (ResponseNewChannel 0 '''' (newId pick s))] else [])"
      "cnWriteCap s2 = cnWriteCap s1" "loopsView s2 = loopsView (withNewChannel pick sa s1)"
    unfolding new rec(5) by blast
  have "readerIdle s2" "\<not> cnWriteDone s2" "\<not> cnNotifyClosed s2"
    "cnWriteQueue s2 = [responsePacket sa PathNewChannel (pktChannelId p) (ResponseNewChannel 0 '''' (newId pick s))]"
    using s2 s1(6,7) by (simp_all add: readerIdle_def writerIdle_def answerable_def)
  from server_writes [OF s2(2) this(2,3,1,4) NewChannel_carriable] obtain s3 where
    s3: "writeLoop False fullWriter s2 = s3" "cnWriteQueue s3 = []" "answerable sa s3" "readerIdle s3"
      "cnOut s3 = cnOut s2 @ encode (responsePacket sa PathNewChannel (pktChannelId p)
         (ResponseNewChannel 0 '''' (newId pick s)))"
      "idView s3 = idView s2" "coreView s3 = coreView s2" "readView s3 = readView s2" "\<not> cnWriteDone s3" by blast
  let ?d = "drained sa s1"
  have sa: "sa < length (cnChans s1)" using s1(2) by (simp add: answerable_def)
  have "listening CheckClientPacketStatus StatusC1 (pktChannelId p) sa ?d"
  proof (rule listening_again [OF _ _ s1(9) refl])
    show "listening CheckClientPacketStatus StatusC1 (pktChannelId p) sa s" using idle by (simp add: serverIdle_def)
    show "CheckClientPacketStatus (pktStatus p) StatusC1 = None" by (simp add: p(2) client_status_defs)
  qed
  then have i0: "serverIdle (pktChannelId p) sa ?d"
    using s1(2-6) sa by (simp add: serverIdle_def answerable_def writerIdle_def)
  have v0: "idView ?d = idView s" using s1(8) by (simp add: idView_updChan)
  have id: "newId pick ?d = newId pick s" "length (cnChans ?d) = length (cnChans s)"
    using newChannel_view(3) [OF v0, of pick 0 "[]" "[]" None] idView_D(5) [OF v0]
      newChannel_view(3) [OF refl [of "idView ?d"], of pick 0 "[]" "[]" None] s1(10) by simp_all
  have v: "loopsView s3 = loopsView (withNewChannel pick sa s1)"
    using loopsView_core [OF s3(7,8)] s2(11) by (rule trans)
  have r: "cnRole s3 = cnRole (withNewChannel pick sa s1)"
    using s3(3) s1(2) by (simp add: answerable_def withNewChannel_def)
  have w: "writerIdle s3" using s3(2,9) coreView_D(4,5) [OF s3(7)] s2(4,10) s1(6) by (simp add: writerIdle_def)
  have "serverIdle (newId pick s) (length (cnChans s)) s3"
    using serverIdle_loops [OF serverIdle_fresh [OF i0, of 100 pick "[]" "[]" None] _ _ w] v r
    by (simp add: id withNewChannel_def s1(10))
  moreover have "serverIdle (pktChannelId p) sa s3" if "pktChannelId p \<noteq> newId pick s"
    using serverIdle_loops [OF serverIdle_newChannel [OF i0, of pick 100 "[]" "[]" None] _ _ w] v r that
    by (simp add: id withNewChannel_def s1(10))
  ultimately show ?thesis using s1(1) s2(1,8) s3(1,3-6)
    by - (rule exI [of _ s1], rule exI [of _ s2], rule exI [of _ s3], simp)
qed

section \<open>The client asks and makes its channel\<close>

text \<open>
  \<open>Client.newChannel\<close> up to its request: the context of the system channel at address \<open>a\<close> is set and
  the request object made.
\<close>

definition newChannelBegin :: "nat \<Rightarrow> 'q clientWorld \<Rightarrow> 'q clientWorld \<times> nat" where
  "newChannelBegin a w =
     (updConn (\<lambda>c. ClientChannel_SetCtx a CtxClient (Some CvClient)
                     (ClientChannel_SetCtx a CtxUncompletedRequestChan (Some CvQueue) c))
        (w\<lparr>cwRequests := cwRequests w @ [newChannelRequest]\<rparr>), length (cwRequests w))"

text \<open>
  The whole creation, the server included: the request is exchanged on channel 0, which both sides
  have at the addresses \<open>ca\<close> and \<open>sa\<close>, then the client decodes the response and makes its channel.
  The last component is the address of the new channel or the error; \<open>None\<close> when no response came.
\<close>

definition newChannelExchange where
  "newChannelExchange parse ops unmarshal srun crun pick spick cpick ucrq config sdur cdur ca sa w s m cm =
     (let (w0, r) = newChannelBegin ca w in
      case exchange parse ops srun crun pick spick sdur cdur ca sa PathNewChannel r w0 s m cm of
        (w1, s1, m1, cm1, Some (w2, resp)) \<Rightarrow>
          (let (c, res) = Client_finishNewChannel unmarshal cpick ucrq config resp (cwConn w2)
           in (w2\<lparr>cwConn := c\<rparr>, s1, m1, cm1, Some res))
      | (w1, s1, m1, cm1, None) \<Rightarrow> (w1, s1, m1, cm1, None))"

lemma newChannelBegin_idle:
  assumes "clientIdle elems a w" "newChannelBegin a w = (w0, r)"
  shows "clientIdle elems a w0" "idView (cwConn w0) = idView (cwConn w)" "cwNotify w0 = cwNotify w"
    "r < length (cwRequests w0)" "reqData (cwRequests w0 ! r) = bytesOf ''{}''"
    "chId (chanAt (cwConn w0) a) = chId (chanAt (cwConn w) a)" "length (cnChans (cwConn w0)) = length (cnChans (cwConn w))"
    "map reqData (cwRequests w0) = map reqData (cwRequests w) @ [bytesOf ''{}'']"
proof -
  let ?f = "\<lambda>ch::'a channel. ch\<lparr>chCtx := SetCtxData (SetCtxData (chCtx ch) CtxUncompletedRequestChan (Some CvQueue))
      CtxClient (Some CvClient)\<rparr>"
  have a: "a < length (cnChans (cwConn w))" using assms(1) by (simp add: clientIdle_def clientOpen_def)
  have c: "cwConn w0 = updChan a ?f (cwConn w)"
    using assms(2) a by (auto simp: newChannelBegin_def ClientChannel_SetCtx_def updChan_def)
  have v: "readView (cwConn w0) = readView (cwConn w)"
    unfolding c readView_def idView_def by (simp add: updChan_def map_update_same)
  have w0: "cwNotify w0 = cwNotify w" "cwRequests w0 = cwRequests w @ [newChannelRequest]" "r = length (cwRequests w)"
    using assms(2) by (auto simp: newChannelBegin_def)
  have id: "chId (chanAt (cwConn w0) a) = chId (chanAt (cwConn w) a)" using a by (simp add: c)
  show "idView (cwConn w0) = idView (cwConn w)" using readView_D(8) [OF v] .
  show "cwNotify w0 = cwNotify w" "r < length (cwRequests w0)" "reqData (cwRequests w0 ! r) = bytesOf ''{}''"
    "length (cnChans (cwConn w0)) = length (cnChans (cwConn w))"
    "chId (chanAt (cwConn w0) a) = chId (chanAt (cwConn w) a)"
    "map reqData (cwRequests w0) = map reqData (cwRequests w) @ [bytesOf ''{}'']"
    using w0 id c by (simp_all add: newChannelRequest_def NewDefaultRequest_def)
  show "clientIdle elems a w0"
    unfolding clientIdle_def id using assms(1) listening_cong [OF v] a
    by (auto simp: clientIdle_def clientReady_def clientOpen_def writerIdle_def c w0(1))
qed

text \<open>The view after the exchange, on both sides.\<close>

lemma newChannel_exchange:
  assumes client: "clientIdle elems ca w" "fifoOps ops elems" "pickOk pick (cwNotify w)"
    and server: "serverIdle (chId (chanAt (cwConn w) ca)) sa s"
    and parse: "parse PathNewChannel = Inr (PathNewChannel, params)"
    and dec: "unmarshal (ResponseNewChannel 0 '''' (newId spick s)) = Inr (0, '''', newId spick s)"
    and id: "newId spick s \<noteq> 0"
  shows "\<exists>w' s' m' cm'.
    newChannelExchange parse ops unmarshal srun crun pick spick cpick ucrq config sdur cdur ca sa w s m cm =
      (w', s', m', cm', Some (Inr (length (cnChans (cwConn w))))) \<and>
    m' = m \<and> idView (cwConn w') = newView cpick (cwConn w) \<and> \<not> cnClosedMark (cwConn w') \<and>
    idView s' = newView spick s \<and> answerable sa s' \<and> readerIdle s' \<and>
    serverIdle (newId spick s) (length (cnChans s)) s' \<and>
    (chId (chanAt (cwConn w) ca) \<noteq> newId spick s \<longrightarrow> serverIdle (chId (chanAt (cwConn w) ca)) sa s') \<and>
    (elems ucrq = [] \<and> 0 < ccChannelPacketQueueLen config \<longrightarrow>
       clientIdle elems (length (cnChans (cwConn w))) w') \<and>
    (chId (chanAt (cwConn w) ca) \<noteq> newId cpick (cwConn w) \<longrightarrow> clientIdle elems ca w' \<and>
       chId (chanAt (cwConn w') ca) = chId (chanAt (cwConn w) ca)) \<and>
    map reqData (cwRequests w') = map reqData (cwRequests w) @ [bytesOf ''{}'']"
proof -
  obtain w0 r where start: "newChannelBegin ca w = (w0, r)" by fastforce
  note b = newChannelBegin_idle [OF client(1) start]
  let ?p = "sentPacket (cwConn w0) ca PathNewChannel (reqData (cwRequests w0 ! r))"
  have valid: "ValidatePath parse PathNewChannel" using parse by (simp add: ValidatePath_def PathNewChannel_def)
  have carr: "carriable PathNewChannel (reqData (cwRequests w0 ! r))"
    by (simp add: b(5) carriable_def PathNewChannel_def bytesOf_def)
  have p: "pktStatus ?p = StatusC1" "pktChannelId ?p = chId (chanAt (cwConn w) ca)" "pktPath ?p = PathNewChannel"
    by (simp_all add: sentPacket_def requestPacket_def b(6))
  have "serverIdle (pktChannelId ?p) sa s" using server by (simp add: p(2))
  from server_new_half [OF this sendable_sent [OF carr] p(1,3), of parse params srun spick sdur m] parse
  obtain s1 s2 s3 where s: "(serverReadLoop ^^ 2) (s, encode ?p) = (s1, [])"
    "handleServerLoop parse srun spick sdur alone sa Received (s1, m) = (s2, m)"
    "writeLoop False fullWriter s2 = s3"
    "cnOut s3 = cnOut s2 @ encode (responsePacket sa PathNewChannel (pktChannelId ?p)
      (ResponseNewChannel 0 '''' (newId spick s)))"
    "answerable sa s3" "readerIdle s3" "idView s3 = newView spick s"
    "serverIdle (newId spick s) (length (cnChans s)) s3"
    "pktChannelId ?p \<noteq> newId spick s \<longrightarrow> serverIdle (pktChannelId ?p) sa s3" by blast
  have nd: "PathNewChannel \<noteq> PathDeleteChannel" by (simp add: PathNewChannel_def PathDeleteChannel_def)
  have pk: "pickOk pick (cwNotify w0)" using client(3) b(3) by simp
  from exchange_client [OF b(1) client(2) pk b(4) valid carr refl s(1-4) NewChannel_carriable nd, of crun cdur cm]
  obtain w1 cm1 w2 where e: "exchange parse ops srun crun pick spick sdur cdur ca sa PathNewChannel r w0 s m cm =
      (w1, s3, m, cm1, Some (w2, Inr (ResponseNewChannel 0 '''' (newId spick s))))"
    "cwConn w2 = cwConn w1" "idView (cwConn w1) = idView (cwConn w0)" "clientIdle elems ca w2"
    "map reqData (cwRequests w2) = map reqData (cwRequests w0)"
    by blast
  have v: "idView (cwConn w2) = idView (cwConn w)" using e(2,3) b(2) by simp
  have cid: "chId (chanAt (cwConn w2) ca) = chId (chanAt (cwConn w) ca)"
    by (rule idView_chId [OF v clientIdle_D(1) [OF client(1)]])
  have nid: "newId cpick (cwConn w2) = newId cpick (cwConn w)" "length (cnChans (cwConn w2)) = length (cnChans (cwConn w))"
    using newChannel_view(3) [OF v, of cpick 0 "[]" "[]" None] idView_D(5) [OF v]
      newChannel_view(3) [OF refl [of "idView (cwConn w2)"], of cpick 0 "[]" "[]" None] by simp_all
  let ?cc = "[(CtxUncompletedRequestChan, Some CvQueue), (CtxClient, Some CvClient),
    (CtxClientChannel, Some (CvClientChannel (length (cnChans (cwConn w2)))))]"
  let ?new = "newChannel cpick False (unat (ccChannelPacketQueueLen config)) ?cc [] (Some ucrq) (cwConn w2)"
  note new = newChannel_view [OF v, of cpick "unat (ccChannelPacketQueueLen config)" ?cc "[]" "Some ucrq"]
  have "Client_finishNewChannel unmarshal cpick ucrq config (Inr (ResponseNewChannel 0 '''' (newId spick s))) (cwConn w2) =
      (fst ?new, Inr (length (cnChans (cwConn w))))"
    using dec id new(2) by (simp add: Client_finishNewChannel_def split_def word_gt_0)
  then have run: "newChannelExchange parse ops unmarshal srun crun pick spick cpick ucrq config sdur cdur ca sa w s m cm =
      (w2\<lparr>cwConn := fst ?new\<rparr>, s3, m, cm1, Some (Inr (length (cnChans (cwConn w)))))"
    by (simp add: newChannelExchange_def start e(1))
  let ?w = "w2\<lparr>cwConn := fst ?new\<rparr>"
  have upd: "?w = updConn (\<lambda>c. fst (newChannel cpick False (unat (ccChannelPacketQueueLen config)) ?cc [] (Some ucrq) c)) w2"
    by (simp add: updConn_def)
  have "clientIdle elems (length (cnChans (cwConn w))) ?w" if "elems ucrq = []" "0 < ccChannelPacketQueueLen config"
    unfolding upd nid(2) [symmetric] using that by (intro clientIdle_fresh [OF e(4)]) (simp_all add: unat_gt_0 word_gt_0)
  moreover have "clientIdle elems ca ?w \<and> chId (chanAt (cwConn ?w) ca) = chId (chanAt (cwConn w) ca)"
    if "chId (chanAt (cwConn w) ca) \<noteq> newId cpick (cwConn w)"
    using clientIdle_newChannel [OF e(4), of cpick "unat (ccChannelPacketQueueLen config)" ?cc "[]" "Some ucrq"]
      newChannel_chanAt [OF clientIdle_D(1) [OF e(4)]] that
    by (simp add: upd cid nid(1))
  moreover have "\<not> cnClosedMark (cwConn ?w)" using clientIdle_D(3) [OF e(4)] by simp
  moreover have "map reqData (cwRequests ?w) = map reqData (cwRequests w) @ [bytesOf ''{}'']"
    using e(5) b(5,8) by simp
  ultimately show ?thesis using new(1) run s(5-9) unfolding p(2)
    by - (rule exI [of _ ?w], rule exI [of _ s3], rule exI [of _ m], rule exI [of _ cm1], simp)
qed


section \<open>When the two ids agree\<close>

text \<open>Allocators in step: no id was ever given back on either side, and both counted as many.\<close>

definition inStep :: "'q conn \<Rightarrow> 'p conn \<Rightarrow> bool" where
  "inStep c s \<longleftrightarrow> cnFree c = [] \<and> cnFree s = [] \<and> cnMaxChannelId c = cnMaxChannelId s"

lemma fresh_id:
  assumes "cnFree c = []" "cnMaxChannelId c < 4294967295"
  shows "newId pick c = cnMaxChannelId c + 1" "cnFree (fst (makeNewChannelId pick c)) = []"
    "cnMaxChannelId (fst (makeNewChannelId pick c)) = cnMaxChannelId c + 1"
  using assms by (simp_all add: newId_def makeNewChannelId_def)

lemma succ_unat: "(x :: u32) < 4294967295 \<Longrightarrow> unat (x + 1) = unat x + 1"
  by (simp add: word_less_nat_alt unat_word_ariths)

lemma succ_not_zero: "(x :: u32) < 4294967295 \<Longrightarrow> x + 1 \<noteq> 0"
  using succ_unat [of x] by force

text \<open>Creating a channel, as long as neither side has closed one: the request on the system channel,
  the server's new channel, its answer and the client's new channel give both sides a channel under
  the same id, the next one; the client is given its own. The two allocators are in step again
  and have counted the id, so the next creation has the same guarantee with the next id.\<close>

theorem new_channels_agree:
  assumes client: "clientIdle elems ca w" "fifoOps ops elems" "pickOk pick (cwNotify w)"
    and server: "serverIdle (chId (chanAt (cwConn w) ca)) sa s"
    and parse: "parse PathNewChannel = Inr (PathNewChannel, params)"
    and dec: "\<forall>k. unmarshal (ResponseNewChannel 0 '''' k) = Inr (0, '''', k)"
    and step: "inStep (cwConn w) s" "cnMaxChannelId s < 4294967295"
  shows "\<exists>w' s' m' cm' a b k.
    newChannelExchange parse ops unmarshal srun crun pick spick cpick ucrq config sdur cdur ca sa w s m cm =
      (w', s', m', cm', Some (Inr a)) \<and>
    k = cnMaxChannelId s + 1 \<and> a = length (cnChans (cwConn w)) \<and> b = length (cnChans s) \<and>
    getChannel k (cwConn w') = Some a \<and> chId (chanAt (cwConn w') a) = k \<and>
    getChannel k s' = Some b \<and> chId (chanAt s' b) = k \<and> inStep (cwConn w') s' \<and> cnMaxChannelId s' = k"
proof -
  let ?k = "cnMaxChannelId s + 1"
  have f: "cnFree (cwConn w) = []" "cnFree s = []" "cnMaxChannelId (cwConn w) = cnMaxChannelId s"
    using step(1) by (simp_all add: inStep_def)
  have max: "cnMaxChannelId (cwConn w) < 4294967295" using step(2) f(3) by simp
  note cid = fresh_id [OF f(1) max, of cpick] and sid = fresh_id [OF f(2) step(2), of spick]
  have "newId spick s \<noteq> 0" using succ_not_zero [OF step(2)] by (simp add: sid)
  with newChannel_exchange [OF client server, of parse params unmarshal spick] parse dec
  obtain w' s' m' cm' where e:
    "newChannelExchange parse ops unmarshal srun crun pick spick cpick ucrq config sdur cdur ca sa w s m cm =
      (w', s', m', cm', Some (Inr (length (cnChans (cwConn w)))))"
    "idView (cwConn w') = newView cpick (cwConn w)" "idView s' = newView spick s" by blast
  note c = newView_D [OF e(2)] and d = newView_D [OF e(3)]
  have "inStep (cwConn w') s'" using c(4,5) d(4,5) cid sid f(3) by (simp add: inStep_def)
  with e(1) c(1,3) d(1,3,5) cid(1) sid(1,3) f(3) show ?thesis
    by - (rule exI [of _ w'], rule exI [of _ s'], rule exI [of _ m'], rule exI [of _ cm'],
      rule exI [of _ "length (cnChans (cwConn w))"], rule exI [of _ "length (cnChans s)"], rule exI [of _ ?k], simp)
qed

section \<open>When they do not\<close>

text \<open>A packet for a channel the server does not have ends its connection.\<close>

lemma serverReadLoop_unknown:
  assumes "readerIdle s" "sendable p" "getChannel (pktChannelId p) s = None"
  shows "cnClosedMark (fst (serverReadLoop (s, encode p @ t)))"
    "cnErr (fst (serverReadLoop (s, encode p @ t))) =
      Some (TextErr (''invalid channel id: '' @ showNat (unat (pktChannelId p))))"
proof -
  from assms(2) have st: "pktStatus p \<noteq> Status8"
    and path: "length (pktPath p) \<le> 2048" "CHR 0x00 \<notin> set (pktPath p)"
    by (auto simp: sendable_def noNul_def)
  have "encode p @ t = pktStatus p # bytesOf (pktPath p) @ 0 # putUint32 (pktChannelId p) @
      putUint32 (word_of_nat (length (pktData p))) @ pktData p @ t"
    using CreateNetPacket_sendable [OF assms(2)] assms(2)
    by (auto simp: CreateNetPacket_def encode_def sendable_def)
  moreover have "ReadSlice 0 (bytesOf (pktPath p) @ 0 # u) = Inr (bytesOf (pktPath p) @ [0], u)" for u
    using path by (intro ReadSlice_delim) simp_all
  ultimately have "serverReadLoop (s, encode p @ t) =
      failRead (TextErr (''invalid channel id: '' @ showNat (unat (pktChannelId p)))) s
        (putUint32 (word_of_nat (length (pktData p))) @ pktData p @ t)"
    using assms(1,3) st
    by (simp add: serverReadLoop_def readerIdle_def Connection_Closed_def readBody_def wire_simps)
  then show "cnClosedMark (fst (serverReadLoop (s, encode p @ t)))"
    "cnErr (fst (serverReadLoop (s, encode p @ t))) =
      Some (TextErr (''invalid channel id: '' @ showNat (unat (pktChannelId p))))"
    using assms(1) failRead_err [of s] by (simp_all add: readerIdle_def)
qed

text \<open>C14: Creating a channel after the server has closed one and the client has not (the server never
  tells it): the server uses the freed id again, the client ignores it and takes the next of its
  own. The creation succeeds, but the client's channel has an id the server does not know, and
  the first packet sent on it makes the server close the whole connection.\<close>

theorem new_channel_after_server_close:
  assumes client: "clientIdle elems ca w" "fifoOps ops elems" "pickOk pick (cwNotify w)"
    and server: "serverIdle (chId (chanAt (cwConn w) ca)) sa s"
    and parse: "parse PathNewChannel = Inr (PathNewChannel, params)"
    and dec: "\<forall>k. unmarshal (ResponseNewChannel 0 '''' k) = Inr (0, '''', k)"
    and freed: "cnFree s = [k]" "k \<noteq> 0"
    and max: "cnFree (cwConn w) = []" "cnMaxChannelId (cwConn w) < 4294967295"
      "k \<le> cnMaxChannelId (cwConn w)" "getChannel (cnMaxChannelId (cwConn w) + 1) s = None"
    and p: "sendable p" "pktChannelId p = cnMaxChannelId (cwConn w) + 1"
  shows "\<exists>w' s' m' cm' a.
    newChannelExchange parse ops unmarshal srun crun pick spick cpick ucrq config sdur cdur ca sa w s m cm =
      (w', s', m', cm', Some (Inr a)) \<and>
    chId (chanAt (cwConn w') a) = pktChannelId p \<and> getChannel (pktChannelId p) (cwConn w') = Some a \<and>
    getChannel k s' = Some (length (cnChans s)) \<and> getChannel (pktChannelId p) s' = None \<and>
    \<not> cnClosedMark s' \<and> cnClosedMark (fst (serverReadLoop (s', encode p @ rest)))"
proof -
  let ?j = "cnMaxChannelId (cwConn w) + 1"
  note cid = fresh_id [OF max(1,2), of cpick]
  have sid: "newId spick s = k" using freed(1) by (simp add: newId_def makeNewChannelId_def)
  have "newId spick s \<noteq> 0" using sid freed(2) by simp
  with newChannel_exchange [OF client server, of parse params unmarshal spick] parse dec
  obtain w' s' m' cm' where e:
    "newChannelExchange parse ops unmarshal srun crun pick spick cpick ucrq config sdur cdur ca sa w s m cm =
      (w', s', m', cm', Some (Inr (length (cnChans (cwConn w)))))"
    "idView (cwConn w') = newView cpick (cwConn w)" "idView s' = newView spick s" "readerIdle s'" by blast
  note c = newView_D [OF e(2)] and d = newView_D [OF e(3)]
  have "unat k \<le> unat (cnMaxChannelId (cwConn w))" using max(3) by (simp add: word_le_nat_alt)
  with succ_unat [OF max(2)] have "?j \<noteq> k" by force
  then have none: "getChannel (pktChannelId p) s' = None" using d(1) sid max(4) p(2) by simp
  from serverReadLoop_unknown(1) [OF e(4) p(1) none, of rest]
  have closed: "cnClosedMark (fst (serverReadLoop (s', encode p @ rest)))" .
  have "\<not> cnClosedMark s'" using e(4) by (simp add: readerIdle_def)
  with e(1) c(1,3) d(1) cid(1) sid none closed p(2) show ?thesis
    by - (rule exI [of _ w'], rule exI [of _ s'], rule exI [of _ m'], rule exI [of _ cm'],
      rule exI [of _ "length (cnChans (cwConn w))"], simp)
qed


section \<open>Two sides, before and after a channel was closed\<close>

lemma serverIdle_close:
  assumes i: "serverIdle k a c" and b: "b < length (cnChans c)" "chId (chanAt c b) \<noteq> k" "b \<noteq> a"
  shows "serverIdle k a (Channel_Close b err c)"
proof (cases "chClosedMark (chanAt c b)")
  case False
  have get: "getChannel x (Channel_Close b err c) = (if x = chId (chanAt c b) then None else getChannel x c)" for x
    using False b by (simp add: Channel_Close_def closing_defs removeChannel_def getChannel_def Let_def delete_conv')
  have "chanAt (Channel_Close b err c) d = (if d = b then (chanAt c d)\<lparr>chErr := Some (orUnknown err),
      chNotifyClosed := True, chClosedMark := True\<rparr> else chanAt c d)" for d
    using b False by (simp add: Channel_Close_def closing_defs removeChannel_def Let_def chanAt_def updChan_def nth_list_update)
  then show ?thesis
    using i b by (auto simp: serverIdle_def answerable_def writerIdle_def listening_def wellAddressed_def get)
qed (use i in simp)

text \<open>A decoder for the answer, and the two sides: fresh, and with one channel made on both sides,
  which the server has then closed.\<close>

definition decodeNewChannel :: "byte list \<Rightarrow> gerr + int \<times> string \<times> u32" where
  "decodeNewChannel bts =
     Inr (0, '''', word_of_nat (digitsVal 0 (takeWhile isDigit (drop 23 (stringOf bts)))))"

lemma decodeNewChannel_response: "decodeNewChannel (ResponseNewChannel 0 '''' k) = Inr (0, '''', k)"
proof -
  have "takeWhile isDigit (showNat n @ ''}'') = showNat n" for n
    using showNat_digits [of n] by (simp add: takeWhile_append isDigit_def)
  then show ?thesis
    by (simp add: decodeNewChannel_def ResponseNewChannel_def codeMessage_def jsonString_def jsonChar_def
        showInt_def showNat.simps [of 0])
qed

definition openedWorld :: "nat list clientWorld" where
  "openedWorld = updConn (\<lambda>c. fst (newChannel 0 False 100 [] [] (Some []) c)) (waitingWorld [] [])"

definition closedServer :: "nat conn" where
  "closedServer = Channel_Close 1 None (fst (newChannel 0 False 100 [] [] None (freshConn RoleServer)))"

lemma fresh_facts:
  "cnFree (cwConn (waitingWorld [] [])) = []" "cnMaxChannelId (cwConn (waitingWorld [] [])) = 0"
  "length (cnChans (cwConn (waitingWorld [] []))) = 1"
  "cnFree (freshConn RoleServer) = []" "cnMaxChannelId (freshConn RoleServer) = 0"
  "length (cnChans (freshConn RoleServer)) = 1"
proof -
  obtain c :: "nat list conn" where c: "NewConnection True False ownerZero RoleClient 100 [] = Inr c"
    by (simp add: NewConnection_def)
  show "cnFree (cwConn (waitingWorld [] [])) = []" "cnMaxChannelId (cwConn (waitingWorld [] [])) = 0"
    "length (cnChans (cwConn (waitingWorld [] []))) = 1"
    using NewConnection_Inr [OF c] by (simp_all add: waitingWorld_def c)
  show "cnFree (freshConn RoleServer) = []" "cnMaxChannelId (freshConn RoleServer) = 0"
    "length (cnChans (freshConn RoleServer)) = 1"
    using NewConnection_Inr [OF freshConn_New [of RoleServer]] by simp_all
qed

theorem new_channels_agree_witness:
  "\<exists>w' s' m' cm'. newChannelExchange (\<lambda>p. Inr (p, [])) listOps decodeNewChannel
      (\<lambda>(h::unit) p q d b. Panicked) (\<lambda>(h::unit) p r d b. Panicked) None 0 0 [] zeroConfig 0 0 0 0
      (waitingWorld [] []) (freshConn RoleServer) None None = (w', s', m', cm', Some (Inr 1)) \<and>
    getChannel 1 (cwConn w') = Some 1 \<and> getChannel 1 s' = Some 1"
proof -
  have "inStep (cwConn (waitingWorld [] [])) (freshConn RoleServer)" "cnMaxChannelId (freshConn RoleServer) < 4294967295"
    by (simp_all add: inStep_def fresh_facts)
  with new_channels_agree [of "\<lambda>q. q" 0 "waitingWorld [] []" listOps None 0 "freshConn RoleServer"
      "\<lambda>p. Inr (p, [])" "[]" decodeNewChannel "\<lambda>(h::unit) p q d b. Panicked"
      "\<lambda>(h::unit) p r d b. Panicked" 0 0 "[]" zeroConfig 0 0 None None]
  show ?thesis
    using waiting_clientIdle fresh_serverIdle fifo_listOps decodeNewChannel_response fresh_facts
    by (auto simp: pickOk_def)
qed

theorem new_channel_after_server_close_witness:
  "\<exists>w' s' m' cm' a. newChannelExchange (\<lambda>p. Inr (p, [])) listOps decodeNewChannel
      (\<lambda>(h::unit) p q d b. Panicked) (\<lambda>(h::unit) p r d b. Panicked) None 0 0 [] zeroConfig 0 0 0 0
      openedWorld closedServer None None = (w', s', m', cm', Some (Inr a)) \<and>
    chId (chanAt (cwConn w') a) = 2 \<and> getChannel 2 s' = None \<and>
    cnClosedMark (fst (serverReadLoop (s', encode (samplePacket StatusC1 2 7))))"
proof -
  let ?s = "fst (newChannel 0 False 100 [] [] None (freshConn RoleServer))"
  note v = newView_D [OF newChannel_view(1) [OF refl [of "idView (freshConn RoleServer)"], of 0 100 "[]" "[]" None]]
  have id: "newId 0 (freshConn RoleServer) = 1" "newId 0 (cwConn (waitingWorld [] [])) = 1"
    using fresh_id(1) [of "freshConn RoleServer" 0] fresh_id(1) [of "cwConn (waitingWorld [] [])" 0]
      fresh_facts by simp_all
  have "\<not> chClosedMark (chanAt (fst (newChannel 0 False 100 [] [] None c)) (length (cnChans c)))" for c :: "nat conn"
    by (simp add: newChannel_def enterChannel_def Let_def split_def chanAt_def nth_append)
  then have open1: "\<not> chClosedMark (chanAt ?s 1)" using fresh_facts(6) by metis
  have "getChannel 2 (freshConn RoleServer) = None"
    using NewConnection_Inr [OF freshConn_New [of RoleServer]] by (simp add: getChannel_def)
  then have fs: "cnFree ?s = []" "length (cnChans ?s) = 2" "chId (chanAt ?s 1) = 1" "getChannel 2 ?s = None"
    using v fresh_facts fresh_id(2) [of "freshConn RoleServer" 0] by (simp_all add: id)
  have "clientIdle (\<lambda>q. q) 0 openedWorld"
    unfolding openedWorld_def by (rule clientIdle_newChannel) (simp_all add: waiting_clientIdle id)
  moreover have "serverIdle 0 0 ?s" by (rule serverIdle_newChannel [OF fresh_serverIdle]) (simp add: id)
  then have "serverIdle 0 0 closedServer"
    unfolding closedServer_def by (rule serverIdle_close) (use fs open1 in simp_all)
  moreover have "cnFree closedServer = [1]" "getChannel 2 closedServer = None"
    using fs open1 by (simp_all add: closedServer_def Channel_Close_def closing_defs removeChannel_def getChannel_def Let_def delete_conv')
  moreover have "cnFree (cwConn openedWorld) = []" "cnMaxChannelId (cwConn openedWorld) = 1"
    "length (cnChans (cwConn openedWorld)) = 2" "chId (chanAt (cwConn openedWorld) 0) = 0"
    "pickOk None (cwNotify openedWorld)"
    using fresh_facts newChannel_chanAt [of 0 "cwConn (waitingWorld [] [])" 0 100 "[]" "[]" "Some []"]
    by (simp_all add: openedWorld_def waiting_clientIdle(2) pickOk_def)
      (simp_all add: newChannel_def enterChannel_def makeNewChannelId_def Let_def)
  moreover have "sendable (samplePacket StatusC1 2 7)" "pktChannelId (samplePacket StatusC1 2 7) = 2"
    by (simp_all add: sendable_sample client_status_defs) (simp_all add: samplePacket_def)
  ultimately show ?thesis
    using new_channel_after_server_close [of "\<lambda>q. q" 0 openedWorld listOps None 0 closedServer
      "\<lambda>p. Inr (p, [])" "[]" decodeNewChannel 1 "samplePacket StatusC1 2 7" "\<lambda>(h::unit) p q d b. Panicked"
      "\<lambda>(h::unit) p r d b. Panicked" 0 0 "[]" zeroConfig 0 0 None None "[]"]
      fifo_listOps decodeNewChannel_response
    by auto
qed

end
