(* ===== verification/NewChannel.thy ===== *)
theory NewChannel
  imports LbClient Handshake
begin

text \<open>
  \<open>Client.NewChannel\<close> of \<open>client.go\<close>: a connection with room for one more channel, an old one or a new
  one, and a channel on it. The two parts are not under one lock, so several calls may choose the
  same connection before any of them has entered its channel; the limit of channels holds up to
  the number of calls that are under way at once.
\<close>

section \<open>Dialling\<close>

text \<open>
  How a client dials. \<open>loadKeyPair\<close> is the error of \<open>tls.LoadX509KeyPair\<close>; \<open>dialTcp\<close> and \<open>dialTls\<close> are the
  errors of dialling an address with a time limit and, for TLS, with the certificates to show. A
  certificate without a key, or a key without a certificate, is not looked at.
\<close>

definition Client_dialTLS :: "(string \<Rightarrow> string \<Rightarrow> gerr option) \<Rightarrow>
    (i64 \<Rightarrow> string \<Rightarrow> (string \<times> string) list \<Rightarrow> gerr option) \<Rightarrow> i64 \<Rightarrow> ('q, 'h) client \<Rightarrow> gerr option" where
  "Client_dialTLS loadKeyPair dialTls timeout cl =
     (if clTlsCertFile cl \<noteq> '''' \<and> clTlsKeyFile cl \<noteq> '''' then
        (case loadKeyPair (clTlsCertFile cl) (clTlsKeyFile cl) of
           Some err \<Rightarrow> Some err
         | None \<Rightarrow> dialTls timeout (clServerAddr cl) [(clTlsCertFile cl, clTlsKeyFile cl)])
      else dialTls timeout (clServerAddr cl) [])"

definition Client_dial :: "(string \<Rightarrow> string \<Rightarrow> gerr option) \<Rightarrow>
    (i64 \<Rightarrow> string \<Rightarrow> (string \<times> string) list \<Rightarrow> gerr option) \<Rightarrow> (i64 \<Rightarrow> string \<Rightarrow> gerr option) \<Rightarrow>
    ('q, 'h) client \<Rightarrow> gerr option" where
  "Client_dial loadKeyPair dialTls dialTcp cl =
     (let t = ccTcpConnectTimeout (clConfig cl);
          dialTimeout = (if sint t \<le> 0 then seconds 3 else t)
      in if \<not> clIsTls cl then dialTcp dialTimeout (clServerAddr cl)
         else Client_dialTLS loadKeyPair dialTls dialTimeout cl)"

section \<open>The call\<close>

text \<open>\<open>ask\<close> is the request on the system channel. The channel is named by its connection and its address there.\<close>

definition Client_NewChannel ::
    "gerr option \<Rightarrow> ('q conn \<Rightarrow> 'q conn \<times> (gerr + byte list)) \<Rightarrow>
     (byte list \<Rightarrow> gerr + int \<times> string \<times> u32) \<Rightarrow> nat \<Rightarrow> 'q \<Rightarrow> 'q \<Rightarrow> ('q, 'h) client \<Rightarrow>
     ('q, 'h) client \<times> (gerr + nat \<times> nat)" where
  "Client_NewChannel dial ask unmarshal pick q0 q1 cl =
     (case Client_getFreeConnection dial q0 cl of
        (cl1, Inl err) \<Rightarrow> (cl1, Inl err)
      | (cl1, Inr k) \<Rightarrow>
          (case newTaskChannel ask unmarshal pick q1 k cl1 of
             (cl2, Inl err) \<Rightarrow> (cl2, Inl err)
           | (cl2, Inr a) \<Rightarrow> (cl2, Inr (k, a))))"

text \<open>
  Calls under way: the client and, for each call that has its connection, that connection. At most
  \<open>N\<close> at once. The request for the channel leaves the dictionary of channels of its connection as it
  was (\<open>exchange_client\<close>).
  A connection that was closed after it was chosen has no system channel any more, and the code
  panics when it asks on it; the relation lets such a call go on, which only adds states.
\<close>

inductive newChannelStep ::
    "nat \<Rightarrow> ('q, 'h) client \<times> nat list \<Rightarrow> ('q, 'h) client \<times> nat list \<Rightarrow> bool" for N where
  Choose: "length pend < N \<Longrightarrow> Client_getFreeConnection dial q0 cl = (cl1, Inr k) \<Longrightarrow>
    newChannelStep N (cl, pend) (cl1, k # pend)"
| NoConn: "Client_getFreeConnection dial q0 cl = (cl1, Inl err) \<Longrightarrow>
    newChannelStep N (cl, pend) (cl1, pend)"
| Finish: "k \<in> set pend \<Longrightarrow> (\<And>c. idView (fst (ask c)) = idView c) \<Longrightarrow>
    newChannelStep N (cl, pend) (fst (newTaskChannel ask unmarshal pick q1 k cl), remove1 k pend)"
| CloseConn: "a < length (clConns cl) \<Longrightarrow> newChannelStep N (cl, pend) (Client_closeConn a err cl, pend)"

definition newChannelStart :: "int \<Rightarrow> ('q, 'h) client \<times> nat list \<Rightarrow> bool" where
  "newChannelStart limit s \<longleftrightarrow> 0 < limit \<and> limit < 2 ^ 63 - 1 \<and> (\<exists>config addr f. sint (ccMaxChannelsPerConn config) = limit \<and>
     s = (NewClient config addr f, []))"

text \<open>A client whose keys cannot be loaded gets no new connection, and is left as it was.\<close>

lemma keys_not_loaded:
  assumes "clIsTls cl" "clTlsCertFile cl \<noteq> ''''" "clTlsKeyFile cl \<noteq> ''''"
    and "loadKeyPair (clTlsCertFile cl) (clTlsKeyFile cl) = Some err"
    and "\<forall>a \<in> set (connections cl). sint (ccMaxChannelsPerConn (clConfig cl)) \<le> int (length (cnChannels (clConns cl ! a)))"
    and "\<not> Client_limitReached cl"
  shows "Client_NewChannel (Client_dial loadKeyPair dialTls dialTcp cl) ask unmarshal pick q0 q1 cl = (cl, Inl err)"
proof -
  have "Client_dial loadKeyPair dialTls dialTcp cl = Some err"
    using assms(1-4) by (simp add: Client_dial_def Client_dialTLS_def Let_def)
  moreover have "find (\<lambda>a. int (length (cnChannels (clConns cl ! a))) < sint (ccMaxChannelsPerConn (clConfig cl)))
      (connections cl) = None"
    using assms(5) by (auto simp: find_None_iff)
  ultimately show ?thesis
    using assms(6) by (simp add: Client_NewChannel_def Client_getFreeConnection_def Client_newConnection_def)
qed

section \<open>The number of channels\<close>

abbreviation channelsOf :: "('q, 'h) client \<Rightarrow> nat \<Rightarrow> int" where
  "channelsOf cl a \<equiv> int (length (cnChannels (clConns cl ! a)))"

lemma channels_newChannel:
  "length (cnChannels (fst (newChannel pick sys n cc sc u c))) \<le> Suc (length (cnChannels c))"
  using length_update_le
  by (auto simp: newChannel_def enterChannel_def makeNewChannelId_def Let_def split_def)

lemma channels_Channel_Close: "length (cnChannels (Channel_Close a err c)) \<le> length (cnChannels c)"
  using length_delete_le by (auto simp: Channel_Close_def closing_defs removeChannel_def Let_def)

lemma channels_Connection_Close: "length (cnChannels (Connection_Close err c)) \<le> length (cnChannels c)"
proof -
  have "length (cnChannels (fold (\<lambda>(cid, a). Channel_Close a e) xs d)) \<le> length (cnChannels d)"
    for xs :: "(u32 \<times> nat) list" and e and d :: "'a conn"
  proof (induction xs arbitrary: d)
    case (Cons x xs)
    obtain cid a where x: "x = (cid, a)" by (cases x)
    show ?case using Cons [of "Channel_Close a e d"] channels_Channel_Close [of a e d] by (simp add: x)
  qed simp
  from order_trans [OF this] show ?thesis by (simp add: Connection_Close_def closing_defs Let_def)
qed

lemma channels_finish:
  "length (cnChannels (fst (Client_finishNewChannel unmarshal pick u config resp c))) \<le> Suc (length (cnChannels c))"
  using channels_newChannel
  by (auto simp: Client_finishNewChannel_def Let_def split_def le_SucI split: sum.split)

text \<open>The bound: the configured limit and one for each further call that may be under way.\<close>

definition channelsBounded :: "int \<Rightarrow> nat \<Rightarrow> ('q, 'h) client \<times> nat list \<Rightarrow> bool" where
  "channelsBounded limit N = (\<lambda>(cl, pend).
     0 < limit \<and> sliceOk cl \<and> (\<forall>a \<in> set (connections cl). a < length (clConns cl)) \<and>
     (\<forall>a \<in> set pend. a < length (clConns cl)) \<and> length pend \<le> N \<and>
     sint (ccMaxChannelsPerConn (clConfig cl)) = limit + 1 \<and>
     (\<forall>a < length (clConns cl). channelsOf cl a + int (count_list pend a) \<le> limit + max 1 (int N)))"

lemma limit_NewClient:
  assumes "0 < sint (ccMaxChannelsPerConn config)" "sint (ccMaxChannelsPerConn config) < 2 ^ 63 - 1"
  shows "sint (ccMaxChannelsPerConn (clConfig (NewClient config addr f))) = sint (ccMaxChannelsPerConn config) + 1"
proof -
  have "sint (ccMaxChannelsPerConn config + 1) = sint (ccMaxChannelsPerConn config) + 1"
    using assms by (simp add: sint_word_ariths signed_take_bit_int_eq_self)
  then show ?thesis using assms by (simp add: NewClient_def orDefault_def)
qed

lemma bounded_start:
  assumes "newChannelStart limit s"
  shows "channelsBounded limit N s"
proof -
  from assms(1) obtain config addr f where "sint (ccMaxChannelsPerConn config) = limit"
    "s = (NewClient config addr f, [])" "0 < limit" "limit < 2 ^ 63 - 1" by (auto simp: newChannelStart_def)
  with limit_NewClient [of config addr f] show ?thesis
    by (simp add: channelsBounded_def sliceOk_def connections_def) (simp add: NewClient_def)
qed

lemma getFree_cases:
  assumes "Client_getFreeConnection dial q0 cl = (cl1, r)"
  obtains (old) a where "cl1 = cl" "r = Inr a" "a \<in> set (connections cl)"
      "channelsOf cl a < sint (ccMaxChannelsPerConn (clConfig cl))"
  | (fail) err where "cl1 = cl" "r = Inl err"
  | (fresh) c where "r = Inr (length (clConns cl))" "clConns cl1 = clConns cl @ [c]" "length (cnChannels c) = 1"
      "clConfig cl1 = clConfig cl"
      "sliceOk cl \<Longrightarrow> sliceOk cl1 \<and> connections cl1 = connections cl @ [length (clConns cl)]"
proof (cases "find (\<lambda>a. channelsOf cl a < sint (ccMaxChannelsPerConn (clConfig cl))) (connections cl)")
  case (Some a)
  from find_Some_iff [THEN iffD1, OF Some] have "a \<in> set (connections cl)"
    "channelsOf cl a < sint (ccMaxChannelsPerConn (clConfig cl))" by auto
  with old [of a] Some assms show ?thesis by (simp add: Client_getFreeConnection_def)
next
  case None
  show ?thesis
  proof (cases "Client_limitReached cl \<or> dial \<noteq> None")
    case True
    with None assms fail show ?thesis
      by (auto simp: Client_getFreeConnection_def Client_newConnection_def split: option.splits if_splits)
  next
    case False
    obtain c where c: "NewConnection True False (clOwner cl) RoleClient
        (unat (ccTcpWriteQueueLen (clConfig cl))) q0 = Inr c"
      by (simp add: NewConnection_def)
    let ?c = "c\<lparr>cnCtx := SetCtxData (cnCtx c) CtxClient (Some CvClient)\<rparr>"
    let ?cl = "appendConn (length (clConns cl)) (cl\<lparr>clConns := clConns cl @ [?c]\<rparr>)"
    have "cl1 = ?cl\<lparr>clConnCount := clConnCount ?cl + 1\<rparr>" "r = Inr (length (clConns cl))"
      using None False assms c
      by (auto simp: Client_getFreeConnection_def Client_newConnection_def Client_enterConnection_def Let_def)
    moreover have "sliceOk ?cl \<and> connections ?cl = connections cl @ [length (clConns cl)]" if "sliceOk cl"
    proof -
      have "sliceOk (cl\<lparr>clConns := clConns cl @ [?c]\<rparr>)" "connections (cl\<lparr>clConns := clConns cl @ [?c]\<rparr>) = connections cl"
        using that by (simp_all add: sliceOk_def connections_def)
      then show ?thesis using appendConn_simps by metis
    qed
    moreover have "length (cnChannels ?c) = 1" using NewConnection_Inr [OF c] by simp
    ultimately show ?thesis using fresh [of ?c] by (simp add: sliceOk_def connections_def)
  qed
qed

lemma bounded_choose:
  assumes b: "channelsBounded limit N (cl, pend)" and n: "length pend < N"
    and f: "Client_getFreeConnection dial q0 cl = (cl1, Inr k)"
  shows "channelsBounded limit N (cl1, k # pend)"
  using f
proof (cases rule: getFree_cases)
  case (old a)
  have "int (count_list pend a) < int N" using n count_le_length [of pend a] by simp
  with old b n show ?thesis by (auto simp: channelsBounded_def)
next
  case (fresh c)
  have none: "count_list pend (length (clConns cl)) = 0"
    using b by (auto simp: channelsBounded_def count_list_0_iff)
  show ?thesis using fresh b n none by (auto simp: channelsBounded_def nth_append less_Suc_eq)
qed simp

lemma bounded_noConn:
  assumes b: "channelsBounded limit N (cl, pend)"
    and f: "Client_getFreeConnection dial q0 cl = (cl1, Inl err)"
  shows "channelsBounded limit N (cl1, pend)"
  using f by (cases rule: getFree_cases) (use b in simp_all)

lemma bounded_finish:
  assumes b: "channelsBounded limit N (cl, pend)" and k: "k \<in> set pend"
    and ask: "\<And>c. idView (fst (ask c)) = idView c"
  shows "channelsBounded limit N (fst (newTaskChannel ask unmarshal pick q1 k cl), remove1 k pend)"
proof -
  let ?c = "(clConns cl ! k)\<lparr>cnOwner := clOwner cl\<rparr>"
  obtain c1 resp where a: "ask ?c = (c1, resp)" by fastforce
  obtain c2 r where f: "Client_finishNewChannel unmarshal pick q1 (clConfig cl) resp c1 = (c2, r)" by fastforce
  have k': "k < length (clConns cl)" using b k by (auto simp: channelsBounded_def)
  have "cnChannels c1 = cnChannels (clConns cl ! k)"
    using ask [of ?c] a by (simp add: idView_def)
  then have c2: "length (cnChannels c2) \<le> Suc (length (cnChannels (clConns cl ! k)))"
    using channels_finish [of unmarshal pick q1 "clConfig cl" resp c1] f by simp
  have e: "fst (newTaskChannel ask unmarshal pick q1 k cl) = onConn k (\<lambda>_. c2) cl"
    by (simp add: newTaskChannel_def a f)
  have cnt: "count_list (remove1 k pend) a = (if a = k then count_list pend a - 1 else count_list pend a)" for a
    by (induction pend) auto
  have pos: "0 < count_list pend k" using k count_list_0_iff [of pend k] by (cases "count_list pend k") auto
  have "channelsOf (onConn k (\<lambda>_. c2) cl) a + int (count_list (remove1 k pend) a) \<le> limit + max 1 (int N)"
    if "a < length (clConns cl)" for a
  proof -
    have "channelsOf cl a + int (count_list pend a) \<le> limit + max 1 (int N)"
      using b that by (simp add: channelsBounded_def)
    then show ?thesis using that c2 pos by (auto simp: clConns_onConn cnt)
  qed
  moreover have "length (remove1 k pend) \<le> N" using b length_remove1 [of k pend] by (auto simp: channelsBounded_def)
  moreover have "set (remove1 k pend) \<subseteq> set pend" by (rule set_remove1_subset)
  ultimately show ?thesis using b by (auto simp: channelsBounded_def e)
qed

lemma bounded_close:
  assumes b: "channelsBounded limit N (cl, pend)" and a: "a < length (clConns cl)"
  shows "channelsBounded limit N (Client_closeConn a err cl, pend)"
proof -
  have s: "sliceOk cl" using b by (simp add: channelsBounded_def)
  note d = dropConnection_simps [OF s, of a]
  have sub: "set (remove1 a (connections cl)) \<subseteq> set (connections cl)" by (rule set_remove1_subset)
  have drop: "channelsBounded limit N (Client_dropConnection a cl, pend)"
    using b d sub by (auto simp: channelsBounded_def)
  have on: "channelsBounded limit N (onConn a (Connection_Close err) cl', pend)"
    if c: "channelsBounded limit N (cl', pend)" for cl' :: "('a, 'b) client"
  proof -
    have "channelsOf (onConn a (Connection_Close err) cl') x \<le> channelsOf cl' x" if "x < length (clConns cl')" for x
      using that channels_Connection_Close [of err "(clConns cl' ! a)\<lparr>cnOwner := clOwner cl'\<rparr>"]
      by (cases "a = x") (simp_all add: clConns_onConn)
    with c show ?thesis by (force simp: channelsBounded_def)
  qed
  show ?thesis using on [OF drop] on [OF b] b by (simp add: Client_closeConn_def)
qed

interpretation new_channels: invariant_of "newChannelStart limit" "newChannelStep N" "channelsBounded limit N"
proof
  fix s t :: "('q, 'h) client \<times> nat list"
  show "newChannelStart limit s \<Longrightarrow> channelsBounded limit N s" by (rule bounded_start)
  assume "channelsBounded limit N s" "newChannelStep N s t"
  then show "channelsBounded limit N t"
    by (auto elim!: newChannelStep.cases intro: bounded_choose bounded_noConn bounded_finish bounded_close)
qed

section \<open>Properties\<close>

text \<open>C31: The limit of channels: a client made with a limit of \<open>limit\<close> channels for a connection never
  has more on any connection, the system channel not counted, as long as its calls of
  \<open>NewChannel\<close> come one after the other, whatever fails and whatever is closed in between; with at
  most \<open>N\<close> calls at a time it has at most \<open>N - 1\<close> more.\<close>

theorem client_channels_bounded:
  assumes "reach (newChannelStart limit) (newChannelStep N) (cl, pend)" "a < length (clConns cl)" "0 < N"
  shows "int (length (cnChannels (clConns cl ! a))) \<le> 1 + limit + (int N - 1)"
proof -
  have "int (length (cnChannels (clConns cl ! a))) + int (count_list pend a) \<le> limit + max 1 (int N)"
    using new_channels.reach_inv [OF assms(1)] assms(2) by (simp add: channelsBounded_def)
  then show ?thesis using assms(3) by linarith
qed

text \<open>Two calls at a time, on a client with a limit of one channel.\<close>

definition oneChannelConfig :: clientConfig where
  "oneChannelConfig = zeroConfig\<lparr>ccMaxChannelsPerConn := 1\<rparr>"

definition answerOne :: "byte list \<Rightarrow> gerr + int \<times> string \<times> u32" where
  "answerOne bts = Inr (0, '''', 1)"

definition racing :: "nat \<Rightarrow> (nat, nat) client" where
  "racing n = ((\<lambda>cl. fst (newTaskChannel (\<lambda>c. (c, Inr [])) answerOne 0 0 0 cl)) ^^ n)
     (fst (Client_getFreeConnection None 0 (NewClient oneChannelConfig '''' None)))"

lemma racing_0: "Client_getFreeConnection None 0 (NewClient oneChannelConfig '''' None) = (racing 0, Inr 0)"
  by (simp add: racing_def Client_getFreeConnection_def connections_def Client_newConnection_def NewClient_def
      Client_limitReached_def orDefault_def oneChannelConfig_def zeroConfig_def Client_enterConnection_def
      NewConnection_def Let_def)

lemma racing_again: "Client_getFreeConnection None 0 (racing 0) = (racing 0, Inr 0)"
  by (simp add: racing_def Client_getFreeConnection_def connections_def Client_newConnection_def NewClient_def
      Client_limitReached_def orDefault_def oneChannelConfig_def zeroConfig_def Client_enterConnection_def
      NewConnection_def appendConn_def newChannel_def enterChannel_def Let_def)

lemma racing_2:
  "racing 2 = fst (newTaskChannel (\<lambda>c. (c, Inr [])) answerOne 0 0 0
     (fst (newTaskChannel (\<lambda>c. (c, Inr [])) answerOne 0 0 0 (racing 0))))"
  by (simp add: racing_def numeral_2_eq_2)

theorem new_channel_race:
  "reach (newChannelStart 1) (newChannelStep 2) (racing 2, []) \<and>
   length (cnChannels (clConns (racing 2) ! 0)) = 1 + (1 + 1)"
proof
  have s: "newChannelStart 1 (NewClient oneChannelConfig '''' None :: (nat, nat) client, [])"
    unfolding newChannelStart_def
    by (intro conjI exI [of _ oneChannelConfig] exI [of _ "[]"] exI [of _ None])
      (simp_all add: oneChannelConfig_def zeroConfig_def)
  have "newChannelStep 2 (NewClient oneChannelConfig '''' None, []) (racing 0, [0])"
    by (rule Choose [OF _ racing_0]) simp
  moreover have "newChannelStep 2 (racing 0, [0]) (racing 0, [0, 0])"
    by (rule Choose [OF _ racing_again]) simp
  moreover have f: "newChannelStep 2 (racing n, 0 # ps) (racing (Suc n), ps)" for n ps
    using Finish [of 0 "0 # ps" "\<lambda>c. (c, Inr [])" 2 "racing n" answerOne 0 0] by (simp add: racing_def)
  have "newChannelStep 2 (racing 0, [0, 0]) (racing 1, [0])" "newChannelStep 2 (racing 1, [0]) (racing 2, [])"
    using f [of 0 "[0]"] f [of 1 "[]"] by (simp_all add: numeral_2_eq_2)
  ultimately show "reach (newChannelStart 1) (newChannelStep 2) (racing 2, [])"
    using reach_start [of "newChannelStart 1", OF s] by (meson reach_step)
  show "length (cnChannels (clConns (racing 2) ! 0)) = 1 + (1 + 1)"
    unfolding racing_2
    by (simp add: racing_def newTaskChannel_def Client_finishNewChannel_def answerOne_def
      Client_getFreeConnection_def connections_def Client_newConnection_def NewClient_def
      Client_limitReached_def orDefault_def oneChannelConfig_def zeroConfig_def Client_enterConnection_def
      NewConnection_def appendConn_def newChannel_def enterChannel_def makeNewChannelId_def onConn_def Let_def)
qed

theorem client_channels_bounded_witness:
  "int (length (cnChannels (clConns (racing 2) ! 0))) \<le> 3"
proof -
  have "length (clConns (racing 0)) = 1"
    by (simp add: racing_def Client_getFreeConnection_def connections_def Client_newConnection_def NewClient_def
      Client_limitReached_def orDefault_def oneChannelConfig_def zeroConfig_def Client_enterConnection_def
      NewConnection_def Let_def)
  then have "0 < length (clConns (racing 2))"
    by (simp add: racing_def numeral_2_eq_2 newTaskChannel_def split_def Let_def)
  then show ?thesis using client_channels_bounded [of 1 2 "racing 2" "[]" 0] new_channel_race by simp
qed

end
