(* ===== verification/Conversation.thy ===== *)
theory Conversation
  imports Handshake
begin

text \<open>
  Many requests on one channel: an exchange leaves both sides as ready as it found them, so a client
  that sends its requests one after the other is answered each time. \<open>conversation\<close> runs the
  exchanges of \<open>EndToEnd\<close> in the order of the requests.
\<close>

section \<open>Requests one after the other\<close>

text \<open>
  \<open>pool\<close> is the choice the pool of notify channels makes; the durations and the choice of an id, which
  no request of an application asks for, are the same in all exchanges. A caller that is not
  answered blocks, and the requests after its own are not sent.
\<close>

fun conversation where
  "conversation parse ops srun crun pool spick sdur cdur ca sa [] (w, s, m, cm) = ((w, s, m, cm), [])"
| "conversation parse ops srun crun pool spick sdur cdur ca sa ((path, r) # reqs) (w, s, m, cm) =
     (case exchange parse ops srun crun (pool (cwNotify w)) spick sdur cdur ca sa path r w s m cm of
        (w1, s1, m1, cm1, None) \<Rightarrow> ((w1, s1, m1, cm1), [None])
      | (w1, s1, m1, cm1, Some (w2, resp)) \<Rightarrow>
          (let (st, resps) = conversation parse ops srun crun pool spick sdur cdur ca sa reqs (w2, s1, m1, cm1)
           in (st, Some resp # resps)))"

text \<open>A request within the limits for a path of the application, with the answer of its handler.\<close>

definition answered ::
    "(string \<Rightarrow> gerr + string \<times> url_values) \<Rightarrow> 'h serverRun \<Rightarrow> 'h handlers \<Rightarrow> byte list list \<Rightarrow>
     string \<times> nat \<Rightarrow> byte list \<Rightarrow> bool" where
  "answered parse srun m datas = (\<lambda>(path, r) d.
     r < length datas \<and> carriable path (datas ! r) \<and>
     (case parse path of
        Inl e \<Rightarrow> False
      | Inr (upath, params) \<Rightarrow> isUserPath upath \<and> carriable upath d \<and>
          answer srun m upath params (datas ! r) True = Some d))"

lemma answered_map: "ensureMap m' = ensureMap m \<Longrightarrow> answered parse srun m' = answered parse srun m"
  using answer_map [of m' m srun] by (simp add: answered_def fun_eq_iff split: sum.split)

lemma exchange_answered:
  assumes client: "clientIdle elems ca w" "fifoOps ops elems" "pickOk pick (cwNotify w)"
    and server: "serverIdle (chId (chanAt (cwConn w) ca)) sa s"
    and ans: "answered parse srun m (map reqData (cwRequests w)) (path, r) d"
  shows "\<exists>w' s' m' cm' w''.
    exchange parse ops srun crun pick spick sdur cdur ca sa path r w s m cm =
      (w', s', m', cm', Some (w'', Inr d)) \<and>
    clientIdle elems ca w'' \<and> serverIdle (chId (chanAt (cwConn w'') ca)) sa s' \<and>
    chId (chanAt (cwConn w'') ca) = chId (chanAt (cwConn w) ca) \<and>
    map reqData (cwRequests w'') = map reqData (cwRequests w) \<and> ensureMap m' = ensureMap m \<and>
    idView (cwConn w'') = idView (cwConn w) \<and> idView s' = idView s"
proof -
  have r: "r < length (cwRequests w)" using ans by (simp add: answered_def)
  from ans r obtain upath params where q: "parse path = Inr (upath, params)"
    "carriable path (reqData (cwRequests w ! r))" "isUserPath upath"
    "answer srun m upath params (reqData (cwRequests w ! r)) True = Some d" "carriable upath d"
    by (auto simp: answered_def split: sum.splits)
  show ?thesis
    by (rule exchange_idle [where parse = parse and path = path and upath = upath and params = params,
          OF client server r q])
qed

text \<open>C2: End to end: on an idle channel that both sides have open under the same id, every request of a
  list, sent one after the other, whose path parses and whose path and data are within the limits,
  comes back to its caller with exactly the answer of the server's handler to the parsed path,
  the parsed parameters and the data sent, in the order of the requests and however many there
  are: \<open>DoRequest\<close>, the write loops, the read loops and the packet loops of both sides hand each
  answer to the caller that waits for it, no byte is left over, the channel is idle again on both
  sides at the end, and neither side has opened or closed a channel.\<close>

theorem conversation_answered:
  assumes client: "clientIdle elems ca w" "fifoOps ops elems" "\<forall>ns. pickOk (pool ns) ns"
    and server: "serverIdle (chId (chanAt (cwConn w) ca)) sa s"
    and ans: "list_all2 (answered parse srun m (map reqData (cwRequests w))) reqs ds"
  shows "\<exists>w' s' m' cm'.
    conversation parse ops srun crun pool spick sdur cdur ca sa reqs (w, s, m, cm) =
      ((w', s', m', cm'), map (\<lambda>d. Some (Inr d)) ds) \<and>
    clientIdle elems ca w' \<and> serverIdle (chId (chanAt (cwConn w') ca)) sa s' \<and>
    map reqData (cwRequests w') = map reqData (cwRequests w) \<and> ensureMap m' = ensureMap m \<and>
    idView (cwConn w') = idView (cwConn w) \<and> idView s' = idView s"
  using ans client(1) server
proof (induction reqs arbitrary: ds w s m cm)
  case (Cons q reqs)
  obtain path r where q: "q = (path, r)" by (cases q)
  from Cons.prems(1) obtain d ds' where ds: "ds = d # ds'"
    and d: "answered parse srun m (map reqData (cwRequests w)) (path, r) d"
    and more: "list_all2 (answered parse srun m (map reqData (cwRequests w))) reqs ds'"
    by (auto simp: list_all2_Cons1 q)
  have pick: "pickOk (pool (cwNotify w)) (cwNotify w)" using client(3) by blast
  from exchange_answered [OF Cons.prems(2) client(2) pick Cons.prems(3) d, of crun spick sdur cdur cm]
  obtain w1 s1 m1 cm1 w2 where e:
    "exchange parse ops srun crun (pool (cwNotify w)) spick sdur cdur ca sa path r w s m cm =
      (w1, s1, m1, cm1, Some (w2, Inr d))"
    "clientIdle elems ca w2" "serverIdle (chId (chanAt (cwConn w2) ca)) sa s1"
    "map reqData (cwRequests w2) = map reqData (cwRequests w)" "ensureMap m1 = ensureMap m"
    "idView (cwConn w2) = idView (cwConn w)" "idView s1 = idView s" by blast
  have "list_all2 (answered parse srun m1 (map reqData (cwRequests w2))) reqs ds'"
    using more by (simp only: e(4) answered_map [OF e(5)])
  from Cons.IH [OF this e(2,3), of cm1] obtain w' s' m' cm' where
    "conversation parse ops srun crun pool spick sdur cdur ca sa reqs (w2, s1, m1, cm1) =
      ((w', s', m', cm'), map (\<lambda>d. Some (Inr d)) ds')"
    "clientIdle elems ca w'" "serverIdle (chId (chanAt (cwConn w') ca)) sa s'"
    "map reqData (cwRequests w') = map reqData (cwRequests w2)" "ensureMap m' = ensureMap m1"
    "idView (cwConn w') = idView (cwConn w2)" "idView s' = idView s1" by blast
  with e(1,4-7) show ?case by (simp add: q ds)
qed simp


section \<open>A channel for a conversation\<close>

lemma answered_more:
  "answered parse srun m datas q d \<Longrightarrow> answered parse srun m (datas @ ds) q d"
  by (auto simp: answered_def nth_append split: sum.splits)

text \<open>C3: A whole session: as long as neither side has closed a channel, a client that asks for a channel
  on the system channel gets one that the server has under the same id, and every request it then
  sends on it is answered, as in a conversation. The system channel is idle after the exchange that
  opens the new one, and the allocators of both sides are in step, after that exchange and after
  the conversation.\<close>

theorem session_answered:
  assumes client: "clientIdle elems ca w" "fifoOps ops elems" "\<forall>ns. pickOk (pool ns) ns"
    and server: "serverIdle (chId (chanAt (cwConn w) ca)) sa s"
    and parse: "parse PathNewChannel = Inr (PathNewChannel, params)"
    and dec: "\<forall>k. unmarshal (ResponseNewChannel 0 '''' k) = Inr (0, '''', k)"
    and step: "inStep (cwConn w) s" "cnMaxChannelId s < 4294967295"
      "chId (chanAt (cwConn w) ca) \<le> cnMaxChannelId s"
    and config: "elems ucrq = []" "0 < ccChannelPacketQueueLen config"
    and ans: "list_all2 (answered parse srun m (map reqData (cwRequests w))) reqs ds"
  shows "\<exists>w1 s1 cm1 a b w' s' m' cm'.
    newChannelExchange parse ops unmarshal srun crun (pool (cwNotify w)) spick cpick ucrq config sdur cdur
      ca sa w s m cm = (w1, s1, m, cm1, Some (Inr a)) \<and>
    clientIdle elems ca w1 \<and> serverIdle (chId (chanAt (cwConn w1) ca)) sa s1 \<and> inStep (cwConn w1) s1 \<and>
    conversation parse ops srun crun pool spick sdur cdur a b reqs (w1, s1, m, cm1) =
      ((w', s', m', cm'), map (\<lambda>d. Some (Inr d)) ds) \<and>
    clientIdle elems a w' \<and> serverIdle (chId (chanAt (cwConn w') a)) b s' \<and> inStep (cwConn w') s' \<and>
    a \<noteq> ca \<and> b \<noteq> sa"
proof -
  have f: "cnFree (cwConn w) = []" "cnFree s = []" "cnMaxChannelId (cwConn w) = cnMaxChannelId s"
    using step(1) by (simp_all add: inStep_def)
  have max: "cnMaxChannelId (cwConn w) < 4294967295" using step(2) f(3) by simp
  note cid = fresh_id [OF f(1) max, of cpick] and sid = fresh_id [OF f(2) step(2), of spick]
  have "newId spick s \<noteq> 0" using succ_not_zero [OF step(2)] by (simp add: sid)
  moreover have pick: "pickOk (pool (cwNotify w)) (cwNotify w)" using client(3) by blast
  moreover have old: "chId (chanAt (cwConn w) ca) \<noteq> newId spick s" "newId cpick (cwConn w) = newId spick s"
    using step(2,3) f(3) succ_unat [OF step(2)] by (auto simp: cid sid word_le_nat_alt)
  ultimately obtain w1 s1 cm1 where e:
    "newChannelExchange parse ops unmarshal srun crun (pool (cwNotify w)) spick cpick ucrq config sdur cdur
      ca sa w s m cm = (w1, s1, m, cm1, Some (Inr (length (cnChans (cwConn w)))))"
    "idView (cwConn w1) = newView cpick (cwConn w)" "idView s1 = newView spick s"
    "serverIdle (newId spick s) (length (cnChans s)) s1"
    "serverIdle (chId (chanAt (cwConn w) ca)) sa s1" "clientIdle elems (length (cnChans (cwConn w))) w1"
    "clientIdle elems ca w1" "chId (chanAt (cwConn w1) ca) = chId (chanAt (cwConn w) ca)"
    "map reqData (cwRequests w1) = map reqData (cwRequests w) @ [bytesOf ''{}'']"
    using newChannel_exchange [where parse = parse and params = params and unmarshal = unmarshal and
        spick = spick and srun = srun and crun = crun and cpick = cpick and ucrq = ucrq and config = config and
        sdur = sdur and cdur = cdur and m = m and cm = cm, OF client(1,2) pick server parse] dec config by auto
  note c = newView_D [OF e(2)] and d = newView_D [OF e(3)]
  have k: "chId (chanAt (cwConn w1) (length (cnChans (cwConn w)))) = newId spick s" using c(3) old(2) by simp
  have "inStep (cwConn w1) s1" using c(4,5) d(4,5) cid sid f(3) by (simp add: inStep_def)
  moreover have "length (cnChans (cwConn w)) \<noteq> ca" "length (cnChans s) \<noteq> sa"
    using clientIdle_D(1) [OF client(1)] server by (auto simp: serverIdle_def answerable_def)
  moreover have rest: "list_all2 (answered parse srun m (map reqData (cwRequests w1))) reqs ds"
    unfolding e(9) using ans by (rule list_all2_mono) (rule answered_more)
  moreover have "serverIdle (chId (chanAt (cwConn w1) (length (cnChans (cwConn w))))) (length (cnChans s)) s1"
    using e(4) by (simp only: k)
  from conversation_answered [OF e(6) client(2,3) this rest, of crun spick sdur cdur cm1]
  obtain w' s' m' cm' where
    "conversation parse ops srun crun pool spick sdur cdur (length (cnChans (cwConn w))) (length (cnChans s))
       reqs (w1, s1, m, cm1) = ((w', s', m', cm'), map (\<lambda>d. Some (Inr d)) ds)"
    "clientIdle elems (length (cnChans (cwConn w))) w'"
    "serverIdle (chId (chanAt (cwConn w') (length (cnChans (cwConn w))))) (length (cnChans s)) s'"
    and ids: "idView (cwConn w') = idView (cwConn w1)" "idView s' = idView s1" by blast
  moreover from ids \<open>inStep (cwConn w1) s1\<close> have "inStep (cwConn w') s'"
    by (simp add: inStep_def idView_def)
  ultimately show ?thesis using e(1,5,7,8)
    by - (rule exI [of _ w1], rule exI [of _ s1], rule exI [of _ cm1], rule exI [of _ "length (cnChans (cwConn w))"],
      rule exI [of _ "length (cnChans s)"], rule exI [of _ w'], rule exI [of _ s'], rule exI [of _ m'],
      rule exI [of _ cm'], simp)
qed

section \<open>Two requests on a fresh connection\<close>

text \<open>Channel 0 of a fresh connection whose server echoes what it gets on one path.\<close>

definition echoServer :: "unit serverRun" where
  "echoServer h path params data completed = Returned (data, None)"

lemma echoServer_answered:
  "answered (\<lambda>p. Inr (p, [])) echoServer (Some [(''/echo'', ())]) (map reqData (cwRequests (waitingWorld [] [])))
     (''/echo'', 0) [1]"
proof -
  have "cwRequests (waitingWorld [] []) ! 0 = cwRequests (waitingWorld [] []) ! 0 \<and>
      reqData (cwRequests (waitingWorld [] []) ! 0) = [1]" "0 < length (cwRequests (waitingWorld [] []))"
    by (simp_all add: waitingWorld_def)
  then show ?thesis
    by (simp add: answered_def carriable_def isUserPath_def PathNewChannel_def PathDeleteChannel_def
        answer_def ensureMap_def echoServer_def)
qed

theorem conversation_answered_witness:
  "\<exists>w' s' m' cm'. conversation (\<lambda>p. Inr (p, [])) listOps echoServer (\<lambda>(h::unit) p r d b. Panicked)
      (\<lambda>ns. None) 0 0 0 0 0 [(''/echo'', 0), (''/echo'', 0)]
      (waitingWorld [] [], freshConn RoleServer, Some [(''/echo'', ())], None) =
    ((w', s', m', cm'), [Some (Inr [1]), Some (Inr [1])])"
proof -
  have "serverIdle (chId (chanAt (cwConn (waitingWorld [] [])) 0)) 0 (freshConn RoleServer)"
    unfolding waiting_clientIdle(2) by (rule fresh_serverIdle)
  moreover have "list_all2 (answered (\<lambda>p. Inr (p, [])) echoServer (Some [(''/echo'', ())])
      (map reqData (cwRequests (waitingWorld [] [])))) [(''/echo'', 0), (''/echo'', 0)] [[1], [1]]"
    by (simp only: list_all2_Cons list_all2_Nil echoServer_answered simp_thms)
  moreover have "\<forall>ns. pickOk None ns" by (simp add: pickOk_def)
  ultimately obtain w' s' m' cm' where
    "conversation (\<lambda>p. Inr (p, [])) listOps echoServer (\<lambda>(h::unit) p r d b. Panicked)
      (\<lambda>ns. None) 0 0 0 0 0 [(''/echo'', 0), (''/echo'', 0)]
      (waitingWorld [] [], freshConn RoleServer, Some [(''/echo'', ())], None) =
    ((w', s', m', cm'), map (\<lambda>d. Some (Inr d)) [[1], [1]])"
    using conversation_answered [where pool = "\<lambda>ns. None" and crun = "\<lambda>(h::unit) p r d b. Panicked" and spick = 0
        and sdur = 0 and cdur = 0 and cm = None, OF waiting_clientIdle(1) fifo_listOps] by blast
  then show ?thesis
    by - (rule exI [of _ w'], rule exI [of _ s'], rule exI [of _ m'], rule exI [of _ cm'], simp only: list.map)
qed

theorem session_answered_witness:
  "\<exists>w1 s1 cm1 a b st. newChannelExchange (\<lambda>p. Inr (p, [])) listOps decodeNewChannel echoServer
      (\<lambda>(h::unit) p r d b. Panicked) None 0 0 [] (zeroConfig\<lparr>ccChannelPacketQueueLen := 100\<rparr>) 0 0 0 0
      (waitingWorld [] []) (freshConn RoleServer) (Some [(''/echo'', ())]) None =
        (w1, s1, Some [(''/echo'', ())], cm1, Some (Inr a)) \<and>
    conversation (\<lambda>p. Inr (p, [])) listOps echoServer (\<lambda>(h::unit) p r d b. Panicked)
      (\<lambda>ns. None) 0 0 0 a b [(''/echo'', 0)] (w1, s1, Some [(''/echo'', ())], cm1) =
    (st, [Some (Inr [1])]) \<and> a \<noteq> 0"
proof -
  have idle: "serverIdle (chId (chanAt (cwConn (waitingWorld [] [])) 0)) 0 (freshConn RoleServer)"
    unfolding waiting_clientIdle(2) by (rule fresh_serverIdle)
  have ans: "list_all2 (answered (\<lambda>p. Inr (p, [])) echoServer (Some [(''/echo'', ())])
      (map reqData (cwRequests (waitingWorld [] [])))) [(''/echo'', 0)] [[1]]"
    by (simp only: list_all2_Cons list_all2_Nil echoServer_answered simp_thms)
  have step: "inStep (cwConn (waitingWorld [] [])) (freshConn RoleServer)"
    "cnMaxChannelId (freshConn RoleServer) < 4294967295"
    "chId (chanAt (cwConn (waitingWorld [] [])) 0) \<le> cnMaxChannelId (freshConn RoleServer)"
    by (simp_all add: inStep_def fresh_facts waiting_clientIdle(2))
  have "\<forall>k. decodeNewChannel (ResponseNewChannel 0 '''' k) = Inr (0, '''', k)" "\<forall>ns. pickOk None ns"
    "0 < ccChannelPacketQueueLen (zeroConfig\<lparr>ccChannelPacketQueueLen := 100\<rparr>)"
    by (simp_all add: decodeNewChannel_response pickOk_def)
  from session_answered [where pool = "\<lambda>ns. None" and crun = "\<lambda>(h::unit) p r d b. Panicked" and spick = 0
        and cpick = 0 and sdur = 0 and cdur = 0 and cm = None and ucrq = "[]" and params = "[]",
        OF waiting_clientIdle(1) fifo_listOps this(2) idle refl this(1) step refl this(3) ans]
  obtain w1 s1 cm1 a b w' s' m' cm' where
    "newChannelExchange (\<lambda>p. Inr (p, [])) listOps decodeNewChannel echoServer
      (\<lambda>(h::unit) p r d b. Panicked) None 0 0 [] (zeroConfig\<lparr>ccChannelPacketQueueLen := 100\<rparr>) 0 0 0 0
      (waitingWorld [] []) (freshConn RoleServer) (Some [(''/echo'', ())]) None =
        (w1, s1, Some [(''/echo'', ())], cm1, Some (Inr a))"
    "conversation (\<lambda>p. Inr (p, [])) listOps echoServer (\<lambda>(h::unit) p r d b. Panicked)
      (\<lambda>ns. None) 0 0 0 a b [(''/echo'', 0)] (w1, s1, Some [(''/echo'', ())], cm1) =
    ((w', s', m', cm'), map (\<lambda>d. Some (Inr d)) [[1]])" "a \<noteq> 0" by blast
  then show ?thesis
    by - (rule exI [of _ w1], rule exI [of _ s1], rule exI [of _ cm1], rule exI [of _ a], rule exI [of _ b],
      rule exI [of _ "(w', s', m', cm')"], simp del: conversation.simps)
qed

end
