(* ===== verification/HttpAdapter.thy ===== *)
theory HttpAdapter
  imports LbClient
begin

text \<open>
  The reverse proxy of \<open>httpadapter/http_server.go\<close> and the header argument of \<open>utils.go\<close>: HTTP
  requests are routed to a group of servers by functions and by regular expressions, the header
  travels as an argument of the path. Package regexp is a parameter: \<open>compile\<close>, \<open>findString\<close> and
  \<open>matchString\<close>; \<open>'e\<close> is a compiled expression, \<open>'f\<close> a route function.
\<close>

section \<open>The header as an argument\<close>

text \<open>\<open>base64.URLEncoding\<close>, with padding.\<close>

definition b64Char :: "nat \<Rightarrow> char" where
  "b64Char n = (if n < 26 then char_of (65 + n) else if n < 52 then char_of (71 + n)
     else if n < 62 then char_of (n - 4) else if n = 62 then CHR ''-'' else CHR ''_'')"

fun base64 :: "byte list \<Rightarrow> string" where
  "base64 [] = []"
| "base64 [a] = (let n = unat a * 16 in [b64Char (n div 64), b64Char (n mod 64), CHR ''='', CHR ''=''])"
| "base64 [a, b] = (let n = (unat a * 256 + unat b) * 4
     in [b64Char (n div 4096), b64Char (n div 64 mod 64), b64Char (n mod 64), CHR ''=''])"
| "base64 (a # b # c # bs) = (let n = (unat a * 256 + unat b) * 256 + unat c
     in b64Char (n div 262144) # b64Char (n div 4096 mod 64) # b64Char (n div 64 mod 64)
        # b64Char (n mod 64) # base64 bs)"

definition HttpHeaderToIIPArg :: "(string \<times> string list) list \<Rightarrow> string" where
  "HttpHeaderToIIPArg h = base64 (bytesOf (jsonDict
     (map (\<lambda>(k, vs). (k, jsonArray (map jsonString vs))) h)))"

section \<open>The adapter\<close>

record 'e regExpRoute =
  rrRegExp :: string
  rrExpr :: 'e
  rrAlias :: string

record backendConf =
  bcServerList :: string
  bcKeepConns :: i64
  bcMaxConns :: i64

record ('q, 'h, 'j, 'e, 'f) adapter =
  haAddr :: string
  haTlsCertFile :: string
  haTlsKeyFile :: string
  haTimeout :: i64
  haBackends :: "(string \<times> ('q, 'h, 'j) balancer) list"
  haRoutes :: "(string \<times> 'e regExpRoute list) list"
  haRouteFuncs :: "(string \<times> 'f) list"

definition NewHttpAdapterServer :: "string \<Rightarrow> string \<Rightarrow> string \<Rightarrow> i64 \<Rightarrow> ('q, 'h, 'j, 'e, 'f) adapter" where
  "NewHttpAdapterServer listenAddr certFile keyFile timeout =
     \<lparr>haAddr = listenAddr, haTlsCertFile = certFile, haTlsKeyFile = keyFile,
      haTimeout = timeout, haBackends = [], haRoutes = [], haRouteFuncs = []\<rparr>"

definition RegisterBackend :: "string \<Rightarrow> backendConf \<Rightarrow> ('q, 'h, 'j, 'e, 'f) adapter \<Rightarrow>
    ('q, 'h, 'j, 'e, 'f) adapter \<times> gerr option" where
  "RegisterBackend alias config ha =
     (case map_of (haBackends ha) alias of
        Some _ \<Rightarrow> (ha, Some (TextErr (''alias '' @ alias @ '' exists'')))
      | None \<Rightarrow>
          (case NewLoadBalanceClient (bcKeepConns config) (bcMaxConns config) (bcServerList config) of
             Inl err \<Rightarrow> (ha, Some err)
           | Inr lbc \<Rightarrow> (ha\<lparr>haBackends := AList.update alias lbc (haBackends ha)\<rparr>, None)))"

text \<open>The balancer taken out is closed: it is the second result.\<close>

definition Adapter_RemoveBackend :: "string \<Rightarrow> ('q, 'h, 'j, 'e, 'f) adapter \<Rightarrow>
    ('q, 'h, 'j, 'e, 'f) adapter \<times> ('q, 'h, 'j) balancer option" where
  "Adapter_RemoveBackend alias ha =
     (case map_of (haBackends ha) alias of
        None \<Rightarrow> (ha, None)
      | Some lbc \<Rightarrow> (ha\<lparr>haBackends := AList.delete alias (haBackends ha)\<rparr>, Some (CloseAll lbc)))"

definition getBackend :: "string \<Rightarrow> ('q, 'h, 'j, 'e, 'f) adapter \<Rightarrow> ('q, 'h, 'j) balancer option" where
  "getBackend alias ha = map_of (haBackends ha) alias"

definition RegisterRouteFunc :: "string \<Rightarrow> 'f option \<Rightarrow> ('q, 'h, 'j, 'e, 'f) adapter \<Rightarrow>
    ('q, 'h, 'j, 'e, 'f) adapter \<times> gerr option" where
  "RegisterRouteFunc host fn ha =
     (if host = '''' then (ha, Some (TextErr ''empty host''))
      else case fn of
        Some f \<Rightarrow> (ha\<lparr>haRouteFuncs := AList.update host f (haRouteFuncs ha)\<rparr>, None)
      | None \<Rightarrow> (ha\<lparr>haRouteFuncs := AList.delete host (haRouteFuncs ha)\<rparr>, None))"

text \<open>The checks both ways to push a route start with.\<close>

definition checkRoute :: "(string \<Rightarrow> gerr + 'e) \<Rightarrow> string \<Rightarrow> string \<Rightarrow> string \<Rightarrow> gerr + 'e regExpRoute" where
  "checkRoute compile host regExp alias =
     (if host = '''' then Inl (TextErr ''empty host'')
      else if regExp = '''' then Inl (TextErr ''empty regexp'')
      else if alias = '''' then Inl (TextErr ''empty alias'')
      else case compile regExp of
        Inl err \<Rightarrow> Inl err
      | Inr ex \<Rightarrow> Inr \<lparr>rrRegExp = regExp, rrExpr = ex, rrAlias = alias\<rparr>)"

definition routesOf :: "string \<Rightarrow> ('q, 'h, 'j, 'e, 'f) adapter \<Rightarrow> 'e regExpRoute list" where
  "routesOf host ha = (case map_of (haRoutes ha) host of None \<Rightarrow> [] | Some rs \<Rightarrow> rs)"

definition PushRouteTail :: "(string \<Rightarrow> gerr + 'e) \<Rightarrow> string \<Rightarrow> string \<Rightarrow> string \<Rightarrow>
    ('q, 'h, 'j, 'e, 'f) adapter \<Rightarrow> ('q, 'h, 'j, 'e, 'f) adapter \<times> gerr option" where
  "PushRouteTail compile host regExp alias ha =
     (case checkRoute compile host regExp alias of
        Inl err \<Rightarrow> (ha, Some err)
      | Inr r \<Rightarrow> (ha\<lparr>haRoutes := AList.update host (routesOf host ha @ [r]) (haRoutes ha)\<rparr>, None))"

definition PushRouteHead :: "(string \<Rightarrow> gerr + 'e) \<Rightarrow> string \<Rightarrow> string \<Rightarrow> string \<Rightarrow>
    ('q, 'h, 'j, 'e, 'f) adapter \<Rightarrow> ('q, 'h, 'j, 'e, 'f) adapter \<times> gerr option" where
  "PushRouteHead compile host regExp alias ha =
     (case checkRoute compile host regExp alias of
        Inl err \<Rightarrow> (ha, Some err)
      | Inr r \<Rightarrow> (ha\<lparr>haRoutes := AList.update host (r # routesOf host ha) (haRoutes ha)\<rparr>, None))"

text \<open>
  \<open>RemoveRoute\<close>: the loop looks for the route in the slice \<open>hostRoute\<close> it read at the start, whose
  length never changes, while it takes entries out in place; \<open>hosts\<close> is the number of hosts, with
  which the code compares the index. The first list is the array of \<open>hostRoute\<close>, the second what
  the dictionary holds; a loop without end has no value.
\<close>

fun firstMatch :: "('r \<Rightarrow> bool) \<Rightarrow> 'r list \<Rightarrow> nat option" where
  "firstMatch P [] = None"
| "firstMatch P (x # xs) = (if P x then Some 0 else map_option Suc (firstMatch P xs))"

definition takeOut :: "nat \<Rightarrow> nat \<Rightarrow> 'r list \<Rightarrow> 'r list \<times> 'r list" where
  "takeOut hosts i arr =
     (if int i < int hosts - 1
      then (take i arr @ drop (i + 1) arr @ drop (length arr - 1) arr, take i arr @ drop (i + 1) arr)
      else (arr, take i arr))"

partial_function (option) removeRoutes :: "('r \<Rightarrow> bool) \<Rightarrow> nat \<Rightarrow> 'r list \<Rightarrow> 'r list \<Rightarrow> 'r list option" where
  "removeRoutes P hosts arr cur =
     (case firstMatch P arr of
        None \<Rightarrow> Some cur
      | Some i \<Rightarrow> (case takeOut hosts i arr of (arr1, ret) \<Rightarrow> removeRoutes P hosts arr1 ret))"

definition RemoveRoute :: "string \<Rightarrow> string \<Rightarrow> ('q, 'h, 'j, 'e, 'f) adapter \<Rightarrow>
    ('q, 'h, 'j, 'e, 'f) adapter option" where
  "RemoveRoute host regExp ha =
     (case map_of (haRoutes ha) host of
        None \<Rightarrow> Some ha
      | Some rs \<Rightarrow>
          map_option (\<lambda>rs'. ha\<lparr>haRoutes := AList.update host rs' (haRoutes ha)\<rparr>)
            (removeRoutes (\<lambda>r. rrRegExp r = regExp) (length (haRoutes ha)) rs rs))"

section \<open>Routing\<close>

definition findRegExpRoute :: "('e \<Rightarrow> string \<Rightarrow> string) \<Rightarrow> ('e \<Rightarrow> string \<Rightarrow> bool) \<Rightarrow> string \<Rightarrow> string \<Rightarrow>
    ('q, 'h, 'j, 'e, 'f) adapter \<Rightarrow> string" where
  "findRegExpRoute findString matchString host uri ha =
     (case map_of (haRoutes ha) host of
        None \<Rightarrow> ''''
      | Some rs \<Rightarrow>
          (case find (\<lambda>r. findString (rrExpr r) uri = uri) rs of
             Some r \<Rightarrow> rrAlias r
           | None \<Rightarrow>
               (case find (\<lambda>r. matchString (rrExpr r) uri) rs of
                  Some r \<Rightarrow> rrAlias r
                | None \<Rightarrow> '''')))"

definition findFuncRoute :: "('f \<Rightarrow> string \<Rightarrow> string \<Rightarrow> string) \<Rightarrow> string \<Rightarrow> string \<Rightarrow>
    ('q, 'h, 'j, 'e, 'f) adapter \<Rightarrow> string" where
  "findFuncRoute getAlias host uri ha =
     (case map_of (haRouteFuncs ha) host of None \<Rightarrow> '''' | Some fn \<Rightarrow> getAlias fn host uri)"

definition findBackend :: "('e \<Rightarrow> string \<Rightarrow> string) \<Rightarrow> ('e \<Rightarrow> string \<Rightarrow> bool) \<Rightarrow>
    ('f \<Rightarrow> string \<Rightarrow> string \<Rightarrow> string) \<Rightarrow> string \<Rightarrow> string \<Rightarrow> ('q, 'h, 'j, 'e, 'f) adapter \<Rightarrow>
    (string \<times> ('q, 'h, 'j) balancer) option" where
  "findBackend findString matchString getAlias host uri ha =
     (let alias0 = findFuncRoute getAlias host uri ha;
          alias = (if alias0 = '''' then findRegExpRoute findString matchString host uri ha else alias0)
      in if alias \<noteq> '''' then map_option (Pair alias) (getBackend alias ha) else None)"

section \<open>Requests\<close>

record httpRequest =
  hrHost :: string
  hrRequestURI :: string
  hrRawQuery :: string
  hrHeader :: "(string \<times> string list) list"
  hrBody :: "gerr + byte list"

definition withHeaderArg :: "httpRequest \<Rightarrow> string" where
  "withHeaderArg req = hrRequestURI req @
     (if hrRawQuery req \<noteq> '''' then ''&'' else ''?'')
     @ ArgHttpHeader @ ''='' @ HttpHeaderToIIPArg (hrHeader req)"

text \<open>
  \<open>ServeHTTP\<close>: the status code and the body written. \<open>call\<close> is \<open>DoRequest\<close> of a balancer on a
  path with data and a time limit, whole: the balancer afterwards, the response and the error.
\<close>

definition ServeHTTP ::
    "('e \<Rightarrow> string \<Rightarrow> string) \<Rightarrow> ('e \<Rightarrow> string \<Rightarrow> bool) \<Rightarrow> ('f \<Rightarrow> string \<Rightarrow> string \<Rightarrow> string) \<Rightarrow>
     (('q, 'h, 'j) balancer \<Rightarrow> string \<Rightarrow> byte list \<Rightarrow> i64 \<Rightarrow>
        (('q, 'h, 'j) balancer \<times> byte list \<times> gerr option) outcome) \<Rightarrow>
     httpRequest \<Rightarrow> ('q, 'h, 'j, 'e, 'f) adapter \<Rightarrow>
     (('q, 'h, 'j, 'e, 'f) adapter \<times> nat \<times> byte list) outcome" where
  "ServeHTTP findString matchString getAlias call req ha =
     (case findBackend findString matchString getAlias (hd (splitAt (CHR '':'') (hrHost req)))
             (hrRequestURI req) ha of
        None \<Rightarrow> Returned (ha, 501, [])
      | Some (alias, lbc) \<Rightarrow>
          (case hrBody req of
             Inl err \<Rightarrow> Returned (ha, 400, [])
           | Inr bts \<Rightarrow>
               (case call lbc (withHeaderArg req)
                       (reqData (NewDefaultRequest bts :: ctxVal request)) (haTimeout ha) of
                  Panicked \<Rightarrow> Panicked
                | Returned (lbc1, ret, err) \<Rightarrow>
                    (let ha1 = ha\<lparr>haBackends := AList.update alias lbc1 (haBackends ha)\<rparr>
                     in case err of
                          Some _ \<Rightarrow> Returned (ha1, 500, [])
                        | None \<Rightarrow> Returned (ha1, 200, ret)))))"

section \<open>When removing a route ends\<close>

lemma firstMatch_None: "firstMatch P xs = None \<longleftrightarrow> (\<forall>x \<in> set xs. \<not> P x)"
  by (induction xs) auto

lemma firstMatch_Some:
  "firstMatch P arr = Some i \<Longrightarrow>
    \<exists>xs x ys. arr = xs @ x # ys \<and> length xs = i \<and> P x \<and> (\<forall>y \<in> set xs. \<not> P y)"
proof (induction arr arbitrary: i)
  case (Cons y arr)
  show ?case
  proof (cases "P y")
    case True
    then have "y # arr = [] @ y # arr \<and> length [] = i \<and> P y \<and> (\<forall>z \<in> set []. \<not> P z)"
      using Cons.prems by simp
    then show ?thesis by blast
  next
    case False
    with Cons.prems obtain j where "firstMatch P arr = Some j" "i = Suc j" by auto
    with Cons.IH [of j] obtain xs x ys where
      "arr = xs @ x # ys" "length xs = j" "P x" "\<forall>z \<in> set xs. \<not> P z" by blast
    with False \<open>i = Suc j\<close> have "y # arr = (y # xs) @ x # ys \<and> length (y # xs) = i \<and> P x \<and>
      (\<forall>z \<in> set (y # xs). \<not> P z)" by simp
    then show ?thesis by blast
  qed
qed simp

text \<open>
  The loop ends when nothing matches, or when the last route does not match and fewer routes
  than hosts, less one, that do not match precede each one that does.
\<close>

definition routesStop :: "('r \<Rightarrow> bool) \<Rightarrow> nat \<Rightarrow> 'r list \<Rightarrow> bool" where
  "routesStop P hosts arr \<longleftrightarrow> (\<forall>x \<in> set arr. \<not> P x) \<or>
     (\<not> P (last arr) \<and> (\<forall>pre x post. arr = pre @ x # post \<and> P x \<longrightarrow>
        length (filter (\<lambda>y. \<not> P y) pre) + 1 < hosts))"

lemma takeOut_split:
  assumes "length xs + 1 < hosts" "ys \<noteq> []"
  shows "takeOut hosts (length xs) (xs @ x # ys) = (xs @ ys @ [last ys], xs @ ys)"
proof -
  have "drop (length xs + length ys) (xs @ x # ys) = [last ys]"
    using assms(2) by (induction ys arbitrary: xs x rule: rev_induct) auto
  then show ?thesis using assms by (simp add: takeOut_def)
qed

lemma routesStop_removed:
  assumes none: "\<forall>y \<in> set xs. \<not> P y" and x: "P x" and ys: "ys \<noteq> []"
  shows "routesStop P hosts (xs @ x # ys) \<longleftrightarrow>
    length xs + 1 < hosts \<and> \<not> P (last ys) \<and> routesStop P hosts (xs @ ys @ [last ys])"
proof
  have cnt: "filter (\<lambda>y. \<not> P y) xs = xs" using none by (simp add: filter_id_conv)
  assume stop: "routesStop P hosts (xs @ x # ys)"
  then have lst: "\<not> P (last ys)" and
    all: "\<And>pre z post. xs @ x # ys = pre @ z # post \<Longrightarrow> P z \<Longrightarrow> length (filter (\<lambda>y. \<not> P y) pre) + 1 < hosts"
    using x ys by (auto simp: routesStop_def)
  from all [of xs x ys] x cnt have len: "length xs + 1 < hosts" by simp
  have "length (filter (\<lambda>y. \<not> P y) pre) + 1 < hosts"
    if split: "xs @ ys @ [last ys] = pre @ z # post" and z: "P z" for pre z post
  proof -
    have "post \<noteq> []" using split z lst by (metis append_assoc last_snoc)
    then obtain post' l where post: "post = post' @ [l]" by (cases post rule: rev_cases) auto
    with split have eq: "xs @ ys = pre @ z # post'" by simp
    then have "\<not> length pre < length xs"
      using none z by (metis nth_append nth_append_length nth_mem)
    with eq obtain pre' where pre: "pre = xs @ pre'" "ys = pre' @ z # post'"
      by (auto simp: append_eq_append_conv2 append_eq_Cons_conv)
    then have "xs @ x # ys = (xs @ x # pre') @ z # post'" by simp
    from all [OF this z] show ?thesis using pre x by simp
  qed
  then have "routesStop P hosts (xs @ ys @ [last ys])" using lst by (auto simp: routesStop_def)
  with len lst show "length xs + 1 < hosts \<and> \<not> P (last ys) \<and> routesStop P hosts (xs @ ys @ [last ys])"
    by blast
next
  have cnt: "filter (\<lambda>y. \<not> P y) xs = xs" using none by (simp add: filter_id_conv)
  assume r: "length xs + 1 < hosts \<and> \<not> P (last ys) \<and> routesStop P hosts (xs @ ys @ [last ys])"
  have "length (filter (\<lambda>y. \<not> P y) pre) + 1 < hosts"
    if split: "xs @ x # ys = pre @ z # post" and z: "P z" for pre z post
  proof -
    have "\<not> length pre < length xs"
      using none z split by (metis nth_append nth_append_length nth_mem)
    with split consider "pre = xs" | pre' where "pre = xs @ x # pre'" "ys = pre' @ z # post"
      by (auto simp: append_eq_append_conv2 append_eq_Cons_conv Cons_eq_append_conv)
    then show ?thesis
    proof cases
      case 1
      then show ?thesis using r cnt by simp
    next
      case (2 pre')
      then have "z \<in> set (xs @ ys @ [last ys])"
        and "xs @ ys @ [last ys] = (xs @ pre') @ z # (post @ [last ys])" by simp_all
      with r z have "length (filter (\<lambda>y. \<not> P y) (xs @ pre')) + 1 < hosts"
        unfolding routesStop_def by blast
      then show ?thesis using 2 x by simp
    qed
  qed
  then show "routesStop P hosts (xs @ x # ys)" using r ys by (auto simp: routesStop_def)
qed

lemma takeOut_stuck:
  assumes "\<not> (length xs + 1 < hosts \<and> ys \<noteq> [])"
  shows "fst (takeOut hosts (length xs) (xs @ x # ys)) = xs @ x # ys"
  using assms by (cases "ys = []") (auto simp: takeOut_def)

lemma removeRoutes_ends:
  assumes "removeRoutes P hosts arr cur = Some r"
  shows "routesStop P hosts arr"
proof -
  let ?Q = "\<lambda>(((P, hosts), arr), cur) r. routesStop P hosts arr"
  have "?Q (((P, hosts), arr), cur) r"
    using assms
  proof (rule removeRoutes.raw_induct [of ?Q, rotated])
    fix f :: "('a \<Rightarrow> bool) \<Rightarrow> nat \<Rightarrow> 'a list \<Rightarrow> 'a list \<Rightarrow> 'a list option" and P hosts arr cur r
    assume "\<And>P hosts arr cur r. f P hosts arr cur = Some r \<Longrightarrow> ?Q (((P, hosts), arr), cur) r"
      and body: "(case firstMatch P arr of None \<Rightarrow> Some cur
        | Some i \<Rightarrow> (case takeOut hosts i arr of (arr1, ret) \<Rightarrow> f P hosts arr1 ret)) = Some r"
    then have ih: "\<And>arr cur r. f P hosts arr cur = Some r \<Longrightarrow> routesStop P hosts arr" by auto
    have "routesStop P hosts arr"
    proof (cases "firstMatch P arr")
      case None
      then show ?thesis by (simp add: routesStop_def firstMatch_None)
    next
      case (Some i)
      from firstMatch_Some [OF Some] obtain xs x ys where
        arr: "arr = xs @ x # ys" "length xs = i" "P x" "\<forall>y \<in> set xs. \<not> P y" by blast
      from Some body have next_stop: "routesStop P hosts (fst (takeOut hosts i arr))"
        using ih by (auto split: prod.splits)
      show ?thesis
      proof (cases "length xs + 1 < hosts \<and> ys \<noteq> []")
        case True
        then have stop: "routesStop P hosts (xs @ ys @ [last ys])"
          using next_stop takeOut_split [of xs hosts ys x] arr by simp
        then have "\<not> P (last ys)"
          using True by (auto simp: routesStop_def)
        with stop True show ?thesis
          unfolding arr(1) using routesStop_removed [of xs P x ys hosts] arr by simp
      next
        case False
        then show ?thesis using next_stop takeOut_stuck [OF False, of x] arr by simp
      qed
    qed
    then show "?Q (((P, hosts), arr), cur) r" by simp
  qed
  then show ?thesis by simp
qed

lemma removeRoutes_result:
  "routesStop P hosts arr \<Longrightarrow> removeRoutes P hosts arr cur =
    Some (if \<forall>x \<in> set arr. \<not> P x then cur
      else filter (\<lambda>y. \<not> P y) arr @ replicate (length (filter P arr) - 1) (last arr))"
proof (induction "length (filter P arr)" arbitrary: arr cur)
  case 0
  then have none: "\<forall>x \<in> set arr. \<not> P x" by (simp add: filter_empty_conv)
  then show ?case by (subst removeRoutes.simps) (simp add: firstMatch_None [THEN iffD2])
next
  case (Suc k)
  then have "\<exists>x \<in> set arr. P x" by (metis filter_empty_conv list.size(3) nat.distinct(1))
  then obtain i where i: "firstMatch P arr = Some i"
    using firstMatch_None [of P arr] by auto
  from firstMatch_Some [OF this] obtain xs x ys where
    arr: "arr = xs @ x # ys" "length xs = i" "P x" "\<forall>y \<in> set xs. \<not> P y" by blast
  have ys: "ys \<noteq> []"
    using Suc.prems arr by (auto simp: routesStop_def)
  from Suc.prems have r: "length xs + 1 < hosts" "\<not> P (last ys)" "routesStop P hosts (xs @ ys @ [last ys])"
    unfolding arr(1) using routesStop_removed [of xs P x ys hosts] arr ys by auto
  have xs: "filter P xs = []" "filter (\<lambda>y. \<not> P y) xs = xs"
    using arr(4) by (simp_all add: filter_empty_conv filter_id_conv)
  have "k = length (filter P (xs @ ys @ [last ys]))"
    using Suc.hyps(2) arr r(2) xs by simp
  from Suc.hyps(1) [OF this r(3), of "xs @ ys"]
  have "removeRoutes P hosts arr cur = Some (if \<forall>x \<in> set (xs @ ys @ [last ys]). \<not> P x then xs @ ys
      else filter (\<lambda>y. \<not> P y) (xs @ ys @ [last ys]) @
        replicate (length (filter P (xs @ ys @ [last ys])) - 1) (last ys))"
    using i takeOut_split [OF r(1) ys, of x] arr by (subst removeRoutes.simps) simp
  also have "\<dots> = Some (filter (\<lambda>y. \<not> P y) arr @ replicate (length (filter P arr) - 1) (last arr))"
  proof (cases "\<forall>y \<in> set ys. \<not> P y")
    case True
    then have "\<forall>y \<in> set (xs @ ys @ [last ys]). \<not> P y" using arr(4) ys by auto
    moreover from True have "filter (\<lambda>y. \<not> P y) ys = ys" "filter P ys = []"
      by (simp_all add: filter_id_conv filter_empty_conv)
    ultimately show ?thesis using arr xs by simp
  next
    case False
    then have "filter P ys \<noteq> []" by (simp add: filter_empty_conv)
    then obtain m where "length (filter P ys) = Suc m" by (cases "filter P ys") auto
    with False show ?thesis using arr xs ys r(2) by auto
  qed
  finally show ?case using arr by auto
qed

text \<open>C32: What \<open>RemoveRoute\<close> does on a host that has routes: the loop ends exactly when no route
  matches, or the last route does not and every matching route is preceded by fewer other routes
  than there are hosts, less one; then all matching routes are gone, but when there were several
  the last route is left once more for each of them after the first. In all other cases, with a
  single host for example, the call never returns and keeps its lock.\<close>

theorem RemoveRoute_returns_iff:
  assumes "map_of (haRoutes ha) host = Some rs"
  shows "RemoveRoute host regExp ha =
      (let P = \<lambda>r. rrRegExp r = regExp in
       if routesStop P (length (haRoutes ha)) rs
       then Some (ha\<lparr>haRoutes := AList.update host
         (filter (\<lambda>r. \<not> P r) rs @ replicate (length (filter P rs) - 1) (last rs)) (haRoutes ha)\<rparr>)
       else None) \<and>
    (length (haRoutes ha) = 1 \<and> (\<exists>r \<in> set rs. rrRegExp r = regExp) \<longrightarrow>
       RemoveRoute host regExp ha = None)"
proof -
  let ?P = "\<lambda>r. rrRegExp r = regExp" and ?n = "length (haRoutes ha)"
  have res: "removeRoutes ?P ?n rs rs = (if routesStop ?P ?n rs
      then Some (filter (\<lambda>r. \<not> ?P r) rs @ replicate (length (filter ?P rs) - 1) (last rs)) else None)"
  proof (cases "routesStop ?P ?n rs")
    case True
    then show ?thesis
      using removeRoutes_result [OF True, of rs] by (auto simp: filter_id_conv filter_empty_conv)
  next
    case False
    then show ?thesis using removeRoutes_ends [of ?P ?n rs rs] by (cases "removeRoutes ?P ?n rs rs") auto
  qed
  have "\<not> routesStop ?P ?n rs" if one: "?n = 1" and ex: "\<exists>r \<in> set rs. ?P r"
  proof
    assume "routesStop ?P ?n rs"
    moreover obtain pre r post where "rs = pre @ r # post" "?P r" using ex by (metis split_list)
    ultimately show False using one unfolding routesStop_def by fastforce
  qed
  then have single: "removeRoutes ?P ?n rs rs = None" if "?n = 1" "\<exists>r \<in> set rs. ?P r"
    using that res by simp
  have eq: "RemoveRoute host regExp ha =
      map_option (\<lambda>rs'. ha\<lparr>haRoutes := AList.update host rs' (haRoutes ha)\<rparr>) (removeRoutes ?P ?n rs rs)"
    using assms by (simp add: RemoveRoute_def)
  show ?thesis
  proof
    show "length (haRoutes ha) = 1 \<and> (\<exists>r \<in> set rs. rrRegExp r = regExp) \<longrightarrow> RemoveRoute host regExp ha = None"
    proof
      assume "length (haRoutes ha) = 1 \<and> (\<exists>r \<in> set rs. rrRegExp r = regExp)"
      then have "removeRoutes ?P ?n rs rs = None" by (elim conjE) (rule single)
      then show "RemoveRoute host regExp ha = None" unfolding eq by (simp only: option.map)
    qed
  qed (simp add: eq res Let_def)
qed

definition oneRoute :: "(nat, nat, unit, string, unit) adapter" where
  "oneRoute = fst (PushRouteTail Inr ''localhost'' ''^/echo'' ''echo_server''
     (NewHttpAdapterServer '':9092'' '''' '''' 1000000000))"

theorem RemoveRoute_returns_iff_witness:
  "RemoveRoute ''localhost'' ''^/echo'' oneRoute = None \<and>
   (\<exists>ha. RemoveRoute ''localhost'' ''^/http'' oneRoute = Some ha)"
proof -
  have r: "haRoutes oneRoute = [(''localhost'', [\<lparr>rrRegExp = ''^/echo'', rrExpr = ''^/echo'', rrAlias = ''echo_server''\<rparr>])]"
    by (simp add: oneRoute_def PushRouteTail_def checkRoute_def NewHttpAdapterServer_def routesOf_def)
  then have rs: "map_of (haRoutes oneRoute) ''localhost'' =
      Some [\<lparr>rrRegExp = ''^/echo'', rrExpr = ''^/echo'', rrAlias = ''echo_server''\<rparr>]" by simp
  show ?thesis
    using RemoveRoute_returns_iff [OF rs, of "''^/echo''"] RemoveRoute_returns_iff [OF rs, of "''^/http''"] r
    by (simp add: routesStop_def Let_def)
qed

text \<open>C33: A route pushed at the head is not always the first to win, although routes are tried from
  the head on: it wins over all others for the URIs it matches as a whole, but where it matches
  a part only, every route behind it that matches the whole URI goes before it. A route pushed
  at the tail comes after all others in its kind of match; other hosts are not concerned.\<close>

theorem route_priority:
  fixes ha :: "('q, 'h, 'j, 'e, 'f) adapter"
  assumes "PushRouteHead compile host re alias ha = (hd_ha, None)"
    and "PushRouteTail compile host re alias ha = (tl_ha, None)"
    and "compile re = Inr ex"
    and "\<forall>r \<in> set (routesOf host ha). rrAlias r \<noteq> ''''"
  shows "findRegExpRoute fs ms host uri hd_ha =
      (if fs ex uri = uri then alias
       else if \<exists>r \<in> set (routesOf host ha). fs (rrExpr r) uri = uri then findRegExpRoute fs ms host uri ha
       else if ms ex uri then alias else findRegExpRoute fs ms host uri ha) \<and>
    findRegExpRoute fs ms host uri tl_ha =
      (if \<exists>r \<in> set (routesOf host ha). fs (rrExpr r) uri = uri then findRegExpRoute fs ms host uri ha
       else if fs ex uri = uri then alias
       else if \<exists>r \<in> set (routesOf host ha). ms (rrExpr r) uri then findRegExpRoute fs ms host uri ha
       else if ms ex uri then alias else '''') \<and>
    (host' \<noteq> host \<longrightarrow> findRegExpRoute fs ms host' uri hd_ha = findRegExpRoute fs ms host' uri ha)"
proof -
  let ?rs = "routesOf host ha" and ?r = "\<lparr>rrRegExp = re, rrExpr = ex, rrAlias = alias\<rparr>"
  have ok: "checkRoute compile host re alias = Inr ?r"
    using assms(1,3) by (auto simp: PushRouteHead_def checkRoute_def split: if_splits)
  then have ha: "haRoutes hd_ha = AList.update host (?r # ?rs) (haRoutes ha)"
    "haRoutes tl_ha = AList.update host (?rs @ [?r]) (haRoutes ha)"
    using assms(1,2) by (auto simp: PushRouteHead_def PushRouteTail_def)
  have old: "findRegExpRoute fs ms host uri ha =
      (case find (\<lambda>r. fs (rrExpr r) uri = uri) ?rs of Some r \<Rightarrow> rrAlias r
       | None \<Rightarrow> (case find (\<lambda>r. ms (rrExpr r) uri) ?rs of Some r \<Rightarrow> rrAlias r | None \<Rightarrow> ''''))"
    by (auto simp: findRegExpRoute_def routesOf_def split: option.split)
  have find_append: "find Q (xs @ [y]) = (case find Q xs of None \<Rightarrow> if Q y then Some y else None | Some x \<Rightarrow> Some x)"
    for Q xs and y :: "'e regExpRoute"
    by (induction xs) auto
  have find_ex: "(\<exists>r \<in> set ?rs. Q r) \<longleftrightarrow> find Q ?rs \<noteq> None" for Q
    by (metis find_None_iff)
  show ?thesis
    unfolding old find_ex by (auto simp: findRegExpRoute_def ha update_conv find_append split: option.split)
qed

definition exactMatch :: "string \<Rightarrow> string \<Rightarrow> string" where
  "exactMatch ex uri = (if take (length ex) uri = ex then ex else '''')"

definition prefixMatch :: "string \<Rightarrow> string \<Rightarrow> bool" where
  "prefixMatch ex uri \<longleftrightarrow> take (length ex) uri = ex"

definition plainRoute :: "(nat, nat, unit, string, unit) adapter" where
  "plainRoute = fst (PushRouteTail Inr ''localhost'' ''/echo'' ''echo_server''
     (NewHttpAdapterServer '':9092'' '''' '''' 1000000000))"

theorem route_priority_witness:
  "findRegExpRoute exactMatch prefixMatch ''localhost'' ''/echo''
     (fst (PushRouteHead Inr ''localhost'' ''/e'' ''other'' plainRoute)) = ''echo_server''"
proof -
  have r: "haRoutes plainRoute = [(''localhost'', [\<lparr>rrRegExp = ''/echo'', rrExpr = ''/echo'', rrAlias = ''echo_server''\<rparr>])]"
    by (simp add: plainRoute_def PushRouteTail_def checkRoute_def NewHttpAdapterServer_def routesOf_def)
  obtain hd_ha tl_ha where p:
    "PushRouteHead Inr ''localhost'' ''/e'' ''other'' plainRoute = (hd_ha, None)"
    "PushRouteTail Inr ''localhost'' ''/e'' ''other'' plainRoute = (tl_ha, None)"
    by (simp add: PushRouteHead_def PushRouteTail_def checkRoute_def)
  have "\<forall>r \<in> set (routesOf ''localhost'' plainRoute). rrAlias r \<noteq> ''''"
    by (simp add: r routesOf_def)
  from route_priority [OF p refl this, where fs = exactMatch and ms = prefixMatch and uri = "''/echo''"] show ?thesis
    by (simp add: p(1) r routesOf_def findRegExpRoute_def exactMatch_def)
qed

end
