(* ===== verification/HeaderArg.thy ===== *)
theory HeaderArg
  imports EndToEnd HttpAdapter
begin

text \<open>
  The argument by which the HTTP adapter hands the headers of a request to the server: the decoder
  \<open>IIPArgToHttpHeader\<close> of \<open>utils.go\<close>, that it undoes the encoder, and what becomes of a request
  whose headers make the path longer than a packet takes.
\<close>

section \<open>Decoding\<close>

text \<open>\<open>DecodeString\<close> of \<open>base64.URLEncoding\<close>: line ends are skipped, padding is only allowed at the
  end. The error names the place in the input, which is left out here.\<close>

definition b64Val :: "char \<Rightarrow> nat option" where
  "b64Val c = (let n = (of_char c :: nat) in
     if 65 \<le> n \<and> n \<le> 90 then Some (n - 65) else if 97 \<le> n \<and> n \<le> 122 then Some (n - 71)
     else if 48 \<le> n \<and> n \<le> 57 then Some (n + 4) else if c = CHR ''-'' then Some 62
     else if c = CHR ''_'' then Some 63 else None)"

definition b64Word :: "nat list \<Rightarrow> nat" where
  "b64Word vs = foldl (\<lambda>n v. n * 64 + v) 0 vs"

definition b64Byte :: "nat \<Rightarrow> nat \<Rightarrow> byte" where
  "b64Byte n k = word_of_nat (n div 256 ^ k mod 256)"

fun base64Quanta :: "string \<Rightarrow> byte list option" where
  "base64Quanta [] = Some []"
| "base64Quanta (a # b # c # d # cs) =
     (case (b64Val a, b64Val b) of
        (Some va, Some vb) \<Rightarrow>
          if c = CHR ''='' \<and> d = CHR ''='' \<and> cs = [] then Some [b64Byte (b64Word [va, vb, 0, 0]) 2]
          else (case b64Val c of
            None \<Rightarrow> None
          | Some vc \<Rightarrow>
              if d = CHR ''='' \<and> cs = [] then
                Some [b64Byte (b64Word [va, vb, vc, 0]) 2, b64Byte (b64Word [va, vb, vc, 0]) 1]
              else (case (b64Val d, base64Quanta cs) of
                (Some vd, Some bs) \<Rightarrow>
                  (let n = b64Word [va, vb, vc, vd]
                   in Some (b64Byte n 2 # b64Byte n 1 # b64Byte n 0 # bs))
              | _ \<Rightarrow> None))
      | _ \<Rightarrow> None)"
| "base64Quanta _ = None"

definition base64Decode :: "string \<Rightarrow> byte list option" where
  "base64Decode s = base64Quanta (filter (\<lambda>c. c \<noteq> CHR 0x0A \<and> c \<noteq> CHR 0x0D) s)"

text \<open>\<open>unmarshal\<close> is \<open>json.Unmarshal\<close> into a dictionary of headers.\<close>

definition IIPArgToHttpHeader ::
    "(byte list \<Rightarrow> gerr + (string \<times> string list) list) \<Rightarrow> string \<Rightarrow> gerr + (string \<times> string list) list" where
  "IIPArgToHttpHeader unmarshal argValue =
     (case base64Decode argValue of
        None \<Rightarrow> Inl (TextErr ''illegal base64 data'')
      | Some bts \<Rightarrow> unmarshal bts)"

section \<open>Encoding and decoding\<close>

lemma b64Val_b64Char:
  assumes "n < 64"
  shows "b64Val (b64Char n) = Some n"
proof -
  consider "n < 26" | "26 \<le> n" "n < 52" | "52 \<le> n" "n < 62" | "n = 62" | "n = 63"
    using assms by linarith
  then show ?thesis by cases (auto simp: b64Char_def b64Val_def Let_def)
qed

lemma b64Char_plain:
  assumes "n < 64"
  shows "b64Char n \<noteq> CHR ''=''" "b64Char n \<noteq> CHR 0x0A" "b64Char n \<noteq> CHR 0x0D"
proof -
  have "b64Val (CHR ''='') = None" "b64Val (CHR 0x0A) = None" "b64Val (CHR 0x0D) = None"
    by (simp_all add: b64Val_def)
  with b64Val_b64Char [OF assms]
  show "b64Char n \<noteq> CHR ''=''" "b64Char n \<noteq> CHR 0x0A" "b64Char n \<noteq> CHR 0x0D" by auto
qed

lemma b64Word_digits:
  assumes "n < 262144 * 64"
  shows "b64Word [n div 262144, n div 4096 mod 64, n div 64 mod 64, n mod 64] = n"
proof -
  have "n div 262144 = n div 4096 div 64" "n div 4096 = n div 64 div 64"
    by (simp_all add: div_mult2_eq [symmetric])
  then have "(n div 262144) * 64 + n div 4096 mod 64 = n div 4096"
    "(n div 4096) * 64 + n div 64 mod 64 = n div 64"
    by simp_all
  then show ?thesis by (simp add: b64Word_def)
qed

lemma byte_less: "unat (x :: byte) < 256"
  using unsigned_less [of x] by simp

lemma b64Byte_bytes:
  "b64Byte ((unat a * 256 + unat b) * 256 + unat c) 2 = a"
  "b64Byte ((unat a * 256 + unat b) * 256 + unat c) 1 = b"
  "b64Byte ((unat a * 256 + unat b) * 256 + unat c) 0 = c"
proof -
  define w where "w = (unat a * 256 + unat b) * 256 + unat c"
  note less = byte_less
  have m: "w mod 256 = unat c" "w div 256 = unat a * 256 + unat b"
    unfolding w_def mod_mult_self3 div_mult_self3 using less [of c] by simp_all
  then have "w div 256 div 256 = unat a" "w div 256 mod 256 = unat b" using less [of b] by simp_all
  then have d: "w div 65536 = unat a" "w div 256 mod 256 = unat b" by (simp_all add: div_mult2_eq [symmetric])
  show "b64Byte ((unat a * 256 + unat b) * 256 + unat c) 2 = a"
    unfolding w_def [symmetric] using less [of a] by (simp add: b64Byte_def d)
  show "b64Byte ((unat a * 256 + unat b) * 256 + unat c) 1 = b"
    unfolding w_def [symmetric] by (simp add: b64Byte_def d)
  show "b64Byte ((unat a * 256 + unat b) * 256 + unat c) 0 = c"
    unfolding w_def [symmetric] by (simp add: b64Byte_def m)
qed

lemma word24:
  fixes a b c :: byte
  shows "(unat a * 256 + unat b) * 256 + unat c < 262144 * 64"
  using byte_less [of a] byte_less [of b] byte_less [of c] by simp

lemma base64Quanta_base64: "base64Quanta (base64 bs) = Some bs"
proof (induction bs rule: base64.induct)
  case (2 a)
  let ?n = "unat a * 16"
  have lt: "?n div 64 < 64" using byte_less [of a] by simp
  note v = b64Val_b64Char [OF lt] b64Val_b64Char [of "?n mod 64"]
  have "b64Word [?n div 64, ?n mod 64, 0, 0] = (?n div 64 * 64 + ?n mod 64) * 4096" by (simp add: b64Word_def)
  then have "b64Word [?n div 64, ?n mod 64, 0, 0] = (unat a * 256 + unat (0 :: byte)) * 256 + unat (0 :: byte)"
    by (simp only: div_mult_mod_eq) simp
  then show ?case using v b64Byte_bytes(1) [of a 0 0] by (simp only: base64.simps base64Quanta.simps Let_def) simp
next
  case (3 a b)
  let ?n = "(unat a * 256 + unat b) * 4"
  have lt: "?n div 4096 < 64" using byte_less [of a] byte_less [of b] by simp
  note v = b64Val_b64Char [OF lt] b64Val_b64Char [of "?n div 64 mod 64"] b64Val_b64Char [of "?n mod 64"]
  have ne: "b64Char (?n mod 64) \<noteq> CHR ''=''" by (simp add: b64Char_plain)
  have "?n div 4096 = ?n div 64 div 64" by (simp only: div_mult2_eq [symmetric]) simp
  then have "(?n div 4096 * 64 + ?n div 64 mod 64) * 64 + ?n mod 64 = ?n" by simp
  moreover have "b64Word [?n div 4096, ?n div 64 mod 64, ?n mod 64, 0] =
      ((?n div 4096 * 64 + ?n div 64 mod 64) * 64 + ?n mod 64) * 64" by (simp add: b64Word_def)
  ultimately have "b64Word [?n div 4096, ?n div 64 mod 64, ?n mod 64, 0] =
      (unat a * 256 + unat b) * 256 + unat (0 :: byte)"
    by (simp only:) simp
  then show ?case
    using v ne b64Byte_bytes(1,2) [of a b 0]
    by (simp only: base64.simps base64Quanta.simps Let_def) simp
next
  case (4 a b c bs)
  let ?n = "(unat a * 256 + unat b) * 256 + unat c"
  have lt: "?n div 262144 < 64" using word24 [of a b c] by simp
  note v = b64Val_b64Char [OF lt] b64Val_b64Char [of "?n div 4096 mod 64"]
    b64Val_b64Char [of "?n div 64 mod 64"] b64Val_b64Char [of "?n mod 64"]
  have "b64Char (?n div 64 mod 64) \<noteq> CHR ''=''" "b64Char (?n mod 64) \<noteq> CHR ''=''"
    by (simp_all add: b64Char_plain)
  then show ?case
    using v 4 b64Word_digits [OF word24, of a b c] b64Byte_bytes [of a b c]
    by (simp add: Let_def)
qed simp

text \<open>The filter that skips line ends leaves what the encoder writes as it is.\<close>

lemma b64Char_no_newline: "n < 64 \<Longrightarrow> b64Char n \<noteq> CHR 0x0A \<and> b64Char n \<noteq> CHR 0x0D"
  by (simp add: b64Char_plain)

lemma base64_no_newline: "c \<in> set (base64 bs) \<Longrightarrow> c \<noteq> CHR 0x0A \<and> c \<noteq> CHR 0x0D"
proof (induction bs rule: base64.induct)
  case (2 a)
  then show ?case using b64Char_no_newline byte_less [of a] by (auto simp: Let_def)
next
  case (3 a b)
  have "(unat a * 256 + unat b) * 4 div 4096 < 64" using byte_less [of a] byte_less [of b] by simp
  with 3 show ?case using b64Char_no_newline by (auto simp: Let_def)
next
  case (4 a b c bs)
  have "((unat a * 256 + unat b) * 256 + unat c) div 262144 < 64" using word24 [of a b c] by simp
  with 4 show ?case using b64Char_no_newline by (auto simp: Let_def)
qed simp

lemma base64Decode_base64: "base64Decode (base64 bs) = Some bs"
proof -
  have "filter (\<lambda>c. c \<noteq> CHR 0x0A \<and> c \<noteq> CHR 0x0D) (base64 bs) = base64 bs"
    using base64_no_newline by (intro filter_True) blast
  then show ?thesis by (simp add: base64Decode_def base64Quanta_base64)
qed

lemma length_base64: "length (base64 bs) = 4 * ((length bs + 2) div 3)"
proof (induction bs rule: base64.induct)
  case (4 a b c bs)
  have "(5 + length bs) div 3 = Suc (Suc (Suc (length bs)) div 3)" by presburger
  with 4 show ?case by (simp add: Let_def)
qed (simp_all add: Let_def)

text \<open>The JSON the encoder works on.\<close>

definition headerJson :: "(string \<times> string list) list \<Rightarrow> string" where
  "headerJson h = jsonDict (map (\<lambda>(k, vs). (k, jsonArray (map jsonString vs))) h)"

text \<open>Decoding the header argument of a path gives \<open>json.Unmarshal\<close> exactly the JSON text of
  the headers the adapter encoded: the base64 layer loses nothing and never fails, so a JSON
  package that reads back what it writes gives the server the client's headers.\<close>

theorem http_header_arg_roundtrip:
  "IIPArgToHttpHeader unmarshal (HttpHeaderToIIPArg h) = unmarshal (bytesOf (headerJson h))"
  by (simp add: IIPArgToHttpHeader_def HttpHeaderToIIPArg_def base64Decode_base64 headerJson_def)

section \<open>Headers that are too long\<close>

lemma length_withHeaderArg:
  "length (withHeaderArg req) =
    length (hrRequestURI req) + 14 + 4 * ((length (headerJson (hrHeader req)) + 2) div 3)"
  by (simp add: withHeaderArg_def HttpHeaderToIIPArg_def headerJson_def length_base64 ArgHttpHeader_def)

lemma withHeaderArg_long:
  assumes "1536 \<le> length (headerJson (hrHeader req))"
  shows "unat MaxPathLen < length (withHeaderArg req)"
proof -
  have "512 \<le> (length (headerJson (hrHeader req)) + 2) div 3" using assms by linarith
  then show ?thesis by (simp add: length_withHeaderArg)
qed

text \<open>C37: The adapter hands on the headers of an HTTP request as an argument of the path, and nothing
  checks the length of the path before it is in the write queue. With a kilobyte and a half of headers
  (as JSON) the request is accepted as sent, then the write loop finds the path too long and closes
  the connection, without a byte written: whatever request comes next on that connection, of any
  HTTP client, is not sent.\<close>

theorem adapter_long_headers:
  assumes "clientOpen a (cwConn w)" "writerIdle (cwConn w)"
    and "r < length (cwRequests w)" "reqData (cwRequests w ! r) \<noteq> []"
    and "ValidatePath parse (withHeaderArg req)" "1536 \<le> length (headerJson (hrHeader req))"
  shows "\<exists>w1 n c2. DoRequest parse ops alone pick (Some a) (withHeaderArg req) r w = (w1, Sent, n) \<and>
    writeLoop notified wr (cwConn w1) = c2 \<and> cnOut c2 = cnOut (cwConn w) \<and>
    cnClosedMark c2 \<and> cnWriteDone c2 \<and>
    (\<forall>r'. \<exists>res m. DoRequest parse ops alone pick (Some a) path r' (w1\<lparr>cwConn := c2\<rparr>) =
       (w1\<lparr>cwConn := c2\<rparr>, res, m) \<and> res \<noteq> Sent)"
proof -
  let ?d = "reqData (cwRequests w ! r)" and ?path = "withHeaderArg req"
  let ?pkt = "sentPacket (cwConn w) a ?path ?d"
  obtain ns n where acq: "acquireNotifyChan pick (cwNotify w) = (ns, n)" by fastforce
  from DoRequest_waits [OF assms(1,5,4) acq] obtain w1 where
    run: "DoRequest parse ops alone pick (Some a) ?path r w = (w1, Sent, n)" and
    w1: "cwConn w1 = requestedConn ops a ?path r ?d (cwConn w)" by simp
  have a: "a < length (cnChans (cwConn w))" using assms(1) by (simp add: clientOpen_def)
  have "CreateNetPacket ?pkt = Inl (TextErr ''path is too large, must be <= 2048 bytes'')"
    using withHeaderArg_long [OF assms(6)] by (simp add: CreateNetPacket_def sentPacket_def requestPacket_def)
  moreover have "cnWriteQueue (cwConn w1) = [?pkt]" "\<not> cnWriteDone (cwConn w1)"
    "\<not> cnClosedMark (cwConn w1)" "\<not> cnNotifyClosed (cwConn w1)" "cnOut (cwConn w1) = cnOut (cwConn w)"
    using assms(1,2) a by (simp_all add: w1 requestedConn_simps writerIdle_def clientOpen_def)
  ultimately have c2: "cnOut (writeLoop notified wr (cwConn w1)) = cnOut (cwConn w)"
    "cnClosedMark (writeLoop notified wr (cwConn w1))" "cnWriteDone (writeLoop notified wr (cwConn w1))"
    by (simp_all add: writeLoop_refused)
  have "\<exists>res m. DoRequest parse ops alone pick (Some a) path r' w' = (w', res, m) \<and> res \<noteq> Sent"
    if "cnClosedMark (cwConn w')" for r' and w' :: "'a clientWorld"
    using that by (simp add: DoRequest_def Let_def Connection_Closed_def split: option.split)
  with run c2 show ?thesis
    by - (rule exI [of _ w1], rule exI [of _ n], rule exI [of _ "writeLoop notified wr (cwConn w1)"], simp)
qed

text \<open>A request with a cookie of 1536 bytes.\<close>

definition longCookie :: httpRequest where
  "longCookie = \<lparr>hrHost = ''localhost'', hrRequestURI = ''/echo'', hrRawQuery = '''',
     hrHeader = [(''Cookie'', [replicate 1536 (CHR ''x'')])], hrBody = Inr [1]\<rparr>"

lemma longCookie_json: "1536 \<le> length (headerJson (hrHeader longCookie))"
  by (simp add: longCookie_def headerJson_def jsonDict_def jsonObject_def jsonArray_def jsonString_def
      jsonChar_def concat_replicate_trivial)

theorem adapter_long_headers_witness:
  "\<exists>w1 n c2. DoRequest (\<lambda>p. Inr ()) listOps alone None (Some 0) (withHeaderArg longCookie) 0
      (waitingWorld [] []) = (w1, Sent, n) \<and>
    writeLoop False fullWriter (cwConn w1) = c2 \<and> cnClosedMark c2"
proof -
  have "reqData (cwRequests (waitingWorld [] []) ! 0) \<noteq> []" "0 < length (cwRequests (waitingWorld [] []))"
    by (simp_all add: waitingWorld_def)
  moreover have "clientOpen 0 (cwConn (waitingWorld [] []))" "writerIdle (cwConn (waitingWorld [] []))"
    using waiting_clientIdle(1) by (simp_all add: clientIdle_def)
  moreover have "ValidatePath (\<lambda>p. Inr () :: gerr + unit) (withHeaderArg longCookie)"
    by (simp add: ValidatePath_def withHeaderArg_def longCookie_def)
  ultimately show ?thesis
    using adapter_long_headers [of 0 "waitingWorld [] []" 0 "\<lambda>p. Inr ()" longCookie listOps None False fullWriter]
      longCookie_json by blast
qed

end
