(* ===== verification/JsonExpRoute.thy ===== *)
theory JsonExpRoute
  imports HttpAdapter
begin

text \<open>
  The route functions by JSON expressions of \<open>httpadapter/jsonexp_route.go\<close>. Package jsonexp is a
  parameter: \<open>'d\<close> are its dictionaries with the objects registered in them, \<open>newDict\<close>,
  \<open>registerVar\<close> and \<open>registerObject\<close> their functions, \<open>newConfig\<close> compiles a configuration, \<open>groupOf\<close> finds
  a group in it, \<open>execute\<close> runs a group on a context and the dictionary, which it may change, and
  gives the value of the variable of the backend afterwards, \<open>asString\<close> reads a string. So are the
  two parsers of package net/url.
\<close>

section \<open>The query object\<close>

definition varHost :: string where "varHost = ''$host''"
definition varUri :: string where "varUri = ''$uri''"
definition varIIPBackend :: string where "varIIPBackend = ''$iip_backend''"
definition objQuery :: string where "objQuery = ''$query''"

type_synonym urlQueryParams = "(string \<times> string) list"

definition UrlQueryParams_GetPropertyValue :: "string \<Rightarrow> urlQueryParams \<Rightarrow> string option" where
  "UrlQueryParams_GetPropertyValue PropertyName m = map_of m PropertyName"

definition UrlQueryParams_SetPropertyValue ::
    "('v \<Rightarrow> string option) \<Rightarrow> string \<Rightarrow> 'v \<Rightarrow> urlQueryParams \<Rightarrow> urlQueryParams" where
  "UrlQueryParams_SetPropertyValue asString property value m =
     (case asString value of Some s \<Rightarrow> AList.update property s m | None \<Rightarrow> m)"

text \<open>The first value of each parameter.\<close>

definition firstValues :: "url_values \<Rightarrow> urlQueryParams" where
  "firstValues urlValues = map (\<lambda>(k, v). (k, hd v)) (filter (\<lambda>(k, v). v \<noteq> []) urlValues)"

section \<open>Routes\<close>

record ('d, 'conf) jsonExpRoute =
  jeDict :: 'd
  jeConfig :: 'conf
  routeGroupName :: string

definition NewJsonExpRoute ::
    "'d \<Rightarrow> (string \<Rightarrow> 'd \<Rightarrow> 'd) \<Rightarrow> (byte list \<Rightarrow> 'd \<Rightarrow> 'd \<times> (gerr + 'conf)) \<Rightarrow> byte list \<Rightarrow> string \<Rightarrow>
     gerr + ('d, 'conf) jsonExpRoute" where
  "NewJsonExpRoute newDict registerVar newConfig configJson routeJsonExpGroupName =
     (if routeJsonExpGroupName = '''' then Inl (TextErr ''routeJsonExpGroupName is empty'')
      else case newConfig configJson newDict of
        (dict, Inl err) \<Rightarrow> Inl err
      | (dict, Inr conf) \<Rightarrow>
          Inr \<lparr>jeDict = registerVar varIIPBackend (registerVar varUri (registerVar varHost dict)),
               jeConfig = conf, routeGroupName = routeJsonExpGroupName\<rparr>)"

text \<open>
  The object for the query is registered when both parsers accept; the map it stands for is filled
  after that, before anything reads it.
\<close>

definition registerQuery :: "(string \<Rightarrow> gerr + string) \<Rightarrow> (string \<Rightarrow> gerr + url_values) \<Rightarrow>
    (string \<Rightarrow> urlQueryParams \<Rightarrow> 'd \<Rightarrow> 'd) \<Rightarrow> string \<Rightarrow> 'd \<Rightarrow> 'd" where
  "registerQuery parseURI parseQuery registerObject uri dict =
     (case parseURI uri of
        Inl _ \<Rightarrow> dict
      | Inr rawQuery \<Rightarrow>
          (case parseQuery rawQuery of
             Inl _ \<Rightarrow> dict
           | Inr urlValues \<Rightarrow> registerObject objQuery (firstValues urlValues) dict))"

definition backendOf :: "('v \<Rightarrow> string option) \<Rightarrow> gerr + 'v option \<Rightarrow> string" where
  "backendOf asString res =
     (case res of
        Inr (Some ret) \<Rightarrow> (case asString ret of Some retStr \<Rightarrow> retStr | None \<Rightarrow> '''')
      | _ \<Rightarrow> '''')"

definition GetBackendAlias ::
    "(string \<Rightarrow> gerr + string) \<Rightarrow> (string \<Rightarrow> gerr + url_values) \<Rightarrow>
     (string \<Rightarrow> urlQueryParams \<Rightarrow> 'd \<Rightarrow> 'd) \<Rightarrow> ('conf \<Rightarrow> string \<Rightarrow> 'g option) \<Rightarrow>
     ('g \<Rightarrow> (string \<times> string) list \<Rightarrow> 'd \<Rightarrow> 'd \<times> (gerr + 'v option)) \<Rightarrow>
     ('v \<Rightarrow> string option) \<Rightarrow> string \<Rightarrow> string \<Rightarrow> ('d, 'conf) jsonExpRoute \<Rightarrow>
     ('d, 'conf) jsonExpRoute \<times> string" where
  "GetBackendAlias parseURI parseQuery registerObject groupOf execute asString host uri m =
     (case groupOf (jeConfig m) (routeGroupName m) of
        None \<Rightarrow> (m, '''')
      | Some g \<Rightarrow>
          let ctx = [(varHost, host), (varUri, uri)];
              (dict, res) = execute g ctx (registerQuery parseURI parseQuery registerObject uri (jeDict m))
          in (m\<lparr>jeDict := dict\<rparr>, backendOf asString res))"

section \<open>What a route function reads\<close>

lemma firstValues_get:
  assumes "distinct (map fst vs)"
  shows "UrlQueryParams_GetPropertyValue k (firstValues vs) =
    (case map_of vs k of Some (v # _) \<Rightarrow> Some v | _ \<Rightarrow> None)"
  using assms
proof (induction vs)
  case (Cons x vs)
  obtain k' v where x: "x = (k', v)" by fastforce
  have "map_of vs k = None" if "k = k'" using Cons.prems x that by (auto simp: map_of_eq_None_iff)
  with Cons x show ?case
    by (cases v) (auto simp: UrlQueryParams_GetPropertyValue_def firstValues_def)
qed (simp add: UrlQueryParams_GetPropertyValue_def firstValues_def)

definition refusedQuery :: "(string \<Rightarrow> gerr + string) \<Rightarrow> (string \<Rightarrow> gerr + url_values) \<Rightarrow> string \<Rightarrow> bool" where
  "refusedQuery parseURI parseQuery uri \<longleftrightarrow>
     (case parseURI uri of Inl _ \<Rightarrow> True | Inr raw \<Rightarrow> \<exists>e. parseQuery raw = Inl e)"

lemma registerQuery_refused:
  "refusedQuery parseURI parseQuery uri \<Longrightarrow> registerQuery parseURI parseQuery registerObject uri d = d"
  by (auto simp: refusedQuery_def registerQuery_def split: sum.splits)

text \<open>C38: The object of the query stays in the dictionary of the route, which all requests share. For any
  group that decides by the context and by what is registered for the query, and changes nothing
  itself: a request with a well-formed query is routed by its own host, URI and parameters (the
  first value of each), whatever came before; a request after it whose URI or query cannot be
  parsed is routed by its own host and URI and by the parameters of the request before it. Of package
  jsonexp this takes that an object that was registered is found under its name.\<close>

theorem bad_query_routed_by_previous:
  assumes group: "groupOf (jeConfig m) (routeGroupName m) = Some g"
    and registered: "\<And>k p d. lookup k (registerObject k p d) = Some p"
    and reads: "\<And>ctx d. execute g ctx d = (d, route ctx (lookup objQuery d))"
    and good: "parseURI uri1 = Inr raw1" "parseQuery raw1 = Inr vs" "distinct (map fst vs)"
    and bad: "refusedQuery parseURI parseQuery uri2"
  shows "\<exists>m1 q. GetBackendAlias parseURI parseQuery registerObject groupOf execute asString host1 uri1 m =
      (m1, backendOf asString (route [(varHost, host1), (varUri, uri1)] (Some q))) \<and>
    GetBackendAlias parseURI parseQuery registerObject groupOf execute asString host2 uri2 m1 =
      (m1, backendOf asString (route [(varHost, host2), (varUri, uri2)] (Some q))) \<and>
    (\<forall>k. UrlQueryParams_GetPropertyValue k q = (case map_of vs k of Some (v # _) \<Rightarrow> Some v | _ \<Rightarrow> None))"
proof -
  let ?q = "firstValues vs"
  let ?m1 = "m\<lparr>jeDict := registerObject objQuery ?q (jeDict m)\<rparr>"
  have "registerQuery parseURI parseQuery registerObject uri1 (jeDict m) = registerObject objQuery ?q (jeDict m)"
    using good(1,2) by (simp add: registerQuery_def)
  then have "GetBackendAlias parseURI parseQuery registerObject groupOf execute asString host1 uri1 m =
      (?m1, backendOf asString (route [(varHost, host1), (varUri, uri1)] (Some ?q)))"
    by (simp add: GetBackendAlias_def group reads registered)
  moreover have "GetBackendAlias parseURI parseQuery registerObject groupOf execute asString host2 uri2 ?m1 =
      (?m1, backendOf asString (route [(varHost, host2), (varUri, uri2)] (Some ?q)))"
    by (simp add: GetBackendAlias_def group reads registered registerQuery_refused [OF bad])
  ultimately show ?thesis using firstValues_get [OF good(3)] by blast
qed

text \<open>The witness: \<open>/x?group=a\<close> and then \<open>/x?group=%\<close>, with parsers for these two URIs, dictionaries that are
  lists of objects, and a group that takes the backend from the parameter \<open>group\<close>.\<close>

theorem bad_query_routed_by_previous_witness:
  "\<exists>m1. GetBackendAlias (\<lambda>u. Inr (drop 3 u))
       (\<lambda>raw. if raw = ''group=a'' then Inr [(''group'', [''a''])] else Inl (TextErr ''invalid URL escape''))
       AList.update (\<lambda>c n. Some ())
       (\<lambda>g ctx d. (d, Inr (case map_of d objQuery of None \<Rightarrow> None | Some q \<Rightarrow> map_of q ''group''))) Some
       ''h'' ''/x?group=a'' \<lparr>jeDict = [], jeConfig = (), routeGroupName = ''routes''\<rparr> = (m1, ''a'') \<and>
     GetBackendAlias (\<lambda>u. Inr (drop 3 u))
       (\<lambda>raw. if raw = ''group=a'' then Inr [(''group'', [''a''])] else Inl (TextErr ''invalid URL escape''))
       AList.update (\<lambda>c n. Some ())
       (\<lambda>g ctx d. (d, Inr (case map_of d objQuery of None \<Rightarrow> None | Some q \<Rightarrow> map_of q ''group''))) Some
       ''h'' ''/x?group=%'' m1 = (m1, ''a'')"
proof -
  let ?parse = "\<lambda>u. Inr (drop 3 u) :: gerr + string"
  let ?query = "\<lambda>raw. if raw = ''group=a'' then Inr [(''group'', [''a''])] else Inl (TextErr ''invalid URL escape'')"
  let ?route = "\<lambda>(ctx :: (string \<times> string) list) q. Inr (case q of None \<Rightarrow> None | Some q \<Rightarrow> map_of q ''group'') :: gerr + string option"
  let ?exec = "\<lambda>(g :: unit) (ctx :: (string \<times> string) list) d.
    (d, Inr (case map_of d objQuery of None \<Rightarrow> None | Some q \<Rightarrow> map_of q ''group'') :: gerr + string option)"
  let ?m = "\<lparr>jeDict = [] :: (string \<times> urlQueryParams) list, jeConfig = (), routeGroupName = ''routes''\<rparr>"
  have good: "?parse ''/x?group=a'' = Inr ''group=a''" "?query ''group=a'' = Inr [(''group'', [''a''])]"
    "distinct (map fst [(''group'', [''a''])])" by simp_all
  have bad: "refusedQuery ?parse ?query ''/x?group=%''" by (simp add: refusedQuery_def)
  have law: "\<And>k p d. map_of (AList.update k p d) k = Some (p :: urlQueryParams)" by (simp add: update_conv')
  obtain m1 q where m1:
    "GetBackendAlias ?parse ?query AList.update (\<lambda>c n. Some ()) ?exec Some ''h'' ''/x?group=a'' ?m =
      (m1, backendOf Some (?route [(varHost, ''h''), (varUri, ''/x?group=a'')] (Some q)))"
    "GetBackendAlias ?parse ?query AList.update (\<lambda>c n. Some ()) ?exec Some ''h'' ''/x?group=%'' m1 =
      (m1, backendOf Some (?route [(varHost, ''h''), (varUri, ''/x?group=%'')] (Some q)))"
    "UrlQueryParams_GetPropertyValue ''group'' q = Some ''a''"
    using bad_query_routed_by_previous [of "\<lambda>c n. Some ()" ?m "()" "\<lambda>k d. map_of d k" AList.update ?exec ?route
        ?parse "''/x?group=a''" "''group=a''" ?query "[(''group'', [''a''])]" "''/x?group=%''" Some "''h''" "''h''"]
      law good bad by fastforce
  then have "backendOf Some (?route ctx (Some q)) = ''a''" for ctx
    by (simp add: backendOf_def UrlQueryParams_GetPropertyValue_def)
  with m1 show ?thesis by (intro exI [of _ m1]) simp
qed

end
