(* ===== verification/Server.thy ===== *)
theory Server
  imports ServerLoop Shared
begin

text \<open>
  The server of \<open>server.go\<close>: its configuration with defaults, the goroutine that accepts
  connections, the dictionary of connections by the address of the peer, \<open>Stop\<close>, handlers and
  their counters, and the handler the server is itself for the paths of its statistics. The
  listener is the source of the events \<open>acceptResult\<close>; a panic ends the program.
\<close>

section \<open>State\<close>

record serverConfig =
  scMaxConnections :: i64
  scMaxChannelsPerConn :: i64
  scChannelPacketQueueLen :: u32
  scTcpWriteQueueLen :: u32
  scTcpReadBufferSize :: i64
  scTcpWriteBufferSize :: i64

text \<open>
  A Go channel that is only made and closed, and where the goroutine of \<open>Serve\<close> is: at its
  select, in \<open>Accept\<close>, or returned.
\<close>

datatype goChan = ChanNil | ChanOpen | ChanClosed
datatype acceptPos = NotServing | Polling | InAccept | AcceptEnded

text \<open>
  \<open>svConns\<close> holds the connection objects with the address of their peer, \<open>svConnections\<close> is the
  dictionary; \<open>svListener\<close> is nil or whether the listener is open.
\<close>

record ('q, 'h) server =
  svIsTls :: bool
  svTlsCertFile :: string
  svTlsKeyFile :: string
  svConfig :: serverConfig
  svListenAddr :: string
  svListener :: "bool option"
  svConns :: "(string \<times> 'q conn) list"
  svConnections :: "(string \<times> nat) list"
  svCloseNotify :: goChan
  svHandler :: "'h handlers"
  svOwner :: owner
  svError :: errorHolder
  svAccept :: acceptPos

section \<open>Handlers and their counters\<close>

definition Server_RegisterHandler ::
    "(string \<Rightarrow> gerr + 'u) \<Rightarrow> string \<Rightarrow> 'h option \<Rightarrow> (i64 \<Rightarrow> i64) option \<Rightarrow> ('q, 'h) server \<Rightarrow>
     ('q, 'h) server \<times> gerr option" where
  "Server_RegisterHandler parse path handler rangeFunc sv =
     (let (hs, ret) = server_registerHandler parse (svHandler sv) path handler;
          ow = svOwner sv
      in (sv\<lparr>svHandler := hs,
             svOwner := ow\<lparr>owPathCount := AList.update path zeroCount (owPathCount ow),
                           owPathMeasure := AList.update path (NewMesure rangeFunc) (owPathMeasure ow)\<rparr>\<rparr>,
          ret))"

definition Server_UnRegisterHandler :: "string \<Rightarrow> ('q, 'h) server \<Rightarrow> ('q, 'h) server" where
  "Server_UnRegisterHandler path sv = sv\<lparr>svHandler := server_unRegisterHandler (svHandler sv) path\<rparr>"

text \<open>The paths the server handles itself; \<open>self\<close> names the server as a handler.\<close>

definition systemPaths :: "string list" where
  "systemPaths = [PathServerCountJson, PathServerMeasureJson, PathServerPathCountJson,
     PathServerPathMeasureJson, PathServerStatis, PathServerConnectionStatis]"

definition NewServer :: "(string \<Rightarrow> gerr + 'u) \<Rightarrow> 'h \<Rightarrow> serverConfig \<Rightarrow> string \<Rightarrow>
    (i64 \<Rightarrow> i64) option \<Rightarrow> ('q, 'h) server" where
  "NewServer parse self config listenAddr rangeFunc =
     fold (\<lambda>path sv. fst (Server_RegisterHandler parse path (Some self)
              (Some EnsureTimeRangeMicroSecond) sv)) systemPaths
     \<lparr>svIsTls = False, svTlsCertFile = '''', svTlsKeyFile = '''',
      svConfig =
        \<lparr>scMaxConnections = orDefault (scMaxConnections config) 1000,
         scMaxChannelsPerConn = orDefault (scMaxChannelsPerConn config) 10,
         scChannelPacketQueueLen = orDefault32 (scChannelPacketQueueLen config) 100,
         scTcpWriteQueueLen = orDefault32 (scTcpWriteQueueLen config) 100,
         scTcpReadBufferSize = orDefault (scTcpReadBufferSize config) (16 * 1024),
         scTcpWriteBufferSize = orDefault (scTcpWriteBufferSize config) (16 * 1024)\<rparr>,
      svListenAddr = listenAddr, svListener = None, svConns = [], svConnections = [],
      svCloseNotify = ChanNil, svHandler = None,
      svOwner = \<lparr>owCount = zeroCount, owMeasure = NewMesure rangeFunc, owPathCount = [],
                 owPathMeasure = []\<rparr>,
      svError = \<lparr>ehErr = None\<rparr>, svAccept = NotServing\<rparr>"

section \<open>Stopping\<close>

text \<open>
  \<open>Stop\<close>: closing a channel that is nil or closed panics. The sockets of the connections in the
  dictionary are closed, the connections are not.
\<close>

definition closeSocket :: "'q conn \<Rightarrow> 'q conn" where
  "closeSocket c = c\<lparr>cnTcpOpen := False\<rparr>"

definition Server_Stop :: "gerr option \<Rightarrow> ('q, 'h) server \<Rightarrow> ('q, 'h) server outcome" where
  "Server_Stop err sv =
     (if svCloseNotify sv \<noteq> ChanOpen then Panicked
      else Returned (sv\<lparr>svCloseNotify := ChanClosed, svError := SetError (svError sv) err,
             svListener := Some False,
             svConns := fold (\<lambda>(addr, a) cs. cs[a := apsnd closeSocket (cs ! a)])
                          (svConnections sv) (svConns sv),
             svConnections := []\<rparr>))"

section \<open>Accepting connections\<close>

datatype acceptResult = AcceptTemporary | AcceptFails gerr | Accepted string

text \<open>
  One round of the loop of \<open>acceptConn\<close>: \<open>None\<close> is another round. \<open>GetCtxData\<close> of a connection
  made here names the server from the start, so that setting it again changes nothing.
\<close>

definition Server_enterConn :: "string \<Rightarrow> 'q \<Rightarrow> ('q, 'h) server \<Rightarrow> ('q, 'h) server \<times> (gerr + nat)" where
  "Server_enterConn addr q sv =
     (case NewConnection False True (svOwner sv) RoleServer
             (unat (scTcpWriteQueueLen (svConfig sv))) q of
        Inl e \<Rightarrow> (sv, Inl e)
      | Inr c \<Rightarrow>
          (let a = length (svConns sv);
               c1 = c\<lparr>cnCtx := SetCtxData (cnCtx c) CtxServer (Some CvServer)\<rparr>
           in (sv\<lparr>svConns := svConns sv @ [(addr, c1)],
                  svConnections := AList.update addr a (svConnections sv)\<rparr>, Inr a)))"

definition Server_acceptConn :: "acceptResult \<Rightarrow> 'q \<Rightarrow> ('q, 'h) server \<Rightarrow>
    ('q, 'h) server \<times> (gerr + nat) option" where
  "Server_acceptConn ev q sv =
     (case ev of
        AcceptTemporary \<Rightarrow> (sv, None)
      | AcceptFails e \<Rightarrow> (sv, Some (Inl e))
      | Accepted addr \<Rightarrow>
          if int (length (svConnections sv)) \<ge> sint (scMaxConnections (svConfig sv)) then (sv, None)
          else let (sv1, r) = Server_enterConn addr q sv in (sv1, Some r))"

text \<open>The goroutine of \<open>Serve\<close>: its select, and what it does with the result of \<open>acceptConn\<close>.\<close>

definition servePoll :: "('q, 'h) server \<Rightarrow> ('q, 'h) server" where
  "servePoll sv = sv\<lparr>svAccept := (if svCloseNotify sv = ChanClosed then AcceptEnded else InAccept)\<rparr>"

definition serveAccept :: "acceptResult \<Rightarrow> 'q \<Rightarrow> ('q, 'h) server \<Rightarrow> ('q, 'h) server outcome" where
  "serveAccept ev q sv =
     (case Server_acceptConn ev q sv of
        (sv1, None) \<Rightarrow> Returned sv1
      | (sv1, Some (Inr a)) \<Rightarrow> Returned (sv1\<lparr>svAccept := Polling\<rparr>)
      | (sv1, Some (Inl e)) \<Rightarrow>
          (case Server_Stop (Some (TextErr (''accept connection fail, '' @ errorText e))) sv1 of
             Panicked \<Rightarrow> Panicked
           | Returned sv2 \<Rightarrow> Returned (sv2\<lparr>svAccept := AcceptEnded\<rparr>)))"

definition Server_Serve :: "bool \<Rightarrow> ('q, 'h) server \<Rightarrow> ('q, 'h) server" where
  "Server_Serve isTls sv = sv\<lparr>svListener := Some True, svIsTls := isTls, svCloseNotify := ChanOpen,
     svAccept := Polling\<rparr>"

definition Server_StartListen :: "gerr option \<Rightarrow> ('q, 'h) server \<Rightarrow> ('q, 'h) server \<times> gerr option" where
  "Server_StartListen listen sv =
     (case listen of Some e \<Rightarrow> (sv, Some e) | None \<Rightarrow> (Server_Serve False sv, None))"

definition Server_StartListenTLS :: "gerr option \<Rightarrow> gerr option \<Rightarrow> string \<Rightarrow> string \<Rightarrow>
    ('q, 'h) server \<Rightarrow> ('q, 'h) server \<times> gerr option" where
  "Server_StartListenTLS loadKeys listen certFile keyFile sv =
     (case loadKeys of Some e \<Rightarrow> (sv, Some e)
      | None \<Rightarrow>
     (case listen of Some e \<Rightarrow> (sv, Some e)
      | None \<Rightarrow>
          (Server_Serve True (sv\<lparr>svIsTls := True, svTlsCertFile := certFile, svTlsKeyFile := keyFile\<rparr>),
           None)))"

text \<open>A connection that is closed asks its server to forget its address.\<close>

definition Server_removeConn :: "string \<Rightarrow> ('q, 'h) server \<Rightarrow> ('q, 'h) server" where
  "Server_removeConn addr sv = sv\<lparr>svConnections := AList.delete addr (svConnections sv)\<rparr>"

text \<open>
  \<open>Connection.Close\<close> of a connection of the server, in the steps others can come between: the
  mark, \<open>removeConn\<close> with the address of the peer (under the lock), and the rest, which ends with
  the closing of the socket. \<open>Server_closeConn\<close> is all of them.
\<close>

definition Server_updConn :: "nat \<Rightarrow> ('q conn \<Rightarrow> 'q conn) \<Rightarrow> ('q, 'h) server \<Rightarrow> ('q, 'h) server" where
  "Server_updConn a f sv = sv\<lparr>svConns := (svConns sv)[a := apsnd f (svConns sv ! a)]\<rparr>"

definition Server_markConn :: "nat \<Rightarrow> ('q, 'h) server \<Rightarrow> ('q, 'h) server" where
  "Server_markConn a = Server_updConn a Connection_mark"

definition Server_leaveConn :: "nat \<Rightarrow> gerr option \<Rightarrow> ('q, 'h) server \<Rightarrow> ('q, 'h) server" where
  "Server_leaveConn a err sv =
     Server_removeConn (fst (svConns sv ! a)) (Server_updConn a (Connection_leave err) sv)"

definition Server_finishConn :: "nat \<Rightarrow> ('q, 'h) server \<Rightarrow> ('q, 'h) server" where
  "Server_finishConn a = Server_updConn a Connection_rest"

definition Server_closeConn :: "nat \<Rightarrow> gerr option \<Rightarrow> ('q, 'h) server \<Rightarrow> ('q, 'h) server" where
  "Server_closeConn a err sv =
     (if Connection_Closed (snd (svConns sv ! a)) then sv
      else Server_finishConn a (Server_leaveConn a err (Server_markConn a sv)))"

section \<open>The server as a handler\<close>

definition Server_GetConnectionStatis :: "('q, 'h) server \<Rightarrow> byte list" where
  "Server_GetConnectionStatis sv = bytesOf (jsonDict
     (map (\<lambda>(addr, a). (addr, ConnectionSatis_Json (connectionStatis (snd (svConns sv ! a)))))
        (svConnections sv)))"

text \<open>
  \<open>GetStatis\<close>: \<open>timeUnitField\<close> is the JSON decoder for the string in the field \<open>time_unit\<close>,
  \<open>pathList\<close> the paths in the order Go ranges over them. A path without measure would be a nil
  pointer.
\<close>

definition timeUnitOf :: "string option \<Rightarrow> i64" where
  "timeUnitOf u =
     (if u = Some ''microsecond'' then Microsecond
      else if u = Some ''millisecond'' then Millisecond
      else if u = Some ''second'' then Second
      else if u = Some ''nanosecond'' then Nanosecond
      else Microsecond)"

definition pathStatis :: "i64 \<Rightarrow> owner \<Rightarrow> string \<Rightarrow> string outcome" where
  "pathStatis tmUnit ow path =
     (case (map_of (owPathCount ow) path, map_of (owPathMeasure ow) path) of
        (Some cnt, Some mea) \<Rightarrow>
          (case Measure_text mea tmUnit of
             None \<Rightarrow> Panicked
           | Some t \<Rightarrow> Returned (path @ '' count: '' @ Count_Json cnt @ newline
                         @ path @ '' measure: '' @ newline @ t @ newline @ newline))
      | _ \<Rightarrow> Panicked)"

fun pathsStatis :: "i64 \<Rightarrow> owner \<Rightarrow> string list \<Rightarrow> string \<Rightarrow> string outcome" where
  "pathsStatis tmUnit ow [] ret = Returned ret"
| "pathsStatis tmUnit ow (path # paths) ret =
     (case pathStatis tmUnit ow path of
        Panicked \<Rightarrow> Panicked
      | Returned t \<Rightarrow> pathsStatis tmUnit ow paths (ret @ t))"

definition Server_GetStatis :: "(byte list \<Rightarrow> string option) \<Rightarrow> string list \<Rightarrow> byte list \<Rightarrow>
    ('q, 'h) server \<Rightarrow> byte list outcome" where
  "Server_GetStatis timeUnitField pathList timeUnitJson sv =
     (let tmUnit = timeUnitOf (timeUnitField timeUnitJson); ow = svOwner sv
      in case Measure_text (owMeasure ow) tmUnit of
           None \<Rightarrow> Panicked
         | Some t \<Rightarrow>
             (case pathsStatis tmUnit ow pathList
                     (''total count: '' @ Count_Json (owCount ow) @ newline
                      @ ''total measure: '' @ newline @ t @ newline
                      @ ''-----------------------------------'' @ newline) of
                Panicked \<Rightarrow> Panicked
              | Returned ret \<Rightarrow> Returned (bytesOf ret)))"

definition notSupported :: "string \<Rightarrow> byte list \<times> gerr option" where
  "notSupported path = ([], Some (TextErr (''path ['' @ path @ ''] not support'')))"

definition Server_Handle :: "(byte list \<Rightarrow> string option) \<Rightarrow> string list \<Rightarrow> string \<Rightarrow> byte list \<Rightarrow> bool \<Rightarrow>
    ('q, 'h) server \<Rightarrow> (byte list \<times> gerr option) outcome" where
  "Server_Handle timeUnitField pathList path requestData dataCompleted sv =
     (let ow = svOwner sv in
      if path = PathServerCountJson then Returned (bytesOf (Count_Json (owCount ow)), None)
      else if path = PathServerMeasureJson then
        Returned (bytesOf (Measure_Json (owMeasure ow)), None)
      else if path = PathServerPathCountJson then
        (if \<not> dataCompleted then Returned ([], None)
         else case map_of (owPathCount ow) (stringOf requestData) of
           Some cnt \<Rightarrow> Returned (bytesOf (Count_Json cnt), None)
         | None \<Rightarrow> Returned (notSupported path))
      else if path = PathServerPathMeasureJson then
        (if \<not> dataCompleted then Returned ([], None)
         else case map_of (owPathMeasure ow) (stringOf requestData) of
           Some ms \<Rightarrow> Returned (bytesOf (Measure_Json ms), None)
         | None \<Rightarrow> Returned (notSupported path))
      else if path = PathServerStatis then
        (if \<not> dataCompleted then Returned ([], None)
         else case Server_GetStatis timeUnitField pathList requestData sv of
           Panicked \<Rightarrow> Panicked
         | Returned bs \<Rightarrow> Returned (bs, None))
      else if path = PathServerConnectionStatis then
        Returned (Server_GetConnectionStatis sv, None)
      else Returned (notSupported path))"

text \<open>What a call of a handler does when the server is one of the handlers.\<close>

definition serverRunSelf :: "(byte list \<Rightarrow> string option) \<Rightarrow> string list \<Rightarrow> 'h \<Rightarrow> ('q, 'h) server \<Rightarrow>
    'h serverRun \<Rightarrow> 'h serverRun" where
  "serverRunSelf timeUnitField pathList self sv run h path params requestData dataCompleted =
     (if h = self then Server_Handle timeUnitField pathList path requestData dataCompleted sv
      else run h path params requestData dataCompleted)"

section \<open>The invariant of the connections\<close>

definition connAt :: "('q, 'h) server \<Rightarrow> nat \<Rightarrow> 'q conn" where
  "connAt sv a = snd (svConns sv ! a)"

definition peerAt :: "('q, 'h) server \<Rightarrow> nat \<Rightarrow> string" where
  "peerAt sv a = fst (svConns sv ! a)"

definition openConns :: "('q, 'h) server \<Rightarrow> nat set" where
  "openConns sv = {a. a < length (svConns sv) \<and> \<not> cnClosedMark (connAt sv a)}"

text \<open>
  The steps: the goroutine of \<open>Serve\<close>, the three steps of the closing of a connection, and \<open>Stop\<close>.
  What the loops of a connection do otherwise leaves its mark and its socket alone. Beside the
  server a state has the connections that are marked closed and about to be removed, and whether
  the network ever gave an accepted socket the peer address of a connection that was still
  open or about to be removed (as it may, once the peer has reset that connection).
\<close>

type_synonym ('q, 'h) serverRunState = "('q, 'h) server \<times> nat list \<times> bool"

definition liveConns :: "('q, 'h) server \<Rightarrow> nat list \<Rightarrow> nat set" where
  "liveConns sv lv = openConns sv \<union> set lv"

definition reusesPeer :: "acceptResult \<Rightarrow> ('q, 'h) server \<Rightarrow> nat list \<Rightarrow> bool" where
  "reusesPeer ev sv lv \<longleftrightarrow> (\<exists>a \<in> liveConns sv lv. ev = Accepted (peerAt sv a))"

inductive serverStep :: "('q, 'h) serverRunState \<Rightarrow> ('q, 'h) serverRunState \<Rightarrow> bool" where
  Listen: "svCloseNotify sv = ChanNil \<Longrightarrow> serverStep (sv, lv, ru) (Server_Serve tls sv, lv, ru)"
| Poll: "svAccept sv = Polling \<Longrightarrow> serverStep (sv, lv, ru) (servePoll sv, lv, ru)"
| Accept: "svAccept sv = InAccept \<Longrightarrow> serveAccept ev q sv = Returned sv1 \<Longrightarrow>
    serverStep (sv, lv, ru) (sv1, lv, ru \<or> reusesPeer ev sv lv)"
| MarkConn: "a \<in> openConns sv \<Longrightarrow> serverStep (sv, lv, ru) (Server_markConn a sv, a # lv, ru)"
| LeaveConn: "a \<in> set lv \<Longrightarrow>
    serverStep (sv, lv, ru) (Server_leaveConn a err sv, remove1 a lv, ru)"
| FinishConn: "a < length (svConns sv) \<Longrightarrow> a \<notin> liveConns sv lv \<Longrightarrow>
    serverStep (sv, lv, ru) (Server_finishConn a sv, lv, ru)"
| ConnWork: "a < length (svConns sv) \<Longrightarrow> cnClosedMark c = cnClosedMark (connAt sv a) \<Longrightarrow>
    cnTcpOpen c = cnTcpOpen (connAt sv a) \<Longrightarrow>
    serverStep (sv, lv, ru) (sv\<lparr>svConns := (svConns sv)[a := (peerAt sv a, c)], svOwner := ow\<rparr>, lv, ru)"
| StopServer: "Server_Stop err sv = Returned sv1 \<Longrightarrow> serverStep (sv, lv, ru) (sv1, lv, ru)"

definition serverStart :: "('q, 'h) server \<Rightarrow> bool" where
  "serverStart sv \<longleftrightarrow>
     (\<exists>(parse :: string \<Rightarrow> gerr + unit) self config addr f. sv = NewServer parse self config addr f)"

definition connStart :: "('q, 'h) serverRunState \<Rightarrow> bool" where
  "connStart = (\<lambda>(sv, lv, ru). serverStart sv \<and> lv = [] \<and> \<not> ru)"

text \<open>
  The dictionary holds live connections (open or about to be removed) under the addresses of
  their peers, at most as many as the configuration allows; as long as no address was reused, it
  holds until \<open>Stop\<close> all of them, with open sockets.
\<close>

definition serverInv :: "('q, 'h) serverRunState \<Rightarrow> bool" where
  "serverInv = (\<lambda>(sv, lv, ru).
     distinct (map fst (svConnections sv)) \<and>
     (\<forall>(addr, a) \<in> set (svConnections sv). a \<in> liveConns sv lv \<and> peerAt sv a = addr) \<and>
     int (length (svConnections sv)) \<le> sint (scMaxConnections (svConfig sv)) \<and>
     distinct lv \<and> (\<forall>a \<in> set lv. a < length (svConns sv) \<and> cnClosedMark (connAt sv a)) \<and>
     (\<not> ru \<and> svCloseNotify sv \<noteq> ChanClosed \<longrightarrow>
       (\<forall>a \<in> liveConns sv lv. (peerAt sv a, a) \<in> set (svConnections sv) \<and> cnTcpOpen (connAt sv a))))"

lemma RegisterHandler_frame [simp]:
  "svConfig (fst (Server_RegisterHandler parse path h f sv)) = svConfig sv"
  "svConns (fst (Server_RegisterHandler parse path h f sv)) = svConns sv"
  "svConnections (fst (Server_RegisterHandler parse path h f sv)) = svConnections sv"
  "svCloseNotify (fst (Server_RegisterHandler parse path h f sv)) = svCloseNotify sv"
  "svAccept (fst (Server_RegisterHandler parse path h f sv)) = svAccept sv"
  by (simp_all add: Server_RegisterHandler_def Let_def split: prod.split)

lemma NewServer_frame:
  "svConns (NewServer parse self config addr f) = []"
  "svConnections (NewServer parse self config addr f) = []"
  "svCloseNotify (NewServer parse self config addr f) = ChanNil"
  "svAccept (NewServer parse self config addr f) = NotServing"
  "0 < sint (scMaxConnections (svConfig (NewServer parse self config addr f)))"
proof -
  have "0 < sint (1000 :: i64)" by simp
  then show "0 < sint (scMaxConnections (svConfig (NewServer parse self config addr f)))"
    by (simp add: NewServer_def systemPaths_def orDefault_pos del: One_nat_def)
qed (simp_all add: NewServer_def systemPaths_def)

lemma serverInv_start: "connStart st \<Longrightarrow> serverInv st"
  unfolding connStart_def serverStart_def
  by (cases st) (auto simp: serverInv_def liveConns_def openConns_def NewServer_frame less_imp_le)

lemma update_entries:
  assumes "distinct (map fst xs)"
  shows "set (AList.update k v xs) = insert (k, v) {(x, a) \<in> set xs. x \<noteq> k}"
proof -
  have "distinct (map fst (AList.update k v xs))" using assms by (rule distinct_update)
  then have "p \<in> set (AList.update k v xs) \<longleftrightarrow> map_of (AList.update k v xs) (fst p) = Some (snd p)" for p
    by (cases p) simp
  then show ?thesis using assms by (auto simp: update_conv' split: if_splits)
qed

lemma serverInv_cong:
  assumes "svConns sv1 = svConns sv" "svConnections sv1 = svConnections sv"
    "svConfig sv1 = svConfig sv" "svCloseNotify sv1 \<noteq> ChanClosed \<Longrightarrow> svCloseNotify sv \<noteq> ChanClosed"
  shows "serverInv (sv, lv, ru) \<Longrightarrow> serverInv (sv1, lv, ru)"
  using assms by (auto simp: serverInv_def liveConns_def openConns_def connAt_def peerAt_def)

lemma live_length: "serverInv (sv, lv, ru) \<Longrightarrow> a \<in> liveConns sv lv \<Longrightarrow> a < length (svConns sv)"
  by (auto simp: serverInv_def liveConns_def openConns_def)

lemma NewConnection_server:
  assumes "NewConnection False True ow RoleServer cap q = Inr c"
  shows "\<not> cnClosedMark c" "cnTcpOpen c"
  using assms NewConnection_Inr [OF assms]
  by (auto simp: NewConnection_def newChannel_def enterChannel_def Let_def split: if_splits)

lemma serverInv_enter:
  assumes inv: "serverInv (sv, lv, ru)"
    and room: "int (length (svConnections sv)) < sint (scMaxConnections (svConfig sv))"
  shows "serverInv (fst (Server_enterConn addr q sv), lv, ru \<or> reusesPeer (Accepted addr) sv lv)"
proof (cases "NewConnection False True (svOwner sv) RoleServer (unat (scTcpWriteQueueLen (svConfig sv))) q")
  case (Inl e)
  then show ?thesis using inv by (auto simp: Server_enterConn_def serverInv_def)
next
  case (Inr c)
  note c = NewConnection_server [OF Inr]
  let ?c = "c\<lparr>cnCtx := SetCtxData (cnCtx c) CtxServer (Some CvServer)\<rparr>"
  let ?n = "length (svConns sv)"
  let ?sv = "sv\<lparr>svConns := svConns sv @ [(addr, ?c)],
    svConnections := AList.update addr ?n (svConnections sv)\<rparr>"
  have fst_sv: "fst (Server_enterConn addr q sv) = ?sv"
    using Inr by (simp add: Server_enterConn_def Let_def)
  have old: "connAt ?sv a = connAt sv a" "peerAt ?sv a = peerAt sv a" if "a < ?n" for a
    using that by (simp_all add: connAt_def peerAt_def nth_append)
  have new: "connAt ?sv ?n = ?c" "peerAt ?sv ?n = addr"
    by (simp_all add: connAt_def peerAt_def)
  have "openConns ?sv = insert ?n (openConns sv)"
    using old new c by (auto simp: openConns_def less_Suc_eq)
  then have live: "liveConns ?sv lv = insert ?n (liveConns sv lv)" by (simp add: liveConns_def)
  note bounded = live_length [OF inv]
  have dis: "distinct (map fst (svConnections sv))" using inv by (simp add: serverInv_def)
  note entries = update_entries [OF dis, of addr ?n]
  note len = length_update_le [of addr ?n "svConnections sv"]
  have lv: "\<forall>a \<in> set lv. a < length (svConns ?sv) \<and> cnClosedMark (connAt ?sv a)" "distinct lv"
    using inv old by (auto simp: serverInv_def)
  have all: "(peerAt ?sv a, a) \<in> set (svConnections ?sv) \<and> cnTcpOpen (connAt ?sv a)"
    if run: "\<not> ru" "\<not> reusesPeer (Accepted addr) sv lv" "svCloseNotify sv \<noteq> ChanClosed"
      and a: "a \<in> liveConns ?sv lv" for a
  proof (cases "a = ?n")
    case True
    then show ?thesis using new c entries by simp
  next
    case False
    with a live have a: "a \<in> liveConns sv lv" by simp
    with inv run have "(peerAt sv a, a) \<in> set (svConnections sv)" "cnTcpOpen (connAt sv a)"
      by (auto simp: serverInv_def)
    moreover have "peerAt sv a \<noteq> addr" using run(2) a by (auto simp: reusesPeer_def)
    ultimately show ?thesis using old [OF bounded [OF a]] entries by simp
  qed
  have "case p of (x, a) \<Rightarrow> a \<in> liveConns ?sv lv \<and> peerAt ?sv a = x"
    if "p \<in> set (svConnections ?sv)" for p
  proof -
    from that have "p = (addr, ?n) \<or> p \<in> set (svConnections sv)" using entries by auto
    then show ?thesis using inv old new bounded unfolding live by (auto simp: serverInv_def)
  qed
  moreover have "distinct (map fst (svConnections ?sv))" using dis by (simp add: distinct_update)
  moreover have "int (length (svConnections ?sv)) \<le> sint (scMaxConnections (svConfig ?sv))"
    using len room by simp
  ultimately show ?thesis unfolding fst_sv serverInv_def prod.case using lv all by auto
qed

lemma updConn_at:
  assumes "a < length (svConns sv)"
  shows "connAt (Server_updConn a f sv) b = (if b = a then f (connAt sv a) else connAt sv b)"
    and "peerAt (Server_updConn a f sv) b = peerAt sv b"
    and "length (svConns (Server_updConn a f sv)) = length (svConns sv)"
  using assms by (simp_all add: Server_updConn_def connAt_def peerAt_def nth_list_update)

lemma updConn_frame [simp]:
  "svConnections (Server_updConn a f sv) = svConnections sv" "svConfig (Server_updConn a f sv) = svConfig sv"
  "svCloseNotify (Server_updConn a f sv) = svCloseNotify sv" "svAccept (Server_updConn a f sv) = svAccept sv"
  "svOwner (Server_updConn a f sv) = svOwner sv"
  by (simp_all add: Server_updConn_def)

text \<open>Work on a connection that leaves its mark alone, and its socket when it is live.\<close>

lemma serverInv_upd:
  assumes inv: "serverInv (sv, lv, ru)" and a: "a < length (svConns sv)"
    and f: "cnClosedMark (f (connAt sv a)) = cnClosedMark (connAt sv a)"
      "a \<in> liveConns sv lv \<Longrightarrow> cnTcpOpen (f (connAt sv a)) = cnTcpOpen (connAt sv a)"
  shows "serverInv (Server_updConn a f sv, lv, ru)"
proof -
  note at = updConn_at [OF a, of f]
  have live: "liveConns (Server_updConn a f sv) lv = liveConns sv lv"
    using f(1) by (auto simp: liveConns_def openConns_def at)
  have "cnTcpOpen (connAt (Server_updConn a f sv) b)" if "b \<in> liveConns sv lv" "cnTcpOpen (connAt sv b)" for b
    using that f(2) by (auto simp: at)
  then show ?thesis using inv f(1) by (auto simp: serverInv_def live at)
qed

lemma serverInv_mark:
  assumes inv: "serverInv (sv, lv, ru)" and a: "a \<in> openConns sv"
  shows "serverInv (Server_markConn a sv, a # lv, ru)"
proof -
  from a have al: "a < length (svConns sv)" "\<not> cnClosedMark (connAt sv a)" by (auto simp: openConns_def)
  note at = updConn_at [OF al(1), of Connection_mark, folded Server_markConn_def]
  have live: "liveConns (Server_markConn a sv) (a # lv) = liveConns sv lv"
    using a by (auto simp: liveConns_def openConns_def at Connection_mark_def)
  have "a \<notin> set lv" using inv al by (auto simp: serverInv_def)
  moreover have "cnTcpOpen (connAt (Server_markConn a sv) b) = cnTcpOpen (connAt sv b)" for b
    by (simp add: at Connection_mark_def)
  moreover have "svConnections (Server_markConn a sv) = svConnections sv"
    "svConfig (Server_markConn a sv) = svConfig sv" "svCloseNotify (Server_markConn a sv) = svCloseNotify sv"
    by (simp_all add: Server_markConn_def)
  moreover have "\<forall>b \<in> set (a # lv). b < length (svConns (Server_markConn a sv)) \<and>
      cnClosedMark (connAt (Server_markConn a sv) b)"
    using inv al by (auto simp: serverInv_def at Connection_mark_def)
  ultimately show ?thesis using inv by (simp add: serverInv_def live at)
qed

lemma serverInv_leave:
  assumes inv: "serverInv (sv, lv, ru)" and a: "a \<in> set lv"
  shows "serverInv (Server_leaveConn a err sv, remove1 a lv, ru)"
proof -
  let ?u = "Server_updConn a (Connection_leave err) sv" and ?t = "Server_leaveConn a err sv"
  from inv a have al: "a < length (svConns sv)" "cnClosedMark (connAt sv a)" by (auto simp: serverInv_def)
  have "serverInv (?u, lv, ru)"
    by (rule serverInv_upd [OF inv al(1)]) (simp_all add: Connection_leave_def)
  note u = this [unfolded serverInv_def prod.case]
  have t: "connAt ?t = connAt ?u" "peerAt ?t = peerAt ?u" "svConns ?t = svConns ?u"
    "svConnections ?t = AList.delete (peerAt ?u a) (svConnections ?u)" "svConfig ?t = svConfig ?u"
    "svCloseNotify ?t = svCloseNotify ?u" "openConns ?t = openConns ?u"
    using updConn_at [OF al(1)]
    by (simp_all add: Server_leaveConn_def Server_removeConn_def connAt_def peerAt_def openConns_def fun_eq_iff)
  have closed: "cnClosedMark (connAt ?u a)" using updConn_at [OF al(1)] al(2) by (simp add: Connection_leave_def)
  have dlv: "distinct lv" using u by blast
  have live: "liveConns ?t (remove1 a lv) = liveConns ?u lv - {a}"
    using closed dlv by (auto simp: liveConns_def t openConns_def)
  have entries: "set (svConnections ?t) = {(x, b) \<in> set (svConnections ?u). x \<noteq> peerAt ?u a}"
    unfolding t by (auto simp: AList.delete_eq)
  have other: "peerAt ?u b \<noteq> peerAt ?u a"
    if "\<not> ru" "svCloseNotify ?u \<noteq> ChanClosed" "b \<in> liveConns ?u lv" "b \<noteq> a" for b
  proof
    assume "peerAt ?u b = peerAt ?u a"
    moreover have "a \<in> liveConns ?u lv" using a by (simp add: liveConns_def)
    ultimately have "(peerAt ?u a, b) \<in> set (svConnections ?u)" "(peerAt ?u a, a) \<in> set (svConnections ?u)"
      using u that by (metis)+
    then show False using u that(4) by (metis eq_key_imp_eq_value)
  qed
  have len: "length (svConnections ?t) \<le> length (svConnections ?u)" by (simp add: t AList.delete_eq)
  have "distinct (map fst (svConnections ?t))" using u by (simp add: t distinct_delete)
  moreover have "int (length (svConnections ?t)) \<le> sint (scMaxConnections (svConfig ?t))"
    using u len by (simp add: t(5))
  moreover have "\<forall>(addr, b) \<in> set (svConnections ?t). b \<in> liveConns ?u lv - {a} \<and> peerAt ?t b = addr"
    using u unfolding entries t(2) by auto
  moreover have "\<not> ru \<and> svCloseNotify ?u \<noteq> ChanClosed \<longrightarrow>
      (\<forall>b \<in> liveConns ?u lv - {a}. (peerAt ?u b, b) \<in> set (svConnections ?t) \<and> cnTcpOpen (connAt ?u b))"
    using u other unfolding entries by auto
  moreover have "\<forall>b \<in> set (remove1 a lv). b < length (svConns ?u) \<and> cnClosedMark (connAt ?u b)"
    using u dlv by auto
  ultimately show ?thesis unfolding serverInv_def prod.case live t(1,2,3,6) using dlv t(2) by simp
qed

lemma serverInv_stop:
  assumes inv: "serverInv (sv, lv, ru)" and stop: "Server_Stop err sv = Returned sv1"
  shows "serverInv (sv1, lv, ru)"
proof -
  have s: "svConnections sv1 = []" "svConfig sv1 = svConfig sv" "svCloseNotify sv1 = ChanClosed"
    "svConns sv1 = fold (\<lambda>(addr, a) cs. cs[a := apsnd closeSocket (cs ! a)]) (svConnections sv) (svConns sv)"
    using stop by (auto simp: Server_Stop_def split: if_splits)
  have "length (fold (\<lambda>(addr, a) cs. cs[a := apsnd closeSocket (cs ! a)]) xs cs) = length cs \<and>
      (\<forall>b < length cs. cnClosedMark (snd (fold (\<lambda>(addr, a) cs. cs[a := apsnd closeSocket (cs ! a)]) xs cs ! b)) =
         cnClosedMark (snd (cs ! b)))" for xs :: "(string \<times> nat) list" and cs :: "(string \<times> 'a conn) list"
  proof (induction xs arbitrary: cs)
    case (Cons x xs)
    obtain addr a where x: "x = (addr, a)" by (cases x)
    have "cnClosedMark (closeSocket d) = cnClosedMark d" for d :: "'a conn"
      by (simp add: closeSocket_def)
    then have "cnClosedMark (snd (cs[a := apsnd closeSocket (cs ! a)] ! b)) = cnClosedMark (snd (cs ! b))"
      if "b < length cs" for b
      using that by (cases "b = a") simp_all
    then show ?case using Cons [of "cs[a := apsnd closeSocket (cs ! a)]"] by (simp add: x)
  qed simp
  then have "\<forall>a \<in> set lv. a < length (svConns sv1) \<and> cnClosedMark (connAt sv1 a)"
    using inv unfolding s(4) connAt_def by (auto simp: serverInv_def connAt_def)
  then show ?thesis using inv s(1-3) by (simp add: serverInv_def)
qed

lemma serverInv_weaken: "serverInv (sv, lv, ru) \<Longrightarrow> serverInv (sv, lv, ru \<or> b)"
  by (auto simp: serverInv_def)

lemma serverInv_accept:
  assumes inv: "serverInv (sv, lv, ru)" and acc: "serveAccept ev q sv = Returned sv1"
  shows "serverInv (sv1, lv, ru \<or> reusesPeer ev sv lv)"
proof -
  let ?ru = "ru \<or> reusesPeer ev sv lv"
  have acc_inv: "serverInv (fst (Server_acceptConn ev q sv), lv, ?ru)"
  proof (cases ev)
    case (Accepted addr)
    then show ?thesis
      using serverInv_enter [OF inv, of addr q] serverInv_weaken [OF inv]
      by (simp add: Server_acceptConn_def split_def Let_def)
  qed (use serverInv_weaken [OF inv] in \<open>simp_all add: Server_acceptConn_def\<close>)
  obtain sv2 r where acc2: "Server_acceptConn ev q sv = (sv2, r)" by (rule prod.exhaust)
  with acc_inv have inv2: "serverInv (sv2, lv, ?ru)" by simp
  have pos: "serverInv (s\<lparr>svAccept := p\<rparr>, lv, ?ru)" if "serverInv (s, lv, ?ru)" for s :: "('a, 'b) server" and p
    using that by (rule serverInv_cong [rotated -1]) simp_all
  show ?thesis
  proof (cases r)
    case None
    then show ?thesis using acc acc2 inv2 by (simp add: serveAccept_def)
  next
    case (Some res)
    show ?thesis
    proof (cases res)
      case (Inr a)
      then show ?thesis using acc acc2 Some pos [OF inv2] by (auto simp: serveAccept_def)
    next
      case (Inl e)
      let ?e = "Some (TextErr (''accept connection fail, '' @ errorText e))"
      show ?thesis
      proof (cases "Server_Stop ?e sv2")
        case (Returned sv3)
        have "serverInv (sv3, lv, ?ru)" by (rule serverInv_stop [OF inv2 Returned])
        then show ?thesis using acc acc2 Some Inl Returned pos by (auto simp: serveAccept_def)
      next
        case Panicked
        then show ?thesis using acc acc2 Some Inl by (simp add: serveAccept_def)
      qed
    qed
  qed
qed

lemma serverInv_work:
  assumes inv: "serverInv (sv, lv, ru)" and a: "a < length (svConns sv)"
    and c: "cnClosedMark c = cnClosedMark (connAt sv a)" "cnTcpOpen c = cnTcpOpen (connAt sv a)"
  shows "serverInv (sv\<lparr>svConns := (svConns sv)[a := (peerAt sv a, c)], svOwner := ow\<rparr>, lv, ru)"
proof -
  have "apsnd (\<lambda>_. c) (svConns sv ! a) = (peerAt sv a, c)"
    by (cases "svConns sv ! a") (simp add: peerAt_def)
  then have e: "svConns (Server_updConn a (\<lambda>_. c) sv) = (svConns sv)[a := (peerAt sv a, c)]"
    by (simp add: Server_updConn_def)
  have "serverInv (Server_updConn a (\<lambda>_. c) sv, lv, ru)"
    by (rule serverInv_upd [OF inv a]) (simp_all add: c)
  then show ?thesis
  proof (rule serverInv_cong [rotated -1])
  qed (simp_all add: e)
qed

lemma Connection_rest_mark: "cnClosedMark (Connection_rest c) = cnClosedMark c"
  unfolding Connection_rest_def Connection_finish_def closeAll_def [symmetric] by simp

interpretation server_conns: invariant_of connStart serverStep serverInv
proof
  fix s t :: "('q, 'h) serverRunState"
  show "connStart s \<Longrightarrow> serverInv s" by (rule serverInv_start)
  assume inv: "serverInv s" and "serverStep s t"
  from this(2) inv show "serverInv t"
  proof cases
    case (Listen sv lv ru tls)
    show ?thesis
      unfolding Listen Server_Serve_def using inv [unfolded Listen]
      by (rule serverInv_cong [rotated -1]) (simp_all add: Listen)
  next
    case (Poll sv lv ru)
    show ?thesis
      unfolding Poll servePoll_def using inv [unfolded Poll]
      by (rule serverInv_cong [rotated -1]) simp_all
  next
    case (FinishConn a sv lv ru)
    then show ?thesis unfolding FinishConn Server_finishConn_def using inv [unfolded FinishConn]
      by (intro serverInv_upd) (simp_all add: Connection_rest_mark)
  qed (auto intro: serverInv_accept serverInv_mark serverInv_leave serverInv_work serverInv_stop)
qed

section \<open>Properties of connections\<close>

text \<open>C25: However the goroutine that accepts, the closings of connections (mark, removal by the
  address of the peer, rest) and \<open>Stop\<close> interleave, the server has never more connections than
  configured in its dictionary, each under the address of its peer and each open or about to be
  removed. As long as no accepted socket had the address of a connection that was still open or about
  to be removed, the dictionary holds until \<open>Stop\<close> exactly these connections, with open
  sockets.\<close>

theorem server_connections_exact:
  assumes "reach connStart serverStep (sv, lv, reused)"
  shows "int (length (svConnections sv)) \<le> sint (scMaxConnections (svConfig sv)) \<and>
    distinct (map fst (svConnections sv)) \<and>
    (\<forall>(addr, a) \<in> set (svConnections sv). a \<in> openConns sv \<union> set lv \<and> peerAt sv a = addr) \<and>
    (\<not> reused \<and> svCloseNotify sv \<noteq> ChanClosed \<longrightarrow>
      set (svConnections sv) = (\<lambda>a. (peerAt sv a, a)) ` (openConns sv \<union> set lv) \<and>
      (\<forall>a \<in> openConns sv \<union> set lv. cnTcpOpen (connAt sv a)))"
  using server_conns.reach_inv [OF assms] unfolding serverInv_def liveConns_def by fastforce

definition urlAny :: "string \<Rightarrow> gerr + unit" where
  "urlAny s = Inr ()"

definition zeroServerConfig :: serverConfig where
  "zeroServerConfig = \<lparr>scMaxConnections = 0, scMaxChannelsPerConn = 0, scChannelPacketQueueLen = 0,
     scTcpWriteQueueLen = 0, scTcpReadBufferSize = 0, scTcpWriteBufferSize = 0\<rparr>"

definition listening :: "(unit, nat) server" where
  "listening = servePoll (Server_Serve False (NewServer urlAny 0 zeroServerConfig '':9090'' None))"

definition oneConnServer :: "(unit, nat) server" where
  "oneConnServer = (case serveAccept (Accepted ''10.0.0.1:40000'') () listening of
     Returned sv \<Rightarrow> sv | Panicked \<Rightarrow> listening)"

lemma listening_reach: "reach connStart serverStep (listening, [], False)"
proof -
  let ?sv = "NewServer urlAny 0 zeroServerConfig '':9090'' None :: (unit, nat) server"
  have "serverStart ?sv" unfolding serverStart_def by blast
  then have "reach connStart serverStep (?sv, [], False)"
    by (intro reach_start) (simp add: connStart_def)
  moreover have "serverStep (?sv, [], False) (Server_Serve False ?sv, [], False)"
    by (rule Listen) (simp add: NewServer_frame)
  ultimately have "reach connStart serverStep (Server_Serve False ?sv, [], False)" by (rule reach_step)
  moreover have "serverStep (Server_Serve False ?sv, [], False) (servePoll (Server_Serve False ?sv), [], False)"
    by (rule Poll) (simp add: Server_Serve_def)
  ultimately show ?thesis unfolding listening_def by (rule reach_step)
qed

lemma listening_simps: "svConns listening = []" "svConnections listening = []"
  "svAccept listening = InAccept" "svCloseNotify listening = ChanOpen"
  "0 < sint (scMaxConnections (svConfig listening))"
  using NewServer_frame [of urlAny 0 zeroServerConfig "'':9090''" None]
  by (simp_all add: listening_def servePoll_def Server_Serve_def)

lemma oneConn_accepted:
  "serveAccept (Accepted ''10.0.0.1:40000'') () listening = Returned oneConnServer"
  "svConnections oneConnServer = [(''10.0.0.1:40000'', 0)]" "svCloseNotify oneConnServer = ChanOpen"
proof -
  obtain c where "NewConnection False True (svOwner listening) RoleServer
      (unat (scTcpWriteQueueLen (svConfig listening))) () = Inr c"
    by (simp add: NewConnection_def)
  then show "serveAccept (Accepted ''10.0.0.1:40000'') () listening = Returned oneConnServer"
    "svConnections oneConnServer = [(''10.0.0.1:40000'', 0)]" "svCloseNotify oneConnServer = ChanOpen"
    using listening_simps
    by (simp_all add: oneConnServer_def serveAccept_def Server_acceptConn_def Server_enterConn_def Let_def)
qed

lemma oneConnServer_reach: "reach connStart serverStep (oneConnServer, [], False)"
proof -
  have "serverStep (listening, [], False) (oneConnServer, [], False)"
    using Accept [OF listening_simps(3) oneConn_accepted(1), of "[]" False]
    by (simp add: reusesPeer_def liveConns_def openConns_def listening_simps)
  with listening_reach show ?thesis by (rule reach_step)
qed

theorem server_connections_exact_witness:
  "distinct (map fst (svConnections oneConnServer)) \<and>
   (\<lambda>a. (peerAt oneConnServer a, a)) ` openConns oneConnServer = {(''10.0.0.1:40000'', 0)}"
  using server_connections_exact [OF oneConnServer_reach] oneConn_accepted(2,3) by simp

text \<open>
  Without the condition: when a peer whose connection is marked closed, but not removed yet,
  connects again from the same address, the removal takes the new connection out of the dictionary,
  which stays open, unknown to \<open>Stop\<close> and to the limit.
\<close>

theorem server_reused_address_lost:
  "\<exists>sv :: (unit, nat) server. reach connStart serverStep (sv, [], True) \<and> svCloseNotify sv = ChanOpen \<and>
     1 \<in> openConns sv \<and> cnTcpOpen (connAt sv 1) \<and> svConnections sv = []"
proof -
  let ?addr = "''10.0.0.1:40000''"
  let ?m = "Server_markConn 0 (servePoll oneConnServer)"
  obtain c where c: "NewConnection False True (svOwner listening) RoleServer
      (unat (scTcpWriteQueueLen (svConfig listening))) () = Inr c"
    by (simp add: NewConnection_def)
  note nc = NewConnection_server [OF c]
  have one: "svConns oneConnServer = [(?addr, c\<lparr>cnCtx := SetCtxData (cnCtx c) CtxServer (Some CvServer)\<rparr>)]"
    "svAccept oneConnServer = Polling" "svConfig oneConnServer = svConfig listening"
    "svOwner oneConnServer = svOwner listening"
    using listening_simps c
    by (simp_all add: oneConnServer_def serveAccept_def Server_acceptConn_def Server_enterConn_def Let_def)
  have p: "svConns (servePoll oneConnServer) = svConns oneConnServer" "svAccept (servePoll oneConnServer) = InAccept"
    "svConnections (servePoll oneConnServer) = [(?addr, 0)]" "svCloseNotify (servePoll oneConnServer) = ChanOpen"
    "svConfig (servePoll oneConnServer) = svConfig listening" "svOwner (servePoll oneConnServer) = svOwner listening"
    using oneConn_accepted one by (simp_all add: servePoll_def)
  have r1: "reach connStart serverStep (servePoll oneConnServer, [], False)"
    using oneConnServer_reach by (rule reach_step) (rule Poll, rule one(2))
  have "0 \<in> openConns (servePoll oneConnServer)" using p one nc by (simp add: openConns_def connAt_def)
  from reach_step [OF r1 MarkConn [OF this]] have r2: "reach connStart serverStep (?m, [0], False)" .
  have m: "svConns ?m = [(?addr, Connection_mark (c\<lparr>cnCtx := SetCtxData (cnCtx c) CtxServer (Some CvServer)\<rparr>))]"
    "svConnections ?m = [(?addr, 0)]" "svAccept ?m = InAccept" "svCloseNotify ?m = ChanOpen"
    "svConfig ?m = svConfig listening" "svOwner ?m = svOwner listening"
    using p one by (simp_all add: Server_markConn_def) (simp_all add: Server_updConn_def)
  have max: "scMaxConnections (svConfig listening) = 1000"
    by (simp add: listening_def servePoll_def Server_Serve_def NewServer_def systemPaths_def
        zeroServerConfig_def orDefault_def)
  obtain sv2 where acc: "serveAccept (Accepted ?addr) () ?m = Returned sv2" and sv2:
    "svConns sv2 = svConns ?m @ [(?addr, c\<lparr>cnCtx := SetCtxData (cnCtx c) CtxServer (Some CvServer)\<rparr>)]"
    "svConnections sv2 = [(?addr, 1)]" "svCloseNotify sv2 = ChanOpen"
    using m c max by (simp add: serveAccept_def Server_acceptConn_def Server_enterConn_def Let_def)
  have "reusesPeer (Accepted ?addr) ?m [0]"
    using m by (auto simp: reusesPeer_def liveConns_def peerAt_def)
  with Accept [OF m(3) acc, of "[0]" False] r2 have r3: "reach connStart serverStep (sv2, [0], True)"
    by (auto intro: reach_step)
  let ?t = "Server_leaveConn 0 None sv2"
  from r3 have "reach connStart serverStep (?t, [], True)"
    by (rule reach_step) (use LeaveConn [of 0 "[0]" sv2 True None] in simp)
  moreover have "svCloseNotify ?t = ChanOpen" "svConnections ?t = []" "connAt ?t 1 = c\<lparr>cnCtx := SetCtxData (cnCtx c) CtxServer (Some CvServer)\<rparr>"
    "length (svConns ?t) = 2"
    using sv2 m by (simp_all add: Server_leaveConn_def Server_removeConn_def connAt_def) (simp_all add: Server_updConn_def)
  moreover from this nc have "1 \<in> openConns ?t" "cnTcpOpen (connAt ?t 1)" by (simp_all add: openConns_def)
  ultimately show ?thesis by blast
qed

text \<open>C26: \<open>Stop\<close> cannot be called on a serving server without crashing the program: it closes the
  listener, so that the \<open>Accept\<close> in which the goroutine of \<open>Serve\<close> waits fails, and the goroutine
  calls \<open>Stop\<close> again, which closes a closed channel and panics. The same happens to a caller of
  \<open>Stop\<close> after a failed \<open>Accept\<close> stopped the server.\<close>

theorem Stop_crashes:
  assumes "svAccept sv = InAccept" and "Server_Stop err sv = Returned sv1"
  shows "svListener sv1 = Some False \<and> svAccept sv1 = InAccept \<and>
    serveAccept (AcceptFails e) q sv1 = Panicked \<and>
    serveAccept AcceptTemporary q sv1 = Returned sv1 \<and> Server_Stop err' sv1 = Panicked \<and>
    (\<exists>sv2. serveAccept (AcceptFails e) q sv = Returned sv2 \<and> Server_Stop err' sv2 = Panicked)"
proof -
  from assms(2) have "svCloseNotify sv = ChanOpen"
    by (auto simp: Server_Stop_def split: if_splits)
  with assms show ?thesis
    by (auto simp: Server_Stop_def serveAccept_def Server_acceptConn_def)
qed

theorem Stop_crashes_witness:
  "\<exists>sv1. Server_Stop None listening = Returned sv1 \<and>
     serveAccept (AcceptFails (TextErr ''use of closed network connection'')) () sv1 = Panicked"
proof -
  obtain sv1 where "Server_Stop None listening = Returned sv1"
    by (simp add: Server_Stop_def listening_simps)
  with Stop_crashes [OF listening_simps(3) this] show ?thesis by blast
qed

section \<open>Counters of the server\<close>

definition sumCount :: "(string \<times> count) list \<Rightarrow> count" where
  "sumCount xs = foldr (\<lambda>(p, c). Count_Add c) xs zeroCount"

definition sumRequests :: "(string \<times> measure) list \<Rightarrow> i64" where
  "sumRequests xs = sum_list (map (\<lambda>(p, m). AllRequests m) xs)"

text \<open>What the loops of connections, and the application before it serves, do to the counters.\<close>

inductive statStep :: "('q, 'h) server \<Rightarrow> ('q, 'h) server \<Rightarrow> bool" where
  AddCountStep: "statStep sv (sv\<lparr>svOwner := Server_AddCount path cnt (svOwner sv)\<rparr>)"
| AddMeasureStep: "statStep sv (sv\<lparr>svOwner := Server_AddMeasure path n d (svOwner sv)\<rparr>)"
| RegisterStep: "path \<notin> set (map fst (owPathCount (svOwner sv))) \<Longrightarrow>
    statStep sv (fst (Server_RegisterHandler (parse :: string \<Rightarrow> gerr + unit) path h f sv))"
| UnRegisterStep: "statStep sv (Server_UnRegisterHandler path sv)"

definition statInv :: "('q, 'h) server \<Rightarrow> bool" where
  "statInv sv \<longleftrightarrow> (let ow = svOwner sv in
     map fst (owPathCount ow) = map fst (owPathMeasure ow) \<and> distinct (map fst (owPathCount ow)) \<and>
     owCount ow = sumCount (owPathCount ow) \<and>
     AllRequests (owMeasure ow) = sumRequests (owPathMeasure ow))"

lemma Count_Add_zero [simp]: "Count_Add c zeroCount = c" "Count_Add zeroCount c = c"
  by (simp_all add: Count_Add_def zeroCount_def)

lemma Count_Add_ac: "Count_Add a b = Count_Add b a"
  "Count_Add (Count_Add a b) c = Count_Add a (Count_Add b c)"
  by (simp_all add: Count_Add_def add_ac)

lemma sumCount_simps [simp]:
  "sumCount [] = zeroCount" "sumCount ((p, c) # xs) = Count_Add c (sumCount xs)"
  by (simp_all add: sumCount_def)

lemma sumCount_update:
  "map_of xs p = Some c \<Longrightarrow>
    sumCount (AList.update p (Count_Add c k) xs) = Count_Add (sumCount xs) k"
proof (induction xs)
  case (Cons x xs)
  then show ?case by (cases x) (auto simp: Count_Add_ac(2) Count_Add_ac(1) [of k] split: if_splits)
qed simp

lemma update_fresh: "p \<notin> set (map fst xs) \<Longrightarrow> AList.update p v xs = xs @ [(p, v)]"
  by (induction xs) auto

lemma sumCount_append: "sumCount (xs @ [(p, zeroCount)]) = sumCount xs"
  by (induction xs) (auto simp: sumCount_def)

lemma sumRequests_update:
  "map_of xs p = Some m \<Longrightarrow> sumRequests (AList.update p (Measure_Add m n d) xs) = sumRequests xs + n"
proof (induction xs)
  case (Cons x xs)
  then show ?case
    by (cases x) (auto simp: sumRequests_def Measure_Add_def Let_def add_ac split: if_splits)
qed simp

lemma update_keys_same: "map_of xs p = Some v \<Longrightarrow> map fst (AList.update p w xs) = map fst xs"
  by (induction xs) (auto split: if_splits)

lemma statInv_step:
  assumes "statInv sv" "statStep sv sv1"
  shows "statInv sv1"
  using assms(2,1)
proof cases
  case (AddCountStep path cnt)
  then show ?thesis
    using assms(1)
    by (auto simp: statInv_def Server_AddCount_def Let_def update_keys_same sumCount_update
        split: option.split)
next
  case (AddMeasureStep path n d)
  then show ?thesis
    using assms(1)
    by (auto simp: statInv_def Server_AddMeasure_def Let_def update_keys_same sumRequests_update
        Measure_Add_def [of "owMeasure ow" for ow] split: option.split)
next
  case (RegisterStep path parse h f)
  then have "path \<notin> set (map fst (owPathMeasure (svOwner sv)))"
    using assms(1) unfolding statInv_def Let_def by argo
  then show ?thesis
    using assms(1) RegisterStep
    by (auto simp: statInv_def Server_RegisterHandler_def Let_def update_fresh sumCount_append
        sumRequests_def NewMesure_def split_def)
next
  case (UnRegisterStep path)
  then have "svOwner sv1 = svOwner sv" by (simp add: Server_UnRegisterHandler_def)
  with assms(1) show ?thesis by (simp only: statInv_def)
qed

lemma NewServer_owner:
  fixes parse :: "string \<Rightarrow> gerr + unit"
  shows "svOwner (NewServer parse self config addr f) =
    \<lparr>owCount = zeroCount, owMeasure = NewMesure f, owPathCount = map (\<lambda>p. (p, zeroCount)) systemPaths,
     owPathMeasure = map (\<lambda>p. (p, NewMesure (Some EnsureTimeRangeMicroSecond))) systemPaths\<rparr>"
  by (simp add: NewServer_def systemPaths_def Server_RegisterHandler_def Let_def split_def
      PathServerCountJson_def PathServerMeasureJson_def PathServerPathCountJson_def
      PathServerPathMeasureJson_def PathServerStatis_def PathServerConnectionStatis_def)

lemma statInv_start: "serverStart sv \<Longrightarrow> statInv sv"
  unfolding serverStart_def
  by (elim exE) (simp add: statInv_def NewServer_owner systemPaths_def NewMesure_def sumRequests_def
      PathServerCountJson_def PathServerMeasureJson_def PathServerPathCountJson_def
      PathServerPathMeasureJson_def PathServerStatis_def PathServerConnectionStatis_def)

interpretation server_stats: invariant_of serverStart statStep statInv
  by unfold_locales (auto intro: statInv_start statInv_step)

text \<open>C27: As long as no path is registered twice, the total counter of a server is the sum of the
  counters of its paths and its total number of requests the sum over the paths, whatever was
  counted: what is counted for a path that was never registered, a path with a query for
  example, goes to neither.\<close>

theorem server_counts_conserved:
  assumes "reach serverStart statStep sv"
  shows "owCount (svOwner sv) = sumCount (owPathCount (svOwner sv)) \<and>
    AllRequests (owMeasure (svOwner sv)) = sumRequests (owPathMeasure (svOwner sv)) \<and>
    (map_of (owPathCount (svOwner sv)) path = None \<longrightarrow>
       Server_AddCount path cnt (svOwner sv) = svOwner sv)"
  using server_stats.reach_inv [OF assms] by (simp add: statInv_def Let_def Server_AddCount_def)

definition countedServer :: "(unit, nat) server" where
  "countedServer = (let sv = NewServer urlAny 0 zeroServerConfig '':9090'' None
     in sv\<lparr>svOwner := Server_AddCount PathServerStatis (zeroCount\<lparr>BytesSent := 7\<rparr>) (svOwner sv)\<rparr>)"

theorem server_counts_conserved_witness:
  "BytesSent (sumCount (owPathCount (svOwner countedServer))) = 7 \<and>
   Server_AddCount ''/echo?x=1'' (zeroCount\<lparr>BytesSent := 9\<rparr>) (svOwner countedServer) =
     svOwner countedServer"
proof -
  let ?sv = "NewServer urlAny 0 zeroServerConfig '':9090'' None :: (unit, nat) server"
  have "reach serverStart statStep ?sv" by (rule reach_start) (unfold serverStart_def, blast)
  moreover have "statStep ?sv countedServer"
    unfolding countedServer_def Let_def by (rule AddCountStep)
  ultimately have r: "reach serverStart statStep countedServer" by (rule reach_step)
  have ow: "owCount (svOwner countedServer) = zeroCount\<lparr>BytesSent := 7\<rparr> \<and>
    map_of (owPathCount (svOwner countedServer)) ''/echo?x=1'' = None"
    by (simp add: countedServer_def NewServer_owner Server_AddCount_def systemPaths_def Let_def
      PathServerCountJson_def PathServerMeasureJson_def PathServerPathCountJson_def
      PathServerPathMeasureJson_def PathServerStatis_def PathServerConnectionStatis_def
      Count_Add_def zeroCount_def)
  from server_counts_conserved [OF r, of "''/echo?x=1''" "zeroCount\<lparr>BytesSent := 9\<rparr>"]
  have "sumCount (owPathCount (svOwner countedServer)) = owCount (svOwner countedServer)"
    and "Server_AddCount ''/echo?x=1'' (zeroCount\<lparr>BytesSent := 9\<rparr>) (svOwner countedServer) =
     svOwner countedServer" using ow by simp_all
  then show ?thesis using ow by (simp add: zeroCount_def)
qed

text \<open>A registration that is refused is not without effect: the handler that serves the path
  stays, but the counter and the measure of the path start again from nothing, while the totals
  keep what was counted.\<close>

theorem refused_registration_resets:
  assumes "snd (Server_RegisterHandler parse path handler f sv) = Some e"
  shows "svHandler (fst (Server_RegisterHandler parse path handler f sv)) = svHandler sv \<and>
    map_of (owPathCount (svOwner (fst (Server_RegisterHandler parse path handler f sv)))) path =
      Some zeroCount \<and>
    map_of (owPathMeasure (svOwner (fst (Server_RegisterHandler parse path handler f sv)))) path =
      Some (NewMesure f) \<and>
    owCount (svOwner (fst (Server_RegisterHandler parse path handler f sv))) = owCount (svOwner sv)"
  using assms
  by (auto simp: Server_RegisterHandler_def server_registerHandler_def Let_def update_conv
      split: option.splits if_splits)

theorem refused_registration_resets_witness:
  "map_of (owPathCount (svOwner (fst (Server_RegisterHandler urlAny PathServerStatis None None
     countedServer)))) PathServerStatis = Some zeroCount"
proof -
  have "snd (Server_RegisterHandler urlAny PathServerStatis None None countedServer) =
      Some (TextErr ''hander is nil'')"
    by (simp add: Server_RegisterHandler_def server_registerHandler_def Let_def)
  from refused_registration_resets [OF this] show ?thesis by simp
qed

end
