(* ===== verification/Download.thy ===== *)
theory Download
  imports EndToEnd LbClient
begin

text \<open>
  The file download example: the handler of \<open>example/file_server/file_server.go\<close>, the handler and
  the requests of \<open>example/file_client/file_client.go\<close>, and the exchange they run over the library,
  one request for each piece of the file. The server's files are a function; \<open>json.Unmarshal\<close> of a
  request is the parameter \<open>unmarshal\<close>. Opening and writing the local file succeed.
\<close>

section \<open>Requests\<close>

definition PathDownloadFile :: string where "PathDownloadFile = ''/download_file''"

record downloadTask =
  dtTaskId :: i64
  dtServerFile :: string
  dtLocalFile :: string
  dtDownloadedBytes :: i64
  dtCompleted :: bool
  dtErr :: "gerr option"

record downloadRequest =
  drTaskId :: i64
  drFilePath :: string
  drStartPos :: i64

definition NewFileDownloadRequest :: "downloadTask \<Rightarrow> gerr + downloadRequest" where
  "NewFileDownloadRequest task =
     (if dtCompleted task then
        Inl (TextErr (''file downloaded completed, task id '' @ showInt (sint (dtTaskId task))))
      else Inr \<lparr>drTaskId = dtTaskId task, drFilePath = dtServerFile task,
                drStartPos = dtDownloadedBytes task\<rparr>)"

text \<open>The request data: the exported fields as JSON.\<close>

definition FileDownloadRequest_Data :: "downloadRequest \<Rightarrow> byte list" where
  "FileDownloadRequest_Data m = bytesOf (jsonObject
     [(''TaskId'', jsonInt (drTaskId m)), (''FilePath'', jsonString (drFilePath m)),
      (''DownloadStartPos'', jsonInt (drStartPos m))])"

section \<open>The server\<close>

text \<open>A name is a file or a directory, which can be opened but not read.\<close>

datatype fileNode = Regular "byte list" | Directory

definition notFound :: "string \<Rightarrow> gerr" where
  "notFound path = TextErr (''open '' @ path @ '': no such file or directory'')"

text \<open>
  \<open>Seek\<close>, whose error for a negative position is ignored, and one \<open>Read\<close> into a buffer of
  10 KiB less four bytes; at the end of a file and for a directory it gives an error.
\<close>

definition readAt :: "fileNode \<Rightarrow> i64 \<Rightarrow> byte list option" where
  "readAt node pos =
     (case node of
        Directory \<Rightarrow> None
      | Regular content \<Rightarrow>
          let rest = (if sint pos < 0 then content else drop (nat (sint pos)) content)
          in if rest = [] then None else Some (take (1024 * 10 - 4) rest))"

definition FileServer_Handle :: "(byte list \<Rightarrow> gerr + downloadRequest) \<Rightarrow> (string \<Rightarrow> fileNode option) \<Rightarrow>
    byte list \<Rightarrow> bool \<Rightarrow> byte list \<times> gerr option" where
  "FileServer_Handle unmarshal fs requestData requestDataCompleted =
     (if \<not> requestDataCompleted then ([], None)
      else case unmarshal requestData of
        Inl err \<Rightarrow> ([], Some err)
      | Inr req \<Rightarrow>
          (case fs (drFilePath req) of
             None \<Rightarrow> ([], Some (notFound (drFilePath req)))
           | Some node \<Rightarrow>
               (case readAt node (drStartPos req) of
                  None \<Rightarrow> (putUint32 1, None)
                | Some bytes \<Rightarrow> (putUint32 0 @ bytes, None))))"

section \<open>The client\<close>

text \<open>A task and the content of its local file.\<close>

record downloadState =
  dsTask :: downloadTask
  dsLocal :: "byte list"

text \<open>
  \<open>RunTask\<close> sends a request with \<open>DoStreamRequest\<close>: the request, or the error. The second result
  of the functions below is the error or, when the task goes on, the request that was sent.
\<close>

definition FileDownloadClient_RunTask :: "downloadState \<Rightarrow> gerr + downloadRequest" where
  "FileDownloadClient_RunTask st = NewFileDownloadRequest (dsTask st)"

definition unmarshalFileDownloadResponseChunk ::
    "byte list \<Rightarrow> downloadState \<Rightarrow> downloadState \<times> (gerr + downloadRequest option)" where
  "unmarshalFileDownloadResponseChunk netResponse st =
     (if length netResponse < 4 then
        let err = TextErr (''invalid response data, len: '' @ showNat (length netResponse))
        in (st\<lparr>dsTask := (dsTask st)\<lparr>dtErr := Some err\<rparr>\<rparr>, Inl err)
      else
        let completed = (getUint32 (netResponse ! 0) (netResponse ! 1) (netResponse ! 2)
                           (netResponse ! 3) = 1);
            task = (dsTask st)\<lparr>dtCompleted := completed, dtDownloadedBytes :=
                      dtDownloadedBytes (dsTask st) + word_of_nat (length netResponse - 4)\<rparr>;
            st1 = st\<lparr>dsTask := task, dsLocal := dsLocal st @ drop 4 netResponse\<rparr>
        in (st1, if completed then Inr None
                 else case FileDownloadClient_RunTask st1 of
                   Inl err \<Rightarrow> Inl err | Inr req \<Rightarrow> Inr (Some req)))"

definition FileDownloadClient_Handle ::
    "byte list \<Rightarrow> bool \<Rightarrow> downloadState \<Rightarrow> downloadState \<times> (gerr + downloadRequest option)" where
  "FileDownloadClient_Handle responseData dataCompleted st =
     (if \<not> dataCompleted then (st, Inr None)
      else unmarshalFileDownloadResponseChunk responseData st)"

section \<open>The exchange\<close>

text \<open>What the library's server answers to a whole request when the handler is registered.\<close>

definition downloadServer :: "(byte list \<Rightarrow> gerr + downloadRequest) \<Rightarrow> (string \<Rightarrow> fileNode option) \<Rightarrow>
    byte list \<Rightarrow> byte list" where
  "downloadServer unmarshal fs data =
     (case answer (\<lambda>(h::unit) path q d completed. Returned (FileServer_Handle unmarshal fs d completed))
             (Some [(PathDownloadFile, ())]) PathDownloadFile [] data True of
        Some d \<Rightarrow> d | None \<Rightarrow> [])"

text \<open>
  From a request under way, at most \<open>n\<close> exchanges: the end of the task and its error, if any, or
  \<open>None\<close> when it is still going on.
\<close>

fun downloadLoop :: "(byte list \<Rightarrow> byte list) \<Rightarrow> nat \<Rightarrow> downloadRequest \<Rightarrow> downloadState \<Rightarrow>
    (downloadState \<times> gerr option) option" where
  "downloadLoop serve 0 req st = None"
| "downloadLoop serve (Suc n) req st =
     (case FileDownloadClient_Handle (serve (FileDownloadRequest_Data req)) True st of
        (st', Inl err) \<Rightarrow> Some (st', Some err)
      | (st', Inr None) \<Rightarrow> Some (st', None)
      | (st', Inr (Some req')) \<Rightarrow> downloadLoop serve n req' st')"

definition runDownload :: "(byte list \<Rightarrow> byte list) \<Rightarrow> nat \<Rightarrow> downloadState \<Rightarrow>
    (downloadState \<times> gerr option) option" where
  "runDownload serve n st =
     (case FileDownloadClient_RunTask st of
        Inl err \<Rightarrow> Some (st, Some err)
      | Inr req \<Rightarrow> downloadLoop serve n req st)"

section \<open>One piece of the file\<close>

lemma downloadServer_eq:
  "downloadServer unmarshal fs data =
    (case FileServer_Handle unmarshal fs data True of
       (ret, Some e) \<Rightarrow> ResponseHandleFail_Data (-1) (''handler fail:'' @ errorText e)
     | (ret, None) \<Rightarrow> if ret = [] then ErrorResponse ErrHandleNoResponse else ret)"
  by (simp add: downloadServer_def answer_def ensureMap_def split: prod.split option.split)

lemma getUint32_putUint32_nth:
  "getUint32 ((putUint32 w @ bs) ! 0) ((putUint32 w @ bs) ! 1) ((putUint32 w @ bs) ! 2)
     ((putUint32 w @ bs) ! 3) = w"
  using getUint32_putUint32 [of w] by (simp add: putUint32_def numeral_2_eq_2 numeral_3_eq_3)

lemma getUint32_one: "getUint32 a b c d = 1 \<Longrightarrow> a = 0"
  using putUint32_getUint32 [of a b c d] by (simp add: putUint32_def)

text \<open>The request a task sends next, and what its answer does.\<close>

definition taskRequest :: "downloadTask \<Rightarrow> downloadRequest" where
  "taskRequest task = \<lparr>drTaskId = dtTaskId task, drFilePath = dtServerFile task,
     drStartPos = dtDownloadedBytes task\<rparr>"

lemma downloadLoop_last:
  assumes "serve (FileDownloadRequest_Data req) = putUint32 1"
  shows "downloadLoop serve (Suc n) req st =
    Some (st\<lparr>dsTask := (dsTask st)\<lparr>dtCompleted := True\<rparr>\<rparr>, None)"
  using getUint32_putUint32_nth [of 1 "[]"]
  by (simp add: assms FileDownloadClient_Handle_def unmarshalFileDownloadResponseChunk_def Let_def)

lemma downloadLoop_piece:
  assumes "serve (FileDownloadRequest_Data req) = putUint32 w @ bs" "w \<noteq> 1"
    and "st' = st\<lparr>dsTask := (dsTask st)\<lparr>dtCompleted := False,
           dtDownloadedBytes := dtDownloadedBytes (dsTask st) + word_of_nat (length bs)\<rparr>,
           dsLocal := dsLocal st @ bs\<rparr>"
  shows "downloadLoop serve (Suc n) req st = downloadLoop serve n (taskRequest (dsTask st')) st'"
  using getUint32_putUint32_nth [of w bs] assms
  by (simp add: FileDownloadClient_Handle_def unmarshalFileDownloadResponseChunk_def Let_def
      FileDownloadClient_RunTask_def NewFileDownloadRequest_def taskRequest_def)

section \<open>Properties of the exchange\<close>

text \<open>The decoder reads back the requests of a task for a file.\<close>

definition decodesTask :: "(byte list \<Rightarrow> gerr + downloadRequest) \<Rightarrow> i64 \<Rightarrow> string \<Rightarrow> nat \<Rightarrow> bool" where
  "decodesTask unmarshal i f n \<longleftrightarrow> (\<forall>k \<le> n.
     let req = \<lparr>drTaskId = i, drFilePath = f, drStartPos = word_of_nat k\<rparr>
     in unmarshal (FileDownloadRequest_Data req) = Inr req)"

lemma downloadServer_piece:
  assumes "decodesTask unmarshal i f (length content)" "fs f = Some (Regular content)"
    and "length content < 2 ^ 63" "k \<le> length content"
  shows "downloadServer unmarshal fs (FileDownloadRequest_Data
      \<lparr>drTaskId = i, drFilePath = f, drStartPos = word_of_nat k\<rparr>) =
    (if k = length content then putUint32 1 else putUint32 0 @ take 10236 (drop k content))"
proof -
  have "sint (word_of_nat k :: i64) = int k"
    using assms(3,4) by (simp add: signed_of_nat signed_take_bit_int_eq_self)
  then have pos: "\<not> sint (word_of_nat k :: i64) < 0" "nat (sint (word_of_nat k :: i64)) = k" by simp_all
  have "putUint32 w \<noteq> []" for w by (simp add: putUint32_def)
  then show ?thesis
    using assms pos by (simp add: downloadServer_eq FileServer_Handle_def decodesTask_def readAt_def Let_def)
qed

lemma take_drop_length: "take m xs @ drop (length (take m xs)) xs = xs"
  by (cases "m \<le> length xs") simp_all

lemma downloadLoop_complete:
  assumes dec: "decodesTask unmarshal (dtTaskId (dsTask st)) f (length content)"
    and fs: "fs f = Some (Regular content)" "length content < 2 ^ 63"
    and st: "dtServerFile (dsTask st) = f" "dtDownloadedBytes (dsTask st) = word_of_nat k"
      "k \<le> length content" "dtErr (dsTask st) = None"
    and n: "(length content - k + 10235) div 10236 < n"
  shows "\<exists>st'. downloadLoop (downloadServer unmarshal fs) n (taskRequest (dsTask st)) st = Some (st', None) \<and>
    dsLocal st' = dsLocal st @ drop k content \<and> dtCompleted (dsTask st') \<and>
    dtDownloadedBytes (dsTask st') = word_of_nat (length content) \<and> dtErr (dsTask st') = None"
  using dec st n
proof (induction n arbitrary: st k)
  case (Suc n)
  let ?serve = "downloadServer unmarshal fs" and ?req = "taskRequest (dsTask st)"
  have req: "?req = \<lparr>drTaskId = dtTaskId (dsTask st), drFilePath = f, drStartPos = word_of_nat k\<rparr>"
    using Suc.prems(2,3) by (simp add: taskRequest_def)
  have piece: "?serve (FileDownloadRequest_Data ?req) =
      (if k = length content then putUint32 1 else putUint32 0 @ take 10236 (drop k content))"
    unfolding req by (rule downloadServer_piece) (use Suc.prems(1,4) fs in simp_all)
  show ?case
  proof (cases "k = length content")
    case True
    then show ?thesis
      using downloadLoop_last [of ?serve ?req n st] piece Suc.prems(3,5) by simp
  next
    case False
    let ?bs = "take 10236 (drop k content)"
    define st' where "st' = st\<lparr>dsTask := (dsTask st)\<lparr>dtCompleted := False,
           dtDownloadedBytes := dtDownloadedBytes (dsTask st) + word_of_nat (length ?bs)\<rparr>,
           dsLocal := dsLocal st @ ?bs\<rparr>"
    let ?k = "k + length ?bs"
    have k: "?k \<le> length content" "length content - ?k = length content - k - 10236"
      using Suc.prems(4) by (auto simp: min_def)
    have "k < length content" using False Suc.prems(4) by simp
    then have less: "(length content - ?k + 10235) div 10236 < n"
      using Suc.prems(6) unfolding k(2) by (cases "length content - k \<le> 10236") auto
    have "(0 :: u32) \<noteq> 1" by simp
    with downloadLoop_piece [of ?serve ?req 0 ?bs st' st n] piece False
    have "downloadLoop ?serve (Suc n) ?req st = downloadLoop ?serve n (taskRequest (dsTask st')) st'"
      by (simp add: st'_def)
    moreover have "\<exists>st''. downloadLoop ?serve n (taskRequest (dsTask st')) st' = Some (st'', None) \<and>
        dsLocal st'' = dsLocal st' @ drop ?k content \<and> dtCompleted (dsTask st'') \<and>
        dtDownloadedBytes (dsTask st'') = word_of_nat (length content) \<and> dtErr (dsTask st'') = None"
      by (rule Suc.IH) (use Suc.prems(1-3,5) k(1) less in \<open>simp_all add: st'_def\<close>)
    moreover have "?bs @ drop ?k content = drop k content"
      using take_drop_length [of 10236 "drop k content"] by (simp only: drop_drop add.commute)
    ultimately show ?thesis by (auto simp: st'_def)
  qed
qed simp

text \<open>C39: A download ends and is complete: for a file of the server, the task ends without an error
  after one request for each piece of 10236 bytes and one more, the local file is what it was
  before followed by the whole file, and the task is marked as completed with the file's size.\<close>

theorem download_complete:
  assumes "decodesTask unmarshal (dtTaskId (dsTask st)) f (length content)"
    and "fs f = Some (Regular content)" "length content < 2 ^ 63"
    and "dtServerFile (dsTask st) = f" "dtDownloadedBytes (dsTask st) = 0"
      "\<not> dtCompleted (dsTask st)" "dtErr (dsTask st) = None"
    and "(length content + 10235) div 10236 < n"
  shows "\<exists>st'. runDownload (downloadServer unmarshal fs) n st = Some (st', None) \<and>
    dsLocal st' = dsLocal st @ content \<and> dtCompleted (dsTask st') \<and>
    dtDownloadedBytes (dsTask st') = word_of_nat (length content)"
  using downloadLoop_complete [of unmarshal st f content fs 0 n] assms
  by (auto simp: runDownload_def FileDownloadClient_RunTask_def NewFileDownloadRequest_def taskRequest_def)

text \<open>A file the server does not have: the task never ends. The failure message is long enough to
  be taken for a piece of the file, so the client appends it to the local file, counts it and asks
  for the rest, whatever the number of exchanges.\<close>

theorem download_missing_never_ends:
  assumes "\<forall>req. drFilePath req = f \<longrightarrow> unmarshal (FileDownloadRequest_Data req) = Inr req"
    and "fs f = None" "dtServerFile (dsTask st) = f" "\<not> dtCompleted (dsTask st)"
  shows "runDownload (downloadServer unmarshal fs) n st = None"
proof -
  let ?msg = "ResponseHandleFail_Data (-1) (''handler fail:'' @ errorText (notFound f))"
  have serve: "downloadServer unmarshal fs (FileDownloadRequest_Data (taskRequest task)) = ?msg"
    if "dtServerFile task = f" for task
    using assms(1,2) that by (simp add: downloadServer_eq FileServer_Handle_def taskRequest_def)
  obtain a b c d rest where msg: "?msg = a # b # c # d # rest" and a: "a = byteOfChar (CHR ''{'')"
    by (simp add: ResponseHandleFail_Data_def codeMessage_def bytesOf_def jsonString_def jsonChar_def)
  then have "a \<noteq> 0" by (simp add: byteOfChar_def)
  then have flag: "getUint32 a b c d \<noteq> 1" using getUint32_one by blast
  have split: "?msg = putUint32 (getUint32 a b c d) @ rest" unfolding msg by (simp add: putUint32_getUint32)
  have "downloadLoop (downloadServer unmarshal fs) n (taskRequest (dsTask st)) st = None"
    if "dtServerFile (dsTask st) = f" for st
    using that
  proof (induction n arbitrary: st)
    case (Suc n)
    let ?st = "st\<lparr>dsTask := (dsTask st)\<lparr>dtCompleted := False,
           dtDownloadedBytes := dtDownloadedBytes (dsTask st) + word_of_nat (length rest)\<rparr>,
           dsLocal := dsLocal st @ rest\<rparr>"
    from downloadLoop_piece [OF _ flag refl, of "downloadServer unmarshal fs" "taskRequest (dsTask st)" rest n st]
    have "downloadLoop (downloadServer unmarshal fs) (Suc n) (taskRequest (dsTask st)) st =
        downloadLoop (downloadServer unmarshal fs) n (taskRequest (dsTask ?st)) ?st"
      using serve [OF Suc.prems] split by simp
    with Suc.IH [of ?st] Suc.prems show ?case by simp
  qed simp
  with assms(3,4) show ?thesis
    by (simp add: runDownload_def FileDownloadClient_RunTask_def NewFileDownloadRequest_def taskRequest_def)
qed

section \<open>A decoder\<close>

text \<open>A decoder of the requests for one file, for the witnesses: the two numbers are read back.\<close>

lemma showInt_chars: "c \<in> set (showInt i) \<Longrightarrow> isDigit c \<or> c = CHR ''-''"
  using showNat_digits [of "nat i"] showNat_digits [of "nat (- i)"]
  by (auto simp: showInt_def split: if_splits)

lemma drop_two: "drop (length a + length b) (a @ b @ c) = c"
  by simp

lemma atoi_showInt:
  assumes "- (2 ^ 63) \<le> i" "i < 2 ^ 63"
  shows "atoi (showInt i) = Some i"
proof (cases "i < 0")
  case True
  with assms showNat_digits [of "nat (- i)"] show ?thesis
    by (simp add: showInt_def atoiDigits_def list_all_iff)
next
  case False
  obtain d ds where d: "showNat (nat i) = d # ds" by (cases "showNat (nat i)") simp_all
  have all: "list_all isDigit (showNat (nat i))" using showNat_digits by (simp add: list_all_iff)
  have "\<not> isDigit (CHR ''-'')" "\<not> isDigit (CHR ''+'')" by (simp_all add: isDigit_def)
  with all have ne: "d \<noteq> CHR ''-''" "d \<noteq> CHR ''+''" by (auto simp: d)
  have "atoi (showNat (nat i)) = atoiDigits False (showNat (nat i))" using ne by (simp add: d)
  also have "\<dots> = Some i" using all assms False by (simp add: atoiDigits_def)
  finally show ?thesis using False by (simp add: showInt_def)
qed

lemma takeWhile_showInt:
  "\<not> isDigit c \<Longrightarrow> c \<noteq> CHR ''-'' \<Longrightarrow> takeWhile (\<lambda>x. x \<noteq> c) (showInt i @ c # t) = showInt i"
  using showInt_chars by (subst takeWhile_append2) auto

definition decodeFor :: "string \<Rightarrow> byte list \<Rightarrow> gerr + downloadRequest" where
  "decodeFor f bts =
     (let s = drop (length ''{\"TaskId\":'') (stringOf bts);
          i = takeWhile (\<lambda>c. c \<noteq> CHR '','') s;
          t = drop (length i + length ('',\"FilePath\":'' @ jsonString f @ '',\"DownloadStartPos\":'')) s;
          k = takeWhile (\<lambda>c. c \<noteq> CHR ''}'') t
      in case (atoi i, atoi k) of
           (Some a, Some b) \<Rightarrow> Inr \<lparr>drTaskId = word_of_int a, drFilePath = f, drStartPos = word_of_int b\<rparr>
         | _ \<Rightarrow> Inl (TextErr ''invalid request''))"

lemma decodeFor_Data:
  assumes "drFilePath req = f"
  shows "decodeFor f (FileDownloadRequest_Data req) = Inr req"
proof -
  let ?i = "showInt (sint (drTaskId req))" and ?k = "showInt (sint (drStartPos req))"
  let ?mid = "'',\"FilePath\":'' @ jsonString f @ '',\"DownloadStartPos\":''"
  have key: "jsonString ''TaskId'' = ''\"TaskId\"''" "jsonString ''FilePath'' = ''\"FilePath\"''"
    "jsonString ''DownloadStartPos'' = ''\"DownloadStartPos\"''"
    by (simp_all add: jsonString_def jsonChar_def)
  have d: "stringOf (FileDownloadRequest_Data req) = ''{\"TaskId\":'' @ ?i @ ?mid @ ?k @ ''}''"
    by (simp add: FileDownloadRequest_Data_def jsonObject_def jsonInt_def key assms)
  have punct: "\<not> isDigit (CHR '','')" "\<not> isDigit (CHR ''}'')" by (simp_all add: isDigit_def)
  have s: "drop (length ''{\"TaskId\":'') (stringOf (FileDownloadRequest_Data req)) = ?i @ ?mid @ ?k @ ''}''"
    unfolding d by simp
  have i: "takeWhile (\<lambda>c. c \<noteq> CHR '','') (?i @ ?mid @ ?k @ ''}'') = ?i"
    using takeWhile_showInt [OF punct(1)] by simp
  have t: "drop (length ?i + length ?mid) (?i @ ?mid @ ?k @ ''}'') = ?k @ ''}''"
    by (rule drop_two)
  have k: "takeWhile (\<lambda>c. c \<noteq> CHR ''}'') (?k @ ''}'') = ?k"
    using takeWhile_showInt [OF punct(2)] by simp
  have range: "- (2 ^ 63) \<le> sint x" "sint x < 2 ^ 63" for x :: i64
    using sint_greater_eq [of x] sint_less [of x] by simp_all
  have num: "atoi (showInt (sint x)) = Some (sint x)" for x :: i64
    by (rule atoi_showInt) (rule range)+
  show ?thesis
    unfolding decodeFor_def Let_def s i t k using assms by (cases req) (simp add: num)
qed

section \<open>Two downloads\<close>

definition newDownload :: downloadState where
  "newDownload = \<lparr>dsTask = \<lparr>dtTaskId = 1, dtServerFile = ''a'', dtLocalFile = ''b'', dtDownloadedBytes = 0,
     dtCompleted = False, dtErr = None\<rparr>, dsLocal = [9]\<rparr>"

theorem download_complete_witness:
  "\<exists>st'. runDownload (downloadServer (decodeFor ''a'') [''a'' \<mapsto> Regular [1, 2, 3]]) 2 newDownload =
      Some (st', None) \<and> dsLocal st' = [9, 1, 2, 3] \<and> dtCompleted (dsTask st')"
proof -
  have "decodesTask (decodeFor ''a'') (dtTaskId (dsTask newDownload)) ''a'' (length [1 :: byte, 2, 3])"
    by (simp add: decodesTask_def decodeFor_Data Let_def)
  then show ?thesis
    using download_complete [of "decodeFor ''a''" newDownload "''a''" "[1, 2, 3]"
        "[''a'' \<mapsto> Regular [1, 2, 3]]" 2]
    by (auto simp: newDownload_def)
qed

theorem download_missing_never_ends_witness:
  "runDownload (downloadServer (decodeFor ''a'') (\<lambda>_. None)) 1000 newDownload = None"
  using download_missing_never_ends [of "''a''" "decodeFor ''a''" "\<lambda>_. None" newDownload 1000]
  by (simp add: decodeFor_Data newDownload_def)

end
