(* ===== verification/Upload.thy ===== *)
theory Upload
  imports Download
begin

text \<open>
  The file upload example: the requests and the handler of \<open>example/upload_client/upload_client.go\<close>,
  the handler of \<open>example/upload_server/upload_server.go\<close>, and the exchange they run, one request
  for each piece of the file. The files of the server are a dictionary; the decoders of JSON are
  parameters. The local file can be read; \<open>openErr\<close> is the error of opening a file at the server.
\<close>

section \<open>Requests\<close>

definition PathUploadFile :: string where "PathUploadFile = ''/upload_file''"

record uploadTask =
  utTaskId :: i64
  utServerFile :: string
  utLocalFile :: string
  utUploadedBytes :: i64
  utCompleted :: bool

text \<open>The fields of a request that are sent as JSON.\<close>

record uploadMeta =
  umTaskId :: i64
  umFilePath :: string
  umStartPos :: i64
  umCompleted :: bool

definition uploadChunk :: nat where "uploadChunk = 1024 * 1024 * 10"

text \<open>
  \<open>NewFileUploadRequest\<close> on the content of the local file: the next piece, and the end of the file
  when nothing is left, which is also noted in the task. Seeking before the start panics.
\<close>

definition NewFileUploadRequest :: "byte list \<Rightarrow> uploadTask \<Rightarrow>
    (uploadTask \<times> (gerr + uploadMeta \<times> byte list)) outcome" where
  "NewFileUploadRequest content task =
     (if utCompleted task then
        Returned (task, Inl (TextErr (''file upload completed, task id '' @ showInt (sint (utTaskId task)))))
      else if sint (utUploadedBytes task) < 0 then Panicked
      else
        let rest = drop (nat (sint (utUploadedBytes task))) content;
            fileReadCompleted = (rest = [])
        in Returned (task\<lparr>utCompleted := fileReadCompleted\<rparr>,
             Inr (\<lparr>umTaskId = utTaskId task, umFilePath = utServerFile task,
                   umStartPos = utUploadedBytes task, umCompleted = fileReadCompleted\<rparr>,
                  take uploadChunk rest)))"

definition uploadMeta_Json :: "uploadMeta \<Rightarrow> byte list" where
  "uploadMeta_Json m = bytesOf (jsonObject
     [(''TaskId'', jsonInt (umTaskId m)), (''FilePath'', jsonString (umFilePath m)),
      (''UploadStartPos'', jsonInt (umStartPos m)),
      (''Completed'', if umCompleted m then ''true'' else ''false'')])"

definition FileUploadRequest_Data :: "uploadMeta \<times> byte list \<Rightarrow> byte list" where
  "FileUploadRequest_Data r =
     (let bts = uploadMeta_Json (fst r)
      in putUint32 (word_of_nat (length bts)) @ bts @ snd r)"

section \<open>The server\<close>

text \<open>The hash FNV-1 with 64 bits gives the name of the file.\<close>

definition fnv64 :: "string \<Rightarrow> i64" where
  "fnv64 s = foldl (\<lambda>h b. xor (h * 1099511628211) (ucast b)) 14695981039346656037 (bytesOf s)"

definition uploadName :: "string \<Rightarrow> string" where
  "uploadName path = ''/tmp.upload.'' @ showNat (unat (fnv64 path))"

definition uploadResponse_Json :: "i64 \<Rightarrow> i64 \<Rightarrow> byte list" where
  "uploadResponse_Json taskId doneBytes = bytesOf (jsonObject
     [(''TaskId'', jsonInt taskId), (''DoneBytes'', jsonInt doneBytes)])"

text \<open>
  The handler. The length of the JSON is of 32 bits, as the sum with four that bounds the slice;
  slicing out of bounds panics (request data read from a packet have no capacity beyond their
  length). The file is opened for appending and, at position 0, truncated; a write appends
  wherever the file was sought to, but seeking before the start is an error.
\<close>

definition UploadServer_Handle ::
    "(byte list \<Rightarrow> gerr + uploadMeta) \<Rightarrow> (string \<Rightarrow> gerr option) \<Rightarrow> byte list \<Rightarrow> bool \<Rightarrow>
     (string \<times> byte list) list \<Rightarrow> (string \<times> byte list) list \<times> (byte list \<times> gerr option) outcome" where
  "UploadServer_Handle unmarshal openErr requestData requestDataCompleted files =
     (if length requestData \<le> 4 then
        (files, Returned ([], Some (TextErr (''invalid request: '' @ stringOf requestData))))
      else if \<not> requestDataCompleted then (files, Returned ([], None))
      else
        let metaEnd = 4 + getUint32 (requestData ! 0) (requestData ! 1) (requestData ! 2) (requestData ! 3)
        in if metaEnd < 4 \<or> unat metaEnd > length requestData then (files, Panicked)
           else
             (case unmarshal (take (unat metaEnd - 4) (drop 4 requestData)) of
                Inl err \<Rightarrow> (files, Returned ([], Some (TextErr (''invalid request, '' @ errorText err))))
              | Inr meta \<Rightarrow>
                  let fn = uploadName (umFilePath meta) in
                  (case openErr fn of
                     Some err \<Rightarrow> (files, Returned ([], Some err))
                   | None \<Rightarrow>
                       let old = (case map_of files fn of None \<Rightarrow> [] | Some bs \<Rightarrow> bs);
                           opened = (if umStartPos meta = 0 then [] else old);
                           data = drop (unat metaEnd) requestData
                       in if sint (umStartPos meta) < 0 then
                            (AList.update fn opened files,
                             Returned ([], Some (TextErr (''seek '' @ fn @ '': invalid argument''))))
                          else (AList.update fn (opened @ data) files,
                                Returned (uploadResponse_Json (umTaskId meta) (word_of_nat (length data)),
                                          None)))))"

section \<open>The client\<close>

text \<open>
  \<open>RunTask\<close> sends the next request with \<open>DoStreamRequest\<close>. \<open>handleFileUploadResponse\<close> decodes the
  number of bytes stored; a response that cannot be decoded panics.
\<close>

datatype uploadStep = UploadPanics | UploadEnds "gerr option" | UploadSends "uploadMeta \<times> byte list"

definition FileUploadClient_RunTask :: "byte list \<Rightarrow> uploadTask \<Rightarrow> uploadTask \<times> uploadStep" where
  "FileUploadClient_RunTask content task =
     (case NewFileUploadRequest content task of
        Panicked \<Rightarrow> (task, UploadPanics)
      | Returned (task', Inl err) \<Rightarrow> (task', UploadEnds (Some err))
      | Returned (task', Inr req) \<Rightarrow> (task', UploadSends req))"

definition handleFileUploadResponse :: "(byte list \<Rightarrow> gerr + i64 \<times> i64) \<Rightarrow> byte list \<Rightarrow> byte list \<Rightarrow>
    uploadTask \<Rightarrow> uploadTask \<times> uploadStep" where
  "handleFileUploadResponse unmarshalResponse content netResponse task =
     (case unmarshalResponse netResponse of
        Inl err \<Rightarrow> (task, UploadPanics)
      | Inr (taskId, doneBytes) \<Rightarrow>
          let task1 = task\<lparr>utUploadedBytes := utUploadedBytes task + doneBytes\<rparr>
          in if \<not> utCompleted task1 then FileUploadClient_RunTask content task1
             else (task1, UploadEnds None))"

text \<open>The handler of responses: parts of a response are left to the library to join.\<close>

definition FileUploadClient_Handle :: "(byte list \<Rightarrow> gerr + i64 \<times> i64) \<Rightarrow> byte list \<Rightarrow> byte list \<Rightarrow>
    bool \<Rightarrow> uploadTask \<Rightarrow> uploadTask \<times> uploadStep" where
  "FileUploadClient_Handle unmarshalResponse content responseData dataCompleted task =
     (if \<not> dataCompleted then (task, UploadEnds None)
      else handleFileUploadResponse unmarshalResponse content responseData task)"

lemma FileUploadClient_Handle_whole [simp]:
  "FileUploadClient_Handle dec content resp True task = handleFileUploadResponse dec content resp task"
  by (simp add: FileUploadClient_Handle_def)

text \<open>What the library's server answers to a whole request, and the files afterwards.\<close>

definition uploadServer ::
    "(byte list \<Rightarrow> gerr + uploadMeta) \<Rightarrow> (string \<Rightarrow> gerr option) \<Rightarrow> byte list \<Rightarrow>
     (string \<times> byte list) list \<Rightarrow> (string \<times> byte list) list \<times> byte list" where
  "uploadServer unmarshal openErr data files =
     (let (files', r) = UploadServer_Handle unmarshal openErr data True files
      in (files', case answer (\<lambda>(h::unit) path q d completed. r) (Some [(PathUploadFile, ())])
                         PathUploadFile [] data True of
           Some d \<Rightarrow> d | None \<Rightarrow> []))"

text \<open>At most \<open>n\<close> exchanges from a step of the client on.\<close>

fun uploadLoop ::
    "(byte list \<Rightarrow> (string \<times> byte list) list \<Rightarrow> (string \<times> byte list) list \<times> byte list) \<Rightarrow>
     (byte list \<Rightarrow> gerr + i64 \<times> i64) \<Rightarrow> byte list \<Rightarrow> nat \<Rightarrow> uploadTask \<times> uploadStep \<Rightarrow>
     (string \<times> byte list) list \<Rightarrow> (uploadTask \<times> uploadStep \<times> (string \<times> byte list) list) option" where
  "uploadLoop serve dec content 0 (task, step) files =
     (case step of UploadSends req \<Rightarrow> None | _ \<Rightarrow> Some (task, step, files))"
| "uploadLoop serve dec content (Suc n) (task, step) files =
     (case step of
        UploadSends req \<Rightarrow>
          (case serve (FileUploadRequest_Data req) files of
             (files', resp) \<Rightarrow>
               uploadLoop serve dec content n
                 (FileUploadClient_Handle dec content resp True task) files')
      | _ \<Rightarrow> Some (task, step, files))"

definition runUpload where
  "runUpload serve dec content n task files =
     uploadLoop serve dec content n (FileUploadClient_RunTask content task) files"

section \<open>One piece of the file\<close>

definition decodesMeta :: "(byte list \<Rightarrow> gerr + uploadMeta) \<Rightarrow> uploadMeta \<Rightarrow> bool" where
  "decodesMeta unmarshal m \<longleftrightarrow> unmarshal (uploadMeta_Json m) = Inr m \<and> length (uploadMeta_Json m) + 4 < 2 ^ 32"

lemma uploadResponse_nonempty [simp]: "uploadResponse_Json i n \<noteq> []"
  by (simp add: uploadResponse_Json_def jsonObject_def bytesOf_def)

text \<open>The server finds the JSON and the piece in the request.\<close>

lemma requestData_parts:
  fixes bts c :: "byte list"
  assumes "length bts + 4 < 2 ^ 32"
  defines "d \<equiv> putUint32 (word_of_nat (length bts)) @ bts @ c"
    and "e \<equiv> (4 :: u32) + word_of_nat (length bts)"
  shows "4 + getUint32 (d ! 0) (d ! 1) (d ! 2) (d ! 3) = e" "\<not> e < 4" "unat e = 4 + length bts"
    "take (unat e - 4) (drop 4 d) = bts" "drop (unat e) d = c" "length d = 4 + length bts + length c"
proof -
  have u: "unat (word_of_nat (length bts) :: u32) = length bts"
    using assms(1) by (simp add: unat_of_nat take_bit_eq_mod)
  show e: "unat e = 4 + length bts"
    unfolding e_def using assms(1) u by (subst unat_add_lem [THEN iffD1]) simp_all
  show "4 + getUint32 (d ! 0) (d ! 1) (d ! 2) (d ! 3) = e"
    unfolding d_def e_def getUint32_putUint32_nth by (rule refl)
  show "\<not> e < 4" using e by (simp add: word_less_nat_alt)
  show "take (unat e - 4) (drop 4 d) = bts" "drop (unat e) d = c" "length d = 4 + length bts + length c"
    unfolding e by (simp_all add: d_def)
qed

lemma uploadServer_store:
  assumes m: "decodesMeta unmarshal m" "\<not> sint (umStartPos m) < 0"
    and fn: "fn = uploadName (umFilePath m)" "openErr fn = None"
  shows "uploadServer unmarshal openErr (FileUploadRequest_Data (m, c)) files =
    (AList.update fn ((if umStartPos m = 0 then [] else
        case map_of files fn of None \<Rightarrow> [] | Some bs \<Rightarrow> bs) @ c) files,
     uploadResponse_Json (umTaskId m) (word_of_nat (length c)))"
proof -
  let ?bts = "uploadMeta_Json m"
  have bts: "length ?bts + 4 < 2 ^ 32" "unmarshal ?bts = Inr m" "?bts \<noteq> []"
    using m(1) by (simp_all add: decodesMeta_def uploadMeta_Json_def jsonObject_def bytesOf_def)
  note p = requestData_parts(2,3) [OF bts(1)] requestData_parts(1,4-6) [OF bts(1), of c]
  have len: "\<not> length (putUint32 (word_of_nat (length ?bts)) @ ?bts @ c) \<le> 4"
    using bts(3) p(6) by simp
  have le: "\<not> unat ((4 :: u32) + word_of_nat (length ?bts)) >
      length (putUint32 (word_of_nat (length ?bts)) @ ?bts @ c)"
    using p(2,6) by simp
  have data: "FileUploadRequest_Data (m, c) = putUint32 (word_of_nat (length ?bts)) @ ?bts @ c"
    by (simp add: FileUploadRequest_Data_def Let_def)
  have "UploadServer_Handle unmarshal openErr (FileUploadRequest_Data (m, c)) True files =
    (AList.update fn ((if umStartPos m = 0 then [] else
        case map_of files fn of None \<Rightarrow> [] | Some bs \<Rightarrow> bs) @ c) files,
     Returned (uploadResponse_Json (umTaskId m) (word_of_nat (length c)), None))"
    unfolding UploadServer_Handle_def data Let_def p(3) p(4) p(5) bts(2)
    using len le p(1) m(2) fn by simp
  then show ?thesis by (simp add: uploadServer_def answer_def ensureMap_def)
qed

section \<open>The whole file\<close>

text \<open>What \<open>RunTask\<close> does for a task of which \<open>k\<close> bytes are stored.\<close>

definition metaAt :: "uploadTask \<Rightarrow> nat \<Rightarrow> bool \<Rightarrow> uploadMeta" where
  "metaAt task k fin = \<lparr>umTaskId = utTaskId task, umFilePath = utServerFile task,
     umStartPos = word_of_nat k, umCompleted = fin\<rparr>"

lemma small_position:
  assumes "k < 2 ^ 63"
  shows "sint (word_of_nat k :: i64) = int k" "(word_of_nat k :: i64) = 0 \<longleftrightarrow> k = 0"
proof -
  show s: "sint (word_of_nat k :: i64) = int k"
    using assms by (simp add: signed_of_nat signed_take_bit_int_eq_self)
  show "(word_of_nat k :: i64) = 0 \<longleftrightarrow> k = 0" using s by auto
qed

lemma RunTask_at:
  assumes "\<not> utCompleted task" "utUploadedBytes task = word_of_nat k" "k \<le> length content"
    "length content < 2 ^ 63"
  shows "FileUploadClient_RunTask content task =
    (task\<lparr>utCompleted := (k = length content)\<rparr>,
     UploadSends (metaAt task k (k = length content), take uploadChunk (drop k content)))"
  using assms small_position [of k]
  by (cases "k = length content") (simp_all add: FileUploadClient_RunTask_def NewFileUploadRequest_def metaAt_def Let_def)

lemma uploadLoop_ends: "uploadLoop serve dec content n (task, UploadEnds e) files = Some (task, UploadEnds e, files)"
  by (cases n) simp_all

lemma map_of_update_other: "map_of (AList.update a v xs) b = (if b = a then Some v else map_of xs b)"
  by (simp add: update_conv')

lemma uploadLoop_complete:
  assumes dec: "\<forall>k \<le> length content. \<forall>fin. decodesMeta unmarshal (metaAt task k fin)"
      "\<forall>i n. unmarshalResponse (uploadResponse_Json i n) = Inr (i, n)"
    and fn: "fn = uploadName (utServerFile task)" "openErr fn = None"
    and len: "length content < 2 ^ 63"
    and k: "\<not> utCompleted task" "utUploadedBytes task = word_of_nat k" "k \<le> length content"
      "k \<noteq> 0 \<Longrightarrow> map_of files fn = Some (take k content)"
    and n: "(length content - k + 10485759) div 10485760 < n"
  shows "\<exists>task' files'. uploadLoop (uploadServer unmarshal openErr) unmarshalResponse content n
      (FileUploadClient_RunTask content task) files = Some (task', UploadEnds None, files') \<and>
    map_of files' fn = Some content \<and> (\<forall>g. g \<noteq> fn \<longrightarrow> map_of files' g = map_of files g) \<and>
    utUploadedBytes task' = word_of_nat (length content)"
  using dec(1) fn(1) k n
proof (induction n arbitrary: task k files)
  case (Suc n)
  let ?serve = "uploadServer unmarshal openErr" and ?m = "metaAt task k (k = length content)"
  let ?c = "take uploadChunk (drop k content)"
  let ?files = "AList.update fn (take k content @ ?c) files"
  let ?task = "task\<lparr>utCompleted := (k = length content),
    utUploadedBytes := word_of_nat (k + length ?c)\<rparr>"
  have klen: "k < 2 ^ 63" using Suc.prems(5) len by linarith
  note pos = small_position [OF klen]
  have "decodesMeta unmarshal ?m" using Suc.prems(1,5) by simp
  then have serve: "?serve (FileUploadRequest_Data (?m, ?c)) files =
      (?files, uploadResponse_Json (utTaskId task) (word_of_nat (length ?c)))"
    using uploadServer_store [of unmarshal ?m fn openErr ?c files] pos Suc.prems(2,6) fn(2)
    by (auto simp: metaAt_def)
  have next_step: "uploadLoop ?serve unmarshalResponse content (Suc n) (FileUploadClient_RunTask content task) files =
      uploadLoop ?serve unmarshalResponse content n
        (if k = length content then (?task, UploadEnds None)
         else FileUploadClient_RunTask content ?task) ?files"
    using RunTask_at [OF Suc.prems(3-5) len] serve dec(2) Suc.prems(4)
    by (simp add: handleFileUploadResponse_def)
  show ?case
  proof (cases "k = length content")
    case True
    then show ?thesis unfolding next_step by (simp add: uploadLoop_ends map_of_update_other)
  next
    case False
    let ?k = "k + length ?c"
    have k: "?k \<le> length content" "length content - ?k = length content - k - uploadChunk" "?k \<noteq> 0"
      using Suc.prems(5) False by (auto simp: min_def uploadChunk_def)
    have "k < length content" using False Suc.prems(5) by simp
    then have less: "(length content - ?k + 10485759) div 10485760 < n"
      using Suc.prems(7) unfolding k(2) uploadChunk_def
      by (cases "length content - k \<le> 10485760") auto
    have "take k content @ ?c = take ?k content"
      by (simp add: take_add [symmetric] min_def)
    then have stored: "map_of ?files fn = Some (take ?k content)" by (simp add: map_of_update_other)
    have dec': "\<forall>k \<le> length content. \<forall>fin. decodesMeta unmarshal (metaAt ?task k fin)"
      using Suc.prems(1) by (simp add: metaAt_def)
    have "\<exists>task' files'. uploadLoop ?serve unmarshalResponse content n
        (FileUploadClient_RunTask content ?task) ?files = Some (task', UploadEnds None, files') \<and>
      map_of files' fn = Some content \<and> (\<forall>g. g \<noteq> fn \<longrightarrow> map_of files' g = map_of ?files g) \<and>
      utUploadedBytes task' = word_of_nat (length content)"
      by (rule Suc.IH [OF dec' _ _ _ k(1) stored less]) (use Suc.prems(2) False in simp_all)
    then show ?thesis unfolding next_step using False by (auto simp: map_of_update_other)
  qed
qed simp

section \<open>Properties of the exchange\<close>

text \<open>C40: An upload ends and is complete: the client sends one request for each piece of 10 MiB and one
  more, and ends without an error; the server's file is then exactly the local file, whatever it
  held before, the other files are as they were, and the count of the task is the file's size.\<close>

theorem upload_complete:
  assumes "\<forall>k \<le> length content. \<forall>fin. decodesMeta unmarshal (metaAt task k fin)"
    and "\<forall>i n. unmarshalResponse (uploadResponse_Json i n) = Inr (i, n)"
    and "openErr (uploadName (utServerFile task)) = None" "length content < 2 ^ 63"
    and "\<not> utCompleted task" "utUploadedBytes task = 0"
    and "(length content + 10485759) div 10485760 < n"
  shows "\<exists>task' files'. runUpload (uploadServer unmarshal openErr) unmarshalResponse content n task files =
      Some (task', UploadEnds None, files') \<and>
    map_of files' (uploadName (utServerFile task)) = Some content \<and>
    (\<forall>g. g \<noteq> uploadName (utServerFile task) \<longrightarrow> map_of files' g = map_of files g) \<and>
    utUploadedBytes task' = word_of_nat (length content)"
  using uploadLoop_complete [of content unmarshal task unmarshalResponse "uploadName (utServerFile task)"
      openErr 0 files n] assms by (simp add: runUpload_def)

text \<open>A server that cannot open its file: the client takes the failure message for a response that
  stored nothing, and sends the first piece again without end.\<close>

theorem upload_refused_never_ends:
  assumes "\<forall>fin. decodesMeta unmarshal (metaAt task 0 fin)"
    and "openErr (uploadName (utServerFile task)) = Some e"
    and "unmarshalResponse (ResponseHandleFail_Data (-1) (''handler fail:'' @ errorText e)) = Inr (0, 0)"
    and "content \<noteq> []" "\<not> utCompleted task" "utUploadedBytes task = 0"
  shows "runUpload (uploadServer unmarshal openErr) unmarshalResponse content n task files = None"
proof -
  let ?serve = "uploadServer unmarshal openErr" and ?m = "metaAt task 0 False"
  let ?c = "take uploadChunk content"
  define msg where "msg = ResponseHandleFail_Data (-1) (''handler fail:'' @ errorText e)"
  have dec: "unmarshalResponse msg = Inr (0, 0)" using assms(3) by (simp add: msg_def)
  have bts: "length (uploadMeta_Json ?m) + 4 < 2 ^ 32" "unmarshal (uploadMeta_Json ?m) = Inr ?m"
    "uploadMeta_Json ?m \<noteq> []"
    using assms(1) by (simp_all add: decodesMeta_def uploadMeta_Json_def jsonObject_def bytesOf_def)
  note p = requestData_parts(2,3) [OF bts(1)] requestData_parts(1,4-6) [OF bts(1), of ?c]
  have serve: "?serve (FileUploadRequest_Data (?m, ?c)) files =
      (files, msg)" for files
  proof -
    have data: "FileUploadRequest_Data (?m, ?c) =
        putUint32 (word_of_nat (length (uploadMeta_Json ?m))) @ uploadMeta_Json ?m @ ?c"
      by (simp add: FileUploadRequest_Data_def Let_def)
    have "UploadServer_Handle unmarshal openErr (FileUploadRequest_Data (?m, ?c)) True files =
        (files, Returned ([], Some e))"
      unfolding UploadServer_Handle_def data Let_def p(3) p(4) p(5) bts(2)
      using bts(3) p(1,2,6) assms(2) by (simp add: metaAt_def)
    then show ?thesis by (simp add: uploadServer_def answer_def ensureMap_def msg_def)
  qed
  have run: "FileUploadClient_RunTask content (task\<lparr>utCompleted := b\<rparr>) =
      (task\<lparr>utCompleted := False\<rparr>, UploadSends (?m, ?c))" if "\<not> b" for b
    using assms(4,6) that
    by (simp add: FileUploadClient_RunTask_def NewFileUploadRequest_def metaAt_def Let_def)
  have again: "handleFileUploadResponse unmarshalResponse content msg (task\<lparr>utCompleted := False\<rparr>) =
      (task\<lparr>utCompleted := False\<rparr>, UploadSends (?m, ?c))"
    using run [of False] by (cases task) (simp add: handleFileUploadResponse_def dec)
  have "uploadLoop ?serve unmarshalResponse content n
      (task\<lparr>utCompleted := False\<rparr>, UploadSends (?m, ?c)) files = None"
  proof (induction n arbitrary: files)
    case (Suc n)
    then show ?case by (simp add: serve again)
  qed simp
  moreover have "FileUploadClient_RunTask content task = (task\<lparr>utCompleted := False\<rparr>, UploadSends (?m, ?c))"
    using run [of False] assms(5) by (cases task) simp
  ultimately show ?thesis by (simp add: runUpload_def)
qed

section \<open>Decoders and two uploads\<close>

lemma length_jsonInt: "length (jsonInt x) \<le> 20"
proof -
  have b: "- (2 ^ 63) \<le> sint x" "sint x < 2 ^ 63"
    using sint_greater_eq [of x] sint_less [of x] by simp_all
  then have "nat (- sint x) < 10 ^ 19" "nat (sint x) < 10 ^ 19" by simp_all
  with length_showNat [of 19] show ?thesis by (force simp: jsonInt_def showInt_def)
qed

lemma length_uploadMeta: "length (uploadMeta_Json m) \<le> length (jsonString (umFilePath m)) + 120"
  using length_jsonInt [of "umTaskId m"] length_jsonInt [of "umStartPos m"]
  by (simp add: uploadMeta_Json_def jsonObject_def) (simp add: jsonString_def jsonChar_def)

definition decodeMetaFor :: "string \<Rightarrow> byte list \<Rightarrow> gerr + uploadMeta" where
  "decodeMetaFor f bts =
     (let s = drop (length ''{\"TaskId\":'') (stringOf bts);
          i = takeWhile (\<lambda>c. c \<noteq> CHR '','') s;
          t = drop (length i + length ('',\"FilePath\":'' @ jsonString f @ '',\"UploadStartPos\":'')) s;
          k = takeWhile (\<lambda>c. c \<noteq> CHR '','') t
      in case (atoi i, atoi k) of
           (Some a, Some b) \<Rightarrow> Inr \<lparr>umTaskId = word_of_int a, umFilePath = f, umStartPos = word_of_int b,
              umCompleted = (drop (length k) t = '',\"Completed\":true}'')\<rparr>
         | _ \<Rightarrow> Inl (TextErr ''invalid request''))"

lemma atoi_jsonInt: "atoi (showInt (sint (x :: i64))) = Some (sint x)"
  using sint_greater_eq [of x] sint_less [of x] by (intro atoi_showInt) simp_all

lemma comma_digit: "\<not> isDigit (CHR '','')" "\<not> isDigit (CHR ''}'')" by (simp_all add: isDigit_def)

lemma decodeMetaFor_Json:
  assumes "umFilePath m = f"
  shows "decodeMetaFor f (uploadMeta_Json m) = Inr m"
proof -
  let ?i = "showInt (sint (umTaskId m))" and ?k = "showInt (sint (umStartPos m))"
  let ?mid = "'',\"FilePath\":'' @ jsonString f @ '',\"UploadStartPos\":''"
  let ?tail = "'',\"Completed\":'' @ (if umCompleted m then ''true'' else ''false'') @ ''}''"
  have key: "jsonString ''TaskId'' = ''\"TaskId\"''" "jsonString ''FilePath'' = ''\"FilePath\"''"
    "jsonString ''UploadStartPos'' = ''\"UploadStartPos\"''" "jsonString ''Completed'' = ''\"Completed\"''"
    by (simp_all add: jsonString_def jsonChar_def)
  have d: "stringOf (uploadMeta_Json m) = ''{\"TaskId\":'' @ ?i @ ?mid @ ?k @ ?tail"
    by (simp add: uploadMeta_Json_def jsonObject_def jsonInt_def key assms)
  have s: "drop (length ''{\"TaskId\":'') (stringOf (uploadMeta_Json m)) = ?i @ ?mid @ ?k @ ?tail"
    unfolding d by simp
  have i: "takeWhile (\<lambda>c. c \<noteq> CHR '','') (?i @ ?mid @ ?k @ ?tail) = ?i"
    using takeWhile_showInt [OF comma_digit(1)] by simp
  have t: "drop (length ?i + length ?mid) (?i @ ?mid @ ?k @ ?tail) = ?k @ ?tail" by (rule drop_two)
  have k: "takeWhile (\<lambda>c. c \<noteq> CHR '','') (?k @ ?tail) = ?k"
    using takeWhile_showInt [OF comma_digit(1)] by simp
  have flag: "(?tail = '',\"Completed\":true}'') = umCompleted m" by simp
  show ?thesis
    unfolding decodeMetaFor_def Let_def s i t k append_eq_conv_conj [THEN iffD1, OF refl, THEN conjunct2, symmetric]
    using assms flag by (cases m) (simp add: atoi_jsonInt)
qed

text \<open>Of a response the number of bytes is read, or zero when the field is not there.\<close>

definition decodeResponse :: "byte list \<Rightarrow> gerr + i64 \<times> i64" where
  "decodeResponse bts =
     (let s = drop (length ''{\"TaskId\":'') (stringOf bts);
          i = takeWhile (\<lambda>c. c \<noteq> CHR '','') s;
          k = takeWhile (\<lambda>c. c \<noteq> CHR ''}'') (drop (length i + length '',\"DoneBytes\":'') s)
      in if take 10 (stringOf bts) \<noteq> ''{\"TaskId\":'' then Inr (0, 0)
         else case (atoi i, atoi k) of
           (Some a, Some b) \<Rightarrow> Inr (word_of_int a, word_of_int b)
         | _ \<Rightarrow> Inl (TextErr ''invalid response''))"

lemma decodeResponse_Json: "decodeResponse (uploadResponse_Json i n) = Inr (i, n)"
proof -
  let ?i = "showInt (sint i)" and ?k = "showInt (sint n)" and ?mid = "'',\"DoneBytes\":''"
  have key: "jsonString ''TaskId'' = ''\"TaskId\"''" "jsonString ''DoneBytes'' = ''\"DoneBytes\"''"
    by (simp_all add: jsonString_def jsonChar_def)
  have d: "stringOf (uploadResponse_Json i n) = ''{\"TaskId\":'' @ ?i @ ?mid @ ?k @ ''}''"
    by (simp add: uploadResponse_Json_def jsonObject_def jsonInt_def key)
  have s: "drop (length ''{\"TaskId\":'') (stringOf (uploadResponse_Json i n)) = ?i @ ?mid @ ?k @ ''}''"
    "take 10 (stringOf (uploadResponse_Json i n)) = ''{\"TaskId\":''"
    unfolding d by simp_all
  have ii: "takeWhile (\<lambda>c. c \<noteq> CHR '','') (?i @ ?mid @ ?k @ ''}'') = ?i"
    using takeWhile_showInt [OF comma_digit(1)] by simp
  have t: "drop (length ?i + length ?mid) (?i @ ?mid @ ?k @ ''}'') = ?k @ ''}''" by (rule drop_two)
  have k: "takeWhile (\<lambda>c. c \<noteq> CHR ''}'') (?k @ ''}'') = ?k"
    using takeWhile_showInt [OF comma_digit(2)] by simp
  show ?thesis
    unfolding decodeResponse_def Let_def s ii t k by (simp add: atoi_jsonInt)
qed

definition newUpload :: uploadTask where
  "newUpload = \<lparr>utTaskId = 1, utServerFile = ''a'', utLocalFile = ''a'', utUploadedBytes = 0,
     utCompleted = False\<rparr>"

lemma newUpload_decodes: "decodesMeta (decodeMetaFor ''a'') (metaAt newUpload k fin)"
  using length_uploadMeta [of "metaAt newUpload k fin"]
  by (simp add: decodesMeta_def decodeMetaFor_Json metaAt_def newUpload_def)
    (simp add: jsonString_def jsonChar_def)

theorem upload_complete_witness:
  "\<exists>task' files'. runUpload (uploadServer (decodeMetaFor ''a'') (\<lambda>_. None)) decodeResponse [1, 2, 3] 2
      newUpload [(uploadName ''a'', [7, 7, 7, 7])] = Some (task', UploadEnds None, files') \<and>
    map_of files' (uploadName ''a'') = Some [1, 2, 3]"
  using upload_complete [of "[1, 2, 3]" "decodeMetaFor ''a''" newUpload decodeResponse "\<lambda>_. None" 2
      "[(uploadName ''a'', [7, 7, 7, 7])]"]
    newUpload_decodes decodeResponse_Json
  by (auto simp: newUpload_def)

theorem upload_refused_never_ends_witness:
  "runUpload (uploadServer (decodeMetaFor ''a'') (\<lambda>_. Some (TextErr ''denied''))) decodeResponse [1] 1000
     newUpload [] = None"
proof -
  have "decodeResponse (ResponseHandleFail_Data (-1) (''handler fail:'' @ errorText (TextErr ''denied''))) = Inr (0, 0)"
    by (simp add: decodeResponse_def ResponseHandleFail_Data_def codeMessage_def jsonString_def jsonChar_def Let_def)
  with upload_refused_never_ends [of "decodeMetaFor ''a''" newUpload "\<lambda>_. Some (TextErr ''denied'')"
      "TextErr ''denied''" decodeResponse "[1]" 1000 "[]"] newUpload_decodes
  show ?thesis by (simp add: newUpload_def)
qed

end
