(* ===== verification/Echo.thy ===== *)
theory Echo
  imports EndToEnd
begin

text \<open>
  The handlers of the echo examples, \<open>example/echo_server/echo_server.go\<close> and
  \<open>example/echo_client/echo_client.go\<close>, run over the library: whole requests come back as they were
  sent, requests in parts do not, because the error that is meant to say that more data are to
  come is answered as a failure.
\<close>

section \<open>The handlers\<close>

definition EchoServerHandler :: "string \<Rightarrow> url_values \<Rightarrow> byte list \<Rightarrow> bool \<Rightarrow> byte list \<times> gerr option" where
  "EchoServerHandler path queryParams requestData dataCompleted =
     (if path = ''/echo'' then
        (if dataCompleted then (requestData, None) else ([], Some ErrPacketContinue))
      else if path = ''/echo_benchmark'' then (requestData, None)
      else ([], Some (TextErr (''path '' @ path @ '' not support''))))"

text \<open>The client's handler prints both texts and reports no error.\<close>

definition EchoClientHandler :: "byte list \<Rightarrow> byte list \<Rightarrow> string \<times> gerr option" where
  "EchoClientHandler requestData responseData =
     (''response in handler: '' @ stringOf responseData @ [CHR 0x0A] @ '' for request: '' @
        stringOf requestData @ [CHR 0x0A], None)"

text \<open>The client of the example: with a certificate and a key, or with the flag tls, in TLS mode.\<close>

definition echoConfig :: clientConfig where
  "echoConfig = \<lparr>ccMaxConnections = 1000, ccMaxChannelsPerConn = 10, ccChannelPacketQueueLen = 1000,
     ccTcpWriteQueueLen = 1000, ccTcpConnectTimeout = seconds 3, ccTcpReadBufferSize = 16 * 1024,
     ccTcpWriteBufferSize = 16 * 1024, ccWaitResponseTimeout = 0\<rparr>"

definition echoClient :: "string \<Rightarrow> string \<Rightarrow> string \<Rightarrow> ('q, 'h) client" where
  "echoClient certFile keyFile tls =
     (if certFile \<noteq> '''' \<and> keyFile \<noteq> '''' then NewClientTLS echoConfig '':9090'' None certFile keyFile
      else if tls \<noteq> ''0'' then NewClientTLS echoConfig '':9090'' None '''' ''''
      else NewClient echoConfig '':9090'' None)"

text \<open>The server's dictionary of handlers and the calls of the handler in it.\<close>

definition echoRun :: "unit serverRun" where
  "echoRun h path q data completed = Returned (EchoServerHandler path q data completed)"

definition echoHandlers :: "unit handlers" where
  "echoHandlers = Some [(''/echo'', ()), (''/echo_benchmark'', ())]"

lemma echo_answer:
  "answer echoRun m ''/echo'' q data completed =
    (if map_of (ensureMap m) ''/echo'' = None then Some (ErrorResponse ErrHandleError)
     else if \<not> completed then Some (ResponseHandleFail_Data (-1) ''handler fail:packet uncompleted'')
     else if data \<noteq> [] then Some data else Some (ErrorResponse ErrHandleNoResponse))"
  by (simp add: answer_def echoRun_def EchoServerHandler_def ErrPacketContinue_def split: option.split)

section \<open>Properties\<close>

text \<open>A request to the echo path that comes in two parts is answered twice: after the first part with
  the failure message of the error the handler uses to ask for more, as a whole response of its
  own, and after the second with the joined data.\<close>

theorem echo_parts_answered_twice:
  assumes "answerable a c" "\<not> chLoopDone (chanAt c a)" "chWhole (chanAt c a) = None"
    and "chReceivedQueue (chanAt c a) = p # q # rest"
    and "pktStatus p = StatusC0" "pktStatus q = StatusC3"
    and "pktChannel p = Some a" "pktPath p \<noteq> ''''" "parse (pktPath p) = Inr (''/echo'', params)"
      "pktParams p = None"
    and "map_of (ensureMap m) ''/echo'' \<noteq> None"
    and "pktData p @ pktData q \<noteq> []" "length (pktData p @ pktData q) \<le> unat MaxPacketSize"
    and "length (cnWriteQueue c) + 1 < cnWriteCap c"
  shows "\<exists>c' m'. (handleServerLoop parse echoRun pick dur alone a Received ^^ 2) (c, m) = (c', m') \<and>
    cnWriteQueue c' = cnWriteQueue c @
      [responsePacket a ''/echo'' (pktChannelId p)
         (ResponseHandleFail_Data (-1) ''handler fail:packet uncompleted''),
       responsePacket a (pktPath q) (pktChannelId q) (pktData p @ pktData q)] \<and>
    chReceivedQueue (chanAt c' a) = rest \<and> chWhole (chanAt c' a) = None"
proof -
  let ?w = "parsePath parse p" and ?fail = "ResponseHandleFail_Data (-1) ''handler fail:packet uncompleted''"
  have merge: "mergePacket None p = p" by (simp add: mergePacket_def)
  have w: "pktPath ?w = ''/echo''" "pktParams ?w = Some params"
    using assms(9,10) by (simp_all add: parsePath_def)
  have user: "''/echo'' \<noteq> PathNewChannel" "''/echo'' \<noteq> PathDeleteChannel"
    by (simp_all add: PathNewChannel_def PathDeleteChannel_def)
  have st: "\<not> isClientStatusCompleted StatusC0" "isClientStatusCompleted StatusC3"
    "StatusC0 \<noteq> Status8" "StatusC3 \<noteq> Status8"
    by (simp_all add: client_status_defs)
  have small: "length ?fail \<le> unat MaxPacketSize"
    by (simp add: ResponseHandleFail_Data_def codeMessage_def jsonString_def jsonChar_def showInt_def showNat.simps)
  from round_received [OF assms(1,2,4), of ?w parse a "Some ?fail" echoRun m pick dur]
  obtain c1 m1 where r1: "handleServerLoop parse echoRun pick dur alone a Received (c, m) = (c1, m1)"
    "ensureMap m1 = ensureMap m" "answerable a c1" "\<not> chLoopDone (chanAt c1 a)"
    "chReceivedQueue (chanAt c1 a) = q # rest" "cnWriteCap c1 = cnWriteCap c"
    "cnWriteQueue c1 = cnWriteQueue c @ [responsePacket a ''/echo'' (pktChannelId p) ?fail]"
    "chWhole (chanAt c1 a) = Some ?w"
    using assms(3,5,7,8,11,14) st user w small by (auto simp: merge echo_answer)
  let ?w2 = "?w\<lparr>pktData := pktData p @ pktData q, pktStatus := StatusC3\<rparr>"
  have merge2: "mergePacket (Some ?w) q = ?w2" using assms(6) by (simp add: mergePacket_def)
  have parse2: "parsePath parse ?w2 = ?w2" using w(2) by (intro parsePath_done) simp
  from round_received [OF r1(3,4,5), of ?w2 parse a "Some (pktData p @ pktData q)" echoRun m1 pick dur]
  obtain c2 m2 where r2: "handleServerLoop parse echoRun pick dur alone a Received (c1, m1) = (c2, m2)"
    "chReceivedQueue (chanAt c2 a) = rest" "chWhole (chanAt c2 a) = None"
    "cnWriteQueue c2 = cnWriteQueue c1 @ [responsePacket a (pktPath q) (pktChannelId q) (pktData p @ pktData q)]"
    using assms(6,7,11-14) st user w r1(2,6-8) parse2 by (auto simp: merge2 echo_answer)
  show ?thesis
    by (intro exI [of _ c2] exI [of _ m2])
      (simp add: numeral_2_eq_2 r1(1,7) r2)
qed

text \<open>A server's connection with a split request in the queue of channel 0.\<close>

definition echoPart :: "byte \<Rightarrow> byte \<Rightarrow> packet" where
  "echoPart status b = \<lparr>pktType = PacketTypeRequest, pktStatus = status, pktPath = ''/echo'',
     pktChannelId = 0, pktData = [b], pktDontChunk = False, pktChannel = Some 0, pktParams = None\<rparr>"

theorem echo_parts_answered_twice_witness:
  "\<exists>c' m'. (handleServerLoop (\<lambda>s. Inr (s, [])) echoRun 0 0 alone 0 Received ^^ 2)
      (updChan 0 (\<lambda>ch. ch\<lparr>chReceivedQueue := [echoPart StatusC0 1, echoPart StatusC3 2]\<rparr>)
         (freshConn RoleServer), echoHandlers) = (c', m') \<and>
    map pktData (cnWriteQueue c') =
      [ResponseHandleFail_Data (-1) ''handler fail:packet uncompleted'', [1, 2]]"
proof -
  let ?c = "updChan 0 (\<lambda>ch. ch\<lparr>chReceivedQueue := [echoPart StatusC0 1, echoPart StatusC3 2]\<rparr>)
      (freshConn RoleServer)"
  note f = NewConnection_Inr [OF freshConn_New [of RoleServer]]
  have "answerable 0 ?c" "\<not> chLoopDone (chanAt ?c 0)" "chWhole (chanAt ?c 0) = None"
    "chReceivedQueue (chanAt ?c 0) = [echoPart StatusC0 1, echoPart StatusC3 2]"
    "cnWriteQueue ?c = []" "1 < cnWriteCap ?c"
    using f by (simp_all add: answerable_def)
  moreover have "map_of (ensureMap echoHandlers) ''/echo'' \<noteq> None"
    by (simp add: echoHandlers_def ensureMap_def)
  ultimately show ?thesis
    using echo_parts_answered_twice [of 0 ?c "echoPart StatusC0 1" "echoPart StatusC3 2" "[]"
        "\<lambda>s. Inr (s, [])" "[]" echoHandlers 0 0]
    by (auto simp: echoPart_def responsePacket_def)
qed

end
