(* ===== verification/Programs.thy ===== *)
theory Programs
  imports NewChannel Conversation HeaderArg JsonExpRoute Server Download Upload Echo
begin

text \<open>
  The programs of the repository: the servers of the examples and of the adapter's test, the clients
  of the file examples, and how the echo server becomes a daemon. A program that waits for ever is
  modelled up to the state in which it waits.
\<close>

section \<open>Servers\<close>

text \<open>The handlers in the dictionary of a program's server: the server itself and the program's own.\<close>

datatype programHandler = TheServer | TheProgram

definition programConfig :: "i64 \<Rightarrow> serverConfig" where
  "programConfig maxConnections =
     \<lparr>scMaxConnections = maxConnections, scMaxChannelsPerConn = 10, scChannelPacketQueueLen = 1000,
      scTcpWriteQueueLen = 1000, scTcpReadBufferSize = 16 * 1024, scTcpWriteBufferSize = 16 * 1024\<rparr>"

definition registerPaths :: "(string \<Rightarrow> gerr + 'u) \<Rightarrow> string list \<Rightarrow> ('q, programHandler) server \<Rightarrow>
    ('q, programHandler) server" where
  "registerPaths parse paths sv =
     fold (\<lambda>path sv. fst (Server_RegisterHandler parse path (Some TheProgram) None sv)) paths sv"

text \<open>
  The servers of the file examples: the error of listening is printed and the program waits.
\<close>

definition fileServerMain :: "(string \<Rightarrow> gerr + 'u) \<Rightarrow> gerr option \<Rightarrow>
    ('q, programHandler) server \<times> gerr option" where
  "fileServerMain parse listen = Server_StartListen listen
     (registerPaths parse [PathDownloadFile] (NewServer parse TheServer (programConfig 1000) '':9091'' None))"

definition uploadServerMain :: "(string \<Rightarrow> gerr + 'u) \<Rightarrow> gerr option \<Rightarrow>
    ('q, programHandler) server \<times> gerr option" where
  "uploadServerMain parse listen = Server_StartListen listen
     (registerPaths parse [PathUploadFile] (NewServer parse TheServer (programConfig 1000) '':9092'' None))"

text \<open>The echo server listens with TLS when it is given a certificate and a key.\<close>

definition echoServerMain :: "(string \<Rightarrow> gerr + 'u) \<Rightarrow> gerr option \<Rightarrow> gerr option \<Rightarrow> string \<Rightarrow> string \<Rightarrow>
    ('q, programHandler) server \<times> gerr option" where
  "echoServerMain parse loadKeys listen certFile keyFile =
     (let sv = registerPaths parse [''/echo'', ''/echo_benchmark'']
                 (NewServer parse TheServer (programConfig 10000) '':9090'' None)
      in if certFile \<noteq> '''' \<and> keyFile \<noteq> ''''
         then Server_StartListenTLS loadKeys listen certFile keyFile sv
         else Server_StartListen listen sv)"

text \<open>What the echo server answers over \<open>net/http\<close>, for comparison.\<close>

definition httpEcho :: "gerr + byte list \<Rightarrow> byte list" where
  "httpEcho body = (case body of Inr bts \<Rightarrow> bts | Inl err \<Rightarrow> bytesOf (errorText err))"

text \<open>The server of the adapter's test stops with a panic when it cannot listen.\<close>

definition StartIIPServer :: "(string \<Rightarrow> gerr + 'u) \<Rightarrow> gerr option \<Rightarrow>
    ('q, programHandler) server outcome" where
  "StartIIPServer parse listen =
     (let sv = registerPaths parse [''/echo'', ''/http_header_echo'']
                 (NewServer parse TheServer (programConfig 10000) '':9093'' None)
      in case Server_StartListen listen sv of
           (sv1, None) \<Rightarrow> Returned sv1
         | (sv1, Some err) \<Rightarrow> Panicked)"

text \<open>
  Its handler. \<open>unmarshal\<close> is \<open>json.Unmarshal\<close> into a dictionary of headers, whose \<open>json.Marshal\<close>
  never fails; errors are answered as data.
\<close>

definition marshalHeader :: "(string \<times> string list) list \<Rightarrow> gerr + byte list" where
  "marshalHeader hdr = Inr (bytesOf (headerJson hdr))"

definition TestServer_Handle ::
    "(byte list \<Rightarrow> gerr + (string \<times> string list) list) \<Rightarrow> string \<Rightarrow> url_values \<Rightarrow> byte list \<Rightarrow> bool \<Rightarrow>
     byte list \<times> gerr option" where
  "TestServer_Handle unmarshal path queryParams requestData dataCompleted =
     (if path = ''/echo'' then (requestData, None)
      else if path = ''/http_header_echo'' then
        (case IIPArgToHttpHeader unmarshal (valuesGet queryParams ArgHttpHeader) of
           Inl err \<Rightarrow> (bytesOf (errorText err), None)
         | Inr hdr \<Rightarrow>
             (case marshalHeader hdr of
                Inr bts \<Rightarrow> (bts, None)
              | Inl err \<Rightarrow> (bytesOf (errorText err), None)))
      else ([], Some (TextErr (''path '' @ path @ '' not support''))))"

section \<open>Adapters\<close>

definition echoBackend :: "string \<Rightarrow> backendConf" where
  "echoBackend servers = \<lparr>bcServerList = servers, bcKeepConns = 10, bcMaxConns = 10\<rparr>"

text \<open>The adapter of the echo server, until it listens; an error ends the goroutine.\<close>

definition startAdapterServer :: "(string \<Rightarrow> gerr + 'e) \<Rightarrow> ('q, 'h, 'j, 'e, 'f) adapter option" where
  "startAdapterServer compile =
     (case RegisterBackend ''echo_server'' (echoBackend '':9090#1,:9090#1'')
             (NewHttpAdapterServer '':9092'' '''' '''' (seconds 1)) of
        (ha, Some err) \<Rightarrow> None
      | (ha, None) \<Rightarrow>
          (case PushRouteTail compile ''localhost'' ''^/echo'' ''echo_server'' ha of
             (ha1, Some err) \<Rightarrow> None
           | (ha1, None) \<Rightarrow> Some ha1))"

text \<open>
  An adapter hands itself to \<open>net/http\<close>: \<open>serve\<close> gets its address and, if it has both files, the
  certificate and the key, and gives the error it ends with.
\<close>

definition Adapter_ListenAndServe :: "(string \<Rightarrow> (string \<times> string) option \<Rightarrow> gerr option) \<Rightarrow>
    ('q, 'h, 'j, 'e, 'f) adapter \<Rightarrow> gerr option" where
  "Adapter_ListenAndServe serve ha =
     (if haTlsCertFile ha \<noteq> '''' \<and> haTlsKeyFile ha \<noteq> ''''
      then serve (haAddr ha) (Some (haTlsCertFile ha, haTlsKeyFile ha))
      else serve (haAddr ha) None)"

text \<open>On a listener of the caller, likewise.\<close>

definition Adapter_Serve :: "('l \<Rightarrow> (string \<times> string) option \<Rightarrow> gerr option) \<Rightarrow> 'l \<Rightarrow>
    ('q, 'h, 'j, 'e, 'f) adapter \<Rightarrow> gerr option" where
  "Adapter_Serve serve lsn ha =
     (if haTlsCertFile ha \<noteq> '''' \<and> haTlsKeyFile ha \<noteq> ''''
      then serve lsn (Some (haTlsCertFile ha, haTlsKeyFile ha))
      else serve lsn None)"

text \<open>The adapter of the test, with a route function by a JSON expression; an error is a panic.\<close>

definition routeJson :: string where
  "routeJson = ''{'' @ [CHR 0x0A, CHR 0x09] @ ''\"route\": ['' @ [CHR 0x0A, CHR 0x09, CHR 0x09] @
     ''['' @ [CHR 0x0A, CHR 0x09, CHR 0x09, CHR 0x09] @
     ''[\"$host\", \"=\", \"localhost\"],'' @ [CHR 0x0A, CHR 0x09, CHR 0x09, CHR 0x09] @
     ''[\"$uri\", \"~\", \"/echo\"],'' @ [CHR 0x0A, CHR 0x09, CHR 0x09, CHR 0x09] @
     ''[\"$iip_backend\", \"=\", \"echo_server\"]'' @ [CHR 0x0A, CHR 0x09, CHR 0x09] @
     '']'' @ [CHR 0x0A, CHR 0x09] @ '']'' @ [CHR 0x0A] @ ''}''"

definition StartAdapterServer ::
    "'d \<Rightarrow> (string \<Rightarrow> 'd \<Rightarrow> 'd) \<Rightarrow> (byte list \<Rightarrow> 'd \<Rightarrow> 'd \<times> (gerr + 'conf)) \<Rightarrow> (string \<Rightarrow> gerr + 'e) \<Rightarrow>
     ('q, 'h, 'j, 'e, ('d, 'conf) jsonExpRoute) adapter outcome" where
  "StartAdapterServer newDict registerVar newConfig compile =
     (case RegisterBackend ''echo_server'' (echoBackend '':9093#1,:9093#1'')
             (NewHttpAdapterServer '':9092'' '''' '''' (seconds 1)) of
        (ha, Some err) \<Rightarrow> Panicked
      | (ha, None) \<Rightarrow>
          (case NewJsonExpRoute newDict registerVar newConfig (bytesOf routeJson) ''route'' of
             Inl err \<Rightarrow> Panicked
           | Inr jsonExpRoute \<Rightarrow>
               (case RegisterRouteFunc ''localhost'' (Some jsonExpRoute) ha of
                  (ha1, Some err) \<Rightarrow> Panicked
                | (ha1, None) \<Rightarrow>
                    (case PushRouteTail compile ''localhost'' ''^/http_header'' ''echo_server'' ha1 of
                       (ha2, Some err) \<Rightarrow> Panicked
                     | (ha2, None) \<Rightarrow> Returned ha2))))"

section \<open>The daemon\<close>

text \<open>
  What becomes of the process: it goes on, it fails, or it has started another with an environment
  and exits. \<open>executable\<close> is the path of the program or the error, \<open>startProcess\<close> the error of starting
  it on a path with an environment.
\<close>

datatype daemonized = GoesOn | Fails gerr | Exits "string list"

text \<open>The first entry of the environment for the key, which has no further \<open>=\<close>.\<close>

fun ppidEntry :: "string list \<Rightarrow> string option" where
  "ppidEntry [] = None"
| "ppidEntry (v # envs) =
     (case splitAt (CHR ''='') v of
        [k, x] \<Rightarrow> if k = ''ppid'' then Some x else ppidEntry envs
      | _ \<Rightarrow> ppidEntry envs)"

text \<open>
  The number is -100 unless the entry is found; \<open>intOf\<close> is \<open>strconv.Atoi\<close>, whose error leaves 0 or the
  nearest number.
\<close>

definition daemonize :: "(string \<Rightarrow> int) \<Rightarrow> gerr + string \<Rightarrow> (string \<Rightarrow> string) \<Rightarrow>
    (string \<Rightarrow> string list \<Rightarrow> gerr option) \<Rightarrow> nat \<Rightarrow> string list \<Rightarrow> daemonized" where
  "daemonize intOf executable evalSymlinks startProcess pid environ =
     (if ppidEntry environ \<noteq> None then GoesOn
      else case executable of
        Inl err \<Rightarrow> Fails err
      | Inr exePath \<Rightarrow>
          (let envs = environ @ [''ppid='' @ showNat pid]
           in case startProcess (evalSymlinks exePath) envs of
                Some err \<Rightarrow> Fails err
              | None \<Rightarrow>
                  (let envPpid = (case ppidEntry environ of None \<Rightarrow> - 100 | Some x \<Rightarrow> intOf x)
                   in if envPpid = - 100 then Exits envs else GoesOn)))"

section \<open>The clients of the file examples\<close>

record fileClient =
  fcMaxTaskId :: i64
  fcChannel :: "nat \<times> nat"

definition fileClientConfig :: clientConfig where
  "fileClientConfig = \<lparr>ccMaxConnections = 1000, ccMaxChannelsPerConn = 10, ccChannelPacketQueueLen = 1000,
     ccTcpWriteQueueLen = 1000, ccTcpConnectTimeout = seconds 3, ccTcpReadBufferSize = 16 * 1024,
     ccTcpWriteBufferSize = 16 * 1024, ccWaitResponseTimeout = 0\<rparr>"

text \<open>
  \<open>connect\<close> is \<open>Client.NewChannel\<close>. The client object is the handler of the responses for the path.
\<close>

definition NewFileDownloadClient :: "(string \<Rightarrow> gerr + 'u) \<Rightarrow>
    (('q, unit) client \<Rightarrow> ('q, unit) client \<times> (gerr + nat \<times> nat)) \<Rightarrow> string \<Rightarrow>
    ('q, unit) client \<times> (gerr + fileClient)" where
  "NewFileDownloadClient parse connect serverAddr =
     (let client = NewClient fileClientConfig serverAddr None;
          client1 = fst (Client_RegisterHandler parse PathDownloadFile (Some ()) client)
      in case connect client1 of
           (client2, Inl err) \<Rightarrow> (client2, Inl err)
         | (client2, Inr channel) \<Rightarrow> (client2, Inr \<lparr>fcMaxTaskId = 0, fcChannel = channel\<rparr>))"

definition NewFileUploadClient :: "(string \<Rightarrow> gerr + 'u) \<Rightarrow>
    (('q, unit) client \<Rightarrow> ('q, unit) client \<times> (gerr + nat \<times> nat)) \<Rightarrow> string \<Rightarrow>
    ('q, unit) client \<times> (gerr + fileClient)" where
  "NewFileUploadClient parse connect serverAddr =
     (let client = NewClient fileClientConfig serverAddr None;
          client1 = fst (Client_RegisterHandler parse PathUploadFile (Some ()) client)
      in case connect client1 of
           (client2, Inl err) \<Rightarrow> (client2, Inl err)
         | (client2, Inr channel) \<Rightarrow> (client2, Inr \<lparr>fcMaxTaskId = 0, fcChannel = channel\<rparr>))"

definition newTaskId :: "fileClient \<Rightarrow> fileClient \<times> i64" where
  "newTaskId m = (m\<lparr>fcMaxTaskId := fcMaxTaskId m + 1\<rparr>, fcMaxTaskId m + 1)"

text \<open>
  The programs up to the task that is run: \<open>newClient\<close> is the constructor above, \<open>localFile\<close> the name
  made of the time. Missing arguments are a panic.
\<close>

definition downloadMain :: "(string \<Rightarrow> gerr + fileClient) \<Rightarrow> string \<Rightarrow> string \<Rightarrow> string \<Rightarrow>
    (gerr + downloadTask) outcome" where
  "downloadMain newClient fileServerAddr serverFile localFile =
     (if fileServerAddr = '''' \<or> serverFile = '''' then Panicked
      else case newClient fileServerAddr of
        Inl err \<Rightarrow> Returned (Inl err)
      | Inr m \<Rightarrow> Returned (Inr \<lparr>dtTaskId = snd (newTaskId m), dtServerFile = serverFile,
          dtLocalFile = localFile, dtDownloadedBytes = 0, dtCompleted = False, dtErr = None\<rparr>))"

definition uploadMain :: "(string \<Rightarrow> gerr + fileClient) \<Rightarrow> string \<Rightarrow> string \<Rightarrow>
    (gerr + uploadTask) outcome" where
  "uploadMain newClient serverAddr fileLocal =
     (if fileLocal = '''' \<or> serverAddr = '''' then Panicked
      else case newClient serverAddr of
        Inl err \<Rightarrow> Returned (Inl err)
      | Inr m \<Rightarrow> Returned (Inr \<lparr>utTaskId = snd (newTaskId m), utServerFile = fileLocal,
          utLocalFile = fileLocal, utUploadedBytes = 0, utCompleted = False\<rparr>))"

section \<open>What the servers handle\<close>

lemma registerPaths_handler:
  assumes "\<forall>path \<in> set paths. length path \<le> unat MaxPathLen \<and> ValidatePath parse path"
  shows "map_of (ensureMap (svHandler (registerPaths parse paths sv))) path =
    (if path \<in> set paths then Some TheProgram else map_of (ensureMap (svHandler sv)) path)"
  using assms
proof (induction paths arbitrary: sv)
  case (Cons p paths)
  let ?sv = "fst (Server_RegisterHandler parse p (Some TheProgram) None sv)"
  have "svHandler ?sv = Some (AList.update p TheProgram (ensureMap (svHandler sv)))"
    using Cons.prems by (simp add: Server_RegisterHandler_def server_registerHandler_def Let_def)
  then have "map_of (ensureMap (svHandler ?sv)) path =
      (if path = p then Some TheProgram else map_of (ensureMap (svHandler sv)) path)"
    by (simp add: ensureMap_def update_conv')
  with Cons.IH [of ?sv] Cons.prems show ?case by (auto simp: registerPaths_def)
qed (simp add: registerPaths_def)

section \<open>Becoming a daemon\<close>

lemma ppidEntry_append:
  "ppidEntry (xs @ ys) = (case ppidEntry xs of None \<Rightarrow> ppidEntry ys | Some x \<Rightarrow> Some x)"
  by (induction xs) (auto split: list.splits option.splits)

lemma showNat_no_delim: "CHR ''='' \<notin> set (showNat n)"
  using showNat_digits [of n] by (auto simp: isDigit_def)

lemma ppidEntry_child: "ppidEntry (environ @ [''ppid='' @ showNat pid]) \<noteq> None"
proof -
  have "splitAt (CHR ''='') (''ppid'' @ CHR ''='' # showNat pid) = [''ppid'', showNat pid]"
    by (subst splitAt_append) (simp_all add: splitAt_single showNat_no_delim)
  then show ?thesis by (simp add: ppidEntry_append split: option.split)
qed

text \<open>The echo server becomes a daemon in one step: a process goes on exactly when its environment
  names a parent, a process that does not starts another one or fails and never serves itself, and
  the one it starts goes on, whatever the number of the process; so no chain of processes starts.\<close>

theorem daemonize_once:
  "daemonize intOf executable evalSymlinks startProcess pid environ =
     (if ppidEntry environ \<noteq> None then GoesOn
      else case executable of Inl err \<Rightarrow> Fails err
        | Inr exe \<Rightarrow> (case startProcess (evalSymlinks exe) (environ @ [''ppid='' @ showNat pid]) of
            Some err \<Rightarrow> Fails err
          | None \<Rightarrow> Exits (environ @ [''ppid='' @ showNat pid]))) \<and>
   daemonize intOf' executable' evalSymlinks' startProcess' pid' (environ @ [''ppid='' @ showNat pid]) = GoesOn"
  using ppidEntry_child [of environ pid] by (auto simp: daemonize_def Let_def split: sum.split option.split)

section \<open>The echo programs together\<close>

text \<open>
  The calls of a program's handlers: its own is \<open>handle\<close>, that of the server itself is \<open>self\<close>.
\<close>

definition programRun :: "(string \<Rightarrow> url_values \<Rightarrow> byte list \<Rightarrow> bool \<Rightarrow> byte list \<times> gerr option) \<Rightarrow>
    (string \<Rightarrow> url_values \<Rightarrow> byte list \<Rightarrow> bool \<Rightarrow> (byte list \<times> gerr option) outcome) \<Rightarrow>
    programHandler serverRun" where
  "programRun handle self h path params data completed =
     (case h of TheServer \<Rightarrow> self path params data completed
      | TheProgram \<Rightarrow> Returned (handle path params data completed))"

lemma answer_program:
  assumes "map_of (ensureMap m) path = Some TheProgram"
    and "handle path params data True = (ret, None)" "ret \<noteq> []"
  shows "answer (programRun handle self) m path params data True = Some ret"
  using assms by (simp add: answer_def programRun_def)

lemma echoServer_handler:
  assumes "\<forall>p \<in> {''/echo'', ''/echo_benchmark''}. \<exists>u. parse p = Inr u"
  shows "map_of (ensureMap (svHandler (fst (echoServerMain parse loadKeys listen certFile keyFile ::
    ('q, programHandler) server \<times> gerr option)))) ''/echo'' = Some TheProgram"
proof -
  let ?sv = "NewServer parse TheServer (programConfig 10000) '':9090'' None :: ('q, programHandler) server"
  have "svHandler (fst (echoServerMain parse loadKeys listen certFile keyFile :: ('q, programHandler) server \<times> gerr option)) =
      svHandler (registerPaths parse [''/echo'', ''/echo_benchmark''] ?sv)"
    by (simp add: echoServerMain_def Server_StartListenTLS_def Server_StartListen_def Server_Serve_def Let_def
        split: option.split)
  moreover have "map_of (ensureMap (svHandler (registerPaths parse [''/echo'', ''/echo_benchmark''] ?sv))) ''/echo'' =
      Some TheProgram"
    using assms by (subst registerPaths_handler) (auto simp: ValidatePath_def)
  ultimately show ?thesis by simp
qed

text \<open>
  The lines a \<open>bufio.Scanner\<close> gives of its input: they end with a line feed or the input, lose one
  carriage return at their end, and a line of more than 65535 bytes, which does not fit the buffer
  with what ends it, ends the scan.
\<close>

definition dropCR :: "byte list \<Rightarrow> byte list" where
  "dropCR data = (if data \<noteq> [] \<and> last data = 13 then butlast data else data)"

function scanLines :: "byte list \<Rightarrow> byte list list" where
  "scanLines input =
     (if input = [] then []
      else let raw = takeWhile (\<lambda>b. b \<noteq> 10) input
           in if length raw > 65535 then [] else dropCR raw # scanLines (drop (length raw + 1) input))"
  by pat_completeness auto
termination by (relation "measure length") auto

declare scanLines.simps [simp del]

lemma scanLines_bound: "l \<in> set (scanLines input) \<Longrightarrow> length l \<le> 65535"
proof (induction input rule: scanLines.induct)
  case (1 input)
  then show ?case
    by (subst (asm) (2) scanLines.simps) (auto simp: Let_def dropCR_def split: if_splits)
qed

text \<open>
  What \<open>main\<close> of the echo client prints itself, from its flags, the result of \<open>NewChannel\<close> and the
  results of its requests. (The handler it registers, \<open>EchoClientHandler\<close>, prints besides, from the
  goroutine of the channel.)
\<close>

definition echoPrompt :: string where
  "echoPrompt = ''input some words:'' @ [CHR 0x0A]"

definition echoResult :: "gerr + byte list \<Rightarrow> string" where
  "echoResult response =
     (case response of
        Inl err \<Rightarrow> errorText err @ [CHR 0x0A]
      | Inr bts \<Rightarrow> ''response ret: '' @ stringOf bts @ [CHR 0x0A])"

definition echoMainOutput :: "string \<Rightarrow> string \<Rightarrow> string \<Rightarrow> gerr + 'c \<Rightarrow> (gerr + byte list) list \<Rightarrow> string" where
  "echoMainOutput certFile keyFile tls channel responses =
     ''connect server: 9090'' @ [CHR 0x0A] @
     (if certFile \<noteq> '''' \<and> keyFile \<noteq> '''' then
        ''certfile: '' @ certFile @ '', keyfile: '' @ keyFile @ [CHR 0x0A]
      else if tls \<noteq> ''0'' then ''new tls client'' @ [CHR 0x0A] else '''') @
     (case channel of
        Inl err \<Rightarrow> ''new channel fail, '' @ errorText err @ [CHR 0x0A]
      | Inr ch \<Rightarrow> echoPrompt @ concat (map (\<lambda>response. echoResult response @ echoPrompt) responses))"

text \<open>C10: The example works: the echo client, started without flags, asks the echo server for a channel
  and sends it the lines that its scanner gives of the input, one after the other, as the requests
  \<open>NewDefaultRequest\<close> makes of them (an empty line becomes the two characters of an empty JSON
  object). Every request is answered with its own data, so \<open>main\<close> prints its prompt and, for each
  line in order, that answer and the prompt again, and no error. Lines too long for the scanner end the
  input. The handler that the client registers prints the response, too, from another goroutine
  (\<open>EchoClientHandler\<close>); these lines come in between and are not part of this.\<close>

theorem echo_lines_returned:
  assumes client: "clientIdle elems ca w" "fifoOps ops elems" "\<forall>ns. pickOk (pool ns) ns"
    and server: "serverIdle (chId (chanAt (cwConn w) ca)) sa s"
    and parse: "\<forall>p \<in> {PathNewChannel, ''/echo'', ''/echo_benchmark''}. parse p = Inr (p, [])"
    and dec: "\<forall>k. unmarshal (ResponseNewChannel 0 '''' k) = Inr (0, '''', k)"
    and step: "inStep (cwConn w) s" "cnMaxChannelId s < 4294967295"
      "chId (chanAt (cwConn w) ca) \<le> cnMaxChannelId s"
    and config: "elems ucrq = []" "config = clConfig (echoClient '''' '''' ''0'' :: (unit, unit) client)"
    and handlers: "m = svHandler (fst (echoServerMain parse None None '''' '''') :: (unit, programHandler) server)"
    and requests: "cwRequests w = map NewDefaultRequest (scanLines input)"
  shows "\<exists>w1 s1 cm1 a b st resps.
    newChannelExchange parse ops unmarshal (programRun EchoServerHandler self) crun (pool (cwNotify w)) spick
      cpick ucrq config sdur cdur ca sa w s m cm = (w1, s1, m, cm1, Some (Inr a)) \<and>
    conversation parse ops (programRun EchoServerHandler self) crun pool spick sdur cdur a b
      (map (Pair ''/echo'') [0..<length (scanLines input)]) (w1, s1, m, cm1) = (st, map Some resps) \<and>
    resps = map (\<lambda>l. Inr (if l = [] then bytesOf ''{}'' else l)) (scanLines input) \<and>
    echoMainOutput '''' '''' ''0'' (Inr a) resps = ''connect server: 9090'' @ [CHR 0x0A] @ echoPrompt @
      concat (map (\<lambda>l. ''response ret: '' @ (if l = [] then ''{}'' else stringOf l) @ [CHR 0x0A] @ echoPrompt)
        (scanLines input))"
proof -
  let ?run = "programRun EchoServerHandler self"
  let ?ls = "scanLines input"
  let ?ret = "\<lambda>l. if l = [] then bytesOf ''{}'' else l"
  have pos: "0 < ccChannelPacketQueueLen config"
    by (simp add: config(2) echoClient_def NewClient_def echoConfig_def orDefault32_def)
  have p: "parse PathNewChannel = Inr (PathNewChannel, [])" "parse ''/echo'' = Inr (''/echo'', [])"
    using parse by simp_all
  have h: "map_of (ensureMap m) ''/echo'' = Some TheProgram"
    unfolding handlers by (rule echoServer_handler) (use parse in auto)
  have datas: "map reqData (cwRequests w) = map ?ret ?ls"
    by (simp add: requests NewDefaultRequest_def)
  have ans: "list_all2 (answered parse ?run m (map reqData (cwRequests w)))
      (map (Pair ''/echo'') [0..<length ?ls]) (map ?ret ?ls)"
  proof (rule list_all2_all_nthI)
    fix n
    assume "n < length (map (Pair ''/echo'') [0..<length ?ls])"
    then have n: "n < length ?ls" by simp
    then have "length (?ls ! n) \<le> 65535" by (intro scanLines_bound [of _ input]) simp
    then have c: "carriable ''/echo'' (?ret (?ls ! n))" "?ret (?ls ! n) \<noteq> []"
      by (auto simp: carriable_def bytesOf_def)
    then have "answer ?run m ''/echo'' [] (?ret (?ls ! n)) True = Some (?ret (?ls ! n))"
      by (intro answer_program h) (simp_all add: EchoServerHandler_def)
    then show "answered parse ?run m (map reqData (cwRequests w))
        (map (Pair ''/echo'') [0..<length ?ls] ! n) (map ?ret ?ls ! n)"
      using n c p(2) unfolding datas
      by (simp add: answered_def isUserPath_def PathNewChannel_def PathDeleteChannel_def)
  qed simp
  from session_answered [where parse = parse and params = "[]" and unmarshal = unmarshal and crun = crun
      and spick = spick and cpick = cpick and sdur = sdur and cdur = cdur and cm = cm,
      OF client server p(1) dec step config(1) pos ans]
  obtain w1 s1 cm1 a b w' s' m' cm' where
    "newChannelExchange parse ops unmarshal ?run crun (pool (cwNotify w)) spick cpick ucrq config sdur cdur
       ca sa w s m cm = (w1, s1, m, cm1, Some (Inr a))"
    "conversation parse ops ?run crun pool spick sdur cdur a b (map (Pair ''/echo'') [0..<length ?ls])
      (w1, s1, m, cm1) = ((w', s', m', cm'), map (\<lambda>d. Some (Inr d)) (map ?ret ?ls))" by blast
  moreover have "stringOf (?ret l) = (if l = [] then ''{}'' else stringOf l)" for l by simp
  ultimately show ?thesis
    by - (rule exI [of _ w1], rule exI [of _ s1], rule exI [of _ cm1], rule exI [of _ a], rule exI [of _ b],
      rule exI [of _ "(w', s', m', cm')"], rule exI [of _ "map Inr (map ?ret ?ls)"],
      simp add: echoMainOutput_def echoResult_def comp_def)
qed

text \<open>Fresh connections on both sides, and an input of a line that ends as on Windows, an empty line and a
  line without an end.\<close>

definition linesInput :: "byte list" where
  "linesInput = bytesOf ''one'' @ [13, 10, 10] @ bytesOf ''two''"

lemma linesInput_lines: "scanLines linesInput = [bytesOf ''one'', [], bytesOf ''two'']"
  by (simp add: linesInput_def scanLines.simps bytesOf_def byteOfChar_def dropCR_def Let_def)

definition linesWorld :: "nat list clientWorld" where
  "linesWorld = (waitingWorld [] [])\<lparr>cwRequests := map NewDefaultRequest (scanLines linesInput)\<rparr>"

lemma linesWorld_idle: "clientIdle (\<lambda>q. q) 0 linesWorld" "cwConn linesWorld = cwConn (waitingWorld [] [])"
  using waiting_clientIdle(1) by (simp_all add: linesWorld_def clientIdle_def clientReady_def)

theorem echo_lines_returned_witness:
  "\<exists>w1 s1 cm1 a b st resps m.
    conversation (\<lambda>p. Inr (p, [])) listOps (programRun EchoServerHandler (\<lambda>p q d b. Panicked))
      (\<lambda>(h::unit) p r d b. Panicked) (\<lambda>ns. None) 0 0 0 a b [(''/echo'', 0), (''/echo'', 1), (''/echo'', 2)]
      (w1, s1 :: nat conn, m, cm1) = (st, map Some resps) \<and>
    echoMainOutput '''' '''' ''0'' (Inr a) resps = ''connect server: 9090'' @ [CHR 0x0A] @ echoPrompt @
      ''response ret: one'' @ [CHR 0x0A] @ echoPrompt @ ''response ret: {}'' @ [CHR 0x0A] @ echoPrompt @
      ''response ret: two'' @ [CHR 0x0A] @ echoPrompt"
proof -
  have idle: "serverIdle (chId (chanAt (cwConn linesWorld) 0)) 0 (freshConn RoleServer)"
    unfolding linesWorld_idle waiting_clientIdle(2) by (rule fresh_serverIdle)
  have step: "inStep (cwConn linesWorld) (freshConn RoleServer)" "cnMaxChannelId (freshConn RoleServer) < 4294967295"
    "chId (chanAt (cwConn linesWorld) 0) \<le> cnMaxChannelId (freshConn RoleServer)"
    by (simp_all add: inStep_def fresh_facts linesWorld_idle(2) waiting_clientIdle(2))
  have h: "\<forall>k. decodeNewChannel (ResponseNewChannel 0 '''' k) = Inr (0, '''', k)" "\<forall>ns. pickOk None ns"
    "\<forall>p \<in> {PathNewChannel, ''/echo'', ''/echo_benchmark''}.
       (Inr (p, []) :: gerr + string \<times> url_values) = Inr (p, [])"
    by (simp_all add: decodeNewChannel_response pickOk_def)
  have requests: "cwRequests linesWorld = map NewDefaultRequest (scanLines linesInput)"
    by (simp add: linesWorld_def)
  from echo_lines_returned [where pool = "\<lambda>ns. None" and parse = "\<lambda>p. Inr (p, [])" and ucrq = "[]"
      and crun = "\<lambda>(h::unit) p r d b. Panicked" and spick = 0 and cpick = 0 and sdur = 0 and cdur = 0 and cm = None
      and self = "\<lambda>p q d b. Panicked", OF linesWorld_idle(1) fifo_listOps h(2) idle h(3,1) step refl refl refl requests]
  obtain w1 s1 cm1 a b st resps m where
    "conversation (\<lambda>p. Inr (p, [])) listOps (programRun EchoServerHandler (\<lambda>p q d b. Panicked))
      (\<lambda>(h::unit) p r d b. Panicked) (\<lambda>ns. None) 0 0 0 a b (map (Pair ''/echo'') [0..<length (scanLines linesInput)])
      (w1, s1 :: nat conn, m, cm1) = (st, map Some resps)"
    "echoMainOutput '''' '''' ''0'' (Inr a) resps = ''connect server: 9090'' @ [CHR 0x0A] @ echoPrompt @
      concat (map (\<lambda>l. ''response ret: '' @ (if l = [] then ''{}'' else stringOf l) @ [CHR 0x0A] @ echoPrompt)
        (scanLines linesInput))"
    by (elim exE conjE) (rule that)
  moreover have "bytesOf ''one'' \<noteq> []" "bytesOf ''two'' \<noteq> []" by (simp_all add: bytesOf_def)
  ultimately show ?thesis unfolding linesInput_lines
    by - (rule exI [of _ w1], rule exI [of _ s1], rule exI [of _ cm1], rule exI [of _ a], rule exI [of _ b],
      rule exI [of _ st], rule exI [of _ resps], rule exI [of _ m], simp del: conversation.simps add: upt_rec numeral_2_eq_2)
qed

section \<open>Headers through the adapter's path\<close>

text \<open>The characters of an encoded header.\<close>

definition isB64 :: "string \<Rightarrow> bool" where
  "isB64 v \<longleftrightarrow> (\<forall>c \<in> set v. b64Val c \<noteq> None \<or> c = CHR ''='')"

lemma isB64_base64: "isB64 (base64 bs)"
proof (induction bs rule: base64.induct)
  case (2 a)
  have "unat a * 16 div 64 < 64" using byte_less [of a] by simp
  then show ?case by (simp add: isB64_def Let_def b64Val_b64Char)
next
  case (3 a b)
  have "(unat a * 256 + unat b) * 4 div 4096 < 64" using byte_less [of a] byte_less [of b] by simp
  then show ?case by (simp add: isB64_def Let_def b64Val_b64Char)
next
  case (4 a b c bs)
  have "((unat a * 256 + unat b) * 256 + unat c) div 262144 < 64" using word24 [of a b c] by simp
  with 4 show ?case by (simp add: isB64_def Let_def b64Val_b64Char)
qed (simp add: isB64_def)

text \<open>How package net/url reads a path of one plain element with this one argument.\<close>

definition urlReadsArg :: "(string \<Rightarrow> gerr + string \<times> url_values) \<Rightarrow> bool" where
  "urlReadsArg parse \<longleftrightarrow> (\<forall>p v. (\<forall>c \<in> set p. b64Val c \<noteq> None) \<and> isB64 v \<longrightarrow>
     parse ((CHR ''/'' # p) @ ''?'' @ ArgHttpHeader @ ''='' @ v) = Inr (CHR ''/'' # p, [(ArgHttpHeader, [v])]))"

lemma StartIIPServer_handler:
  assumes "StartIIPServer parse None = Returned (sv :: ('q, programHandler) server)"
    and "\<forall>p \<in> {''/echo'', ''/http_header_echo''}. \<exists>u. parse p = Inr u"
  shows "map_of (ensureMap (svHandler sv)) ''/http_header_echo'' = Some TheProgram"
proof -
  let ?sv = "NewServer parse TheServer (programConfig 10000) '':9093'' None :: ('q, programHandler) server"
  have "svHandler sv = svHandler (registerPaths parse [''/echo'', ''/http_header_echo''] ?sv)"
    using assms(1) by (auto simp: StartIIPServer_def Server_StartListen_def Server_Serve_def Let_def)
  moreover have "map_of (ensureMap (svHandler (registerPaths parse [''/echo'', ''/http_header_echo''] ?sv)))
      ''/http_header_echo'' = Some TheProgram"
    using assms(2) by (subst registerPaths_handler) (auto simp: ValidatePath_def)
  ultimately show ?thesis by simp
qed

text \<open>C36: HTTP headers make the whole way: for a request with headers whose path the adapter extends with
  the encoded headers, the server of the adapter's test, set up by its \<open>StartIIPServer\<close>, answers on
  the path that echoes headers with exactly the JSON text of those headers, which is what the
  caller of the request is given, and the channel is idle again on both sides. The headers must
  fit into the path, the URL must be read as it is written, and the decoder must read back the
  JSON text of the headers.\<close>

theorem http_headers_echoed:
  assumes client: "clientIdle elems ca w" "fifoOps ops elems" "pickOk pick (cwNotify w)"
    and server: "serverIdle (chId (chanAt (cwConn w) ca)) sa s"
    and program: "StartIIPServer parse None = Returned (sv :: (unit, programHandler) server)"
    and url: "\<forall>p \<in> {''/echo'', ''/http_header_echo''}. \<exists>u. parse p = Inr u" "urlReadsArg parse"
    and json: "unmarshal (bytesOf (headerJson (hrHeader req))) = Inr (hrHeader req)"
    and req: "hrRequestURI req = ''/http_header_echo''" "hrRawQuery req = ''''" "hrBody req = Inr body"
    and r: "r < length (cwRequests w)" "reqData (cwRequests w ! r) = body"
    and small: "carriable (withHeaderArg req) body" "length (headerJson (hrHeader req)) \<le> unat MaxPacketSize"
  shows "\<exists>w' s' m' cm' w''.
    exchange parse ops (programRun (TestServer_Handle unmarshal) self) crun pick spick sdur cdur ca sa
      (withHeaderArg req) r w s (svHandler sv) cm =
      (w', s', m', cm', Some (w'', Inr (bytesOf (headerJson (hrHeader req))))) \<and>
    clientIdle elems ca w'' \<and> serverIdle (chId (chanAt (cwConn w'') ca)) sa s'"
proof -
  let ?v = "HttpHeaderToIIPArg (hrHeader req)" and ?d = "bytesOf (headerJson (hrHeader req))"
  have "isB64 ?v" by (simp add: HttpHeaderToIIPArg_def isB64_base64)
  then have p: "parse (withHeaderArg req) = Inr (''/http_header_echo'', [(ArgHttpHeader, [?v])])"
    using url(2) [unfolded urlReadsArg_def, rule_format, of "''http_header_echo''" ?v] req(1,2)
    by (simp add: withHeaderArg_def b64Val_def)
  have h: "TestServer_Handle unmarshal ''/http_header_echo'' [(ArgHttpHeader, [?v])] body True = (?d, None)"
    using json by (simp add: TestServer_Handle_def valuesGet_def http_header_arg_roundtrip marshalHeader_def)
  have ne: "?d \<noteq> []" by (simp add: headerJson_def jsonDict_def jsonObject_def bytesOf_def)
  have ans: "answer (programRun (TestServer_Handle unmarshal) self) (svHandler sv) ''/http_header_echo''
      [(ArgHttpHeader, [?v])] body True = Some ?d"
    by (rule answer_program [where handle = "TestServer_Handle unmarshal" and path = "''/http_header_echo''" and
          params = "[(ArgHttpHeader, [?v])]" and data = body, OF StartIIPServer_handler [OF program url(1)] h ne])
  have "isUserPath ''/http_header_echo''" "carriable ''/http_header_echo'' ?d"
    using ne small(2) by (simp_all add: isUserPath_def PathNewChannel_def PathDeleteChannel_def carriable_def bytesOf_def)
  note exch = exchange_idle [where parse = parse and path = "withHeaderArg req" and upath = "''/http_header_echo''"
      and params = "[(ArgHttpHeader, [?v])]" and crun = crun and spick = spick and sdur = sdur and cdur = cdur
      and cm = cm, OF client server r(1) p small(1) [folded r(2)] this(1) ans [folded r(2)] this(2)]
  show ?thesis using exch unfolding r(2) by blast
qed

text \<open>A parser that reads one argument, and a request with one header.\<close>

definition argParse :: "string \<Rightarrow> gerr + string \<times> url_values" where
  "argParse s =
     (let p = takeWhile (\<lambda>c. c \<noteq> CHR ''?'') s;
          q = drop (length p + 1) s;
          k = takeWhile (\<lambda>c. c \<noteq> CHR ''='') q
      in Inr (p, if q = [] then [] else [(k, [drop (length k + 1) q])]))"

lemma takeWhile_upto: "x \<notin> set xs \<Longrightarrow> takeWhile (\<lambda>c. c \<noteq> x) (xs @ x # ys) = xs"
  by (induction xs) auto

lemma argParse_reads: "urlReadsArg argParse"
proof -
  have *: "argParse (path @ ''?'' @ ArgHttpHeader @ ''='' @ v) = Inr (path, [(ArgHttpHeader, [v])])"
    if "CHR ''?'' \<notin> set path" for path v
  proof -
    have "takeWhile (\<lambda>c. c \<noteq> CHR ''?'') (path @ ''?'' @ ArgHttpHeader @ ''='' @ v) = path"
      using takeWhile_upto [OF that] by simp
    moreover have "takeWhile (\<lambda>c. c \<noteq> CHR ''='') (ArgHttpHeader @ CHR ''='' # v) = ArgHttpHeader"
      by (rule takeWhile_upto) (simp add: ArgHttpHeader_def)
    ultimately show ?thesis by (simp add: argParse_def Let_def)
  qed
  have "CHR ''?'' \<notin> set (CHR ''/'' # p)" if "\<forall>c \<in> set p. b64Val c \<noteq> None" for p
    using that by (auto simp: b64Val_def)
  from * [OF this] show ?thesis by (simp add: urlReadsArg_def)
qed

definition oneHeader :: httpRequest where
  "oneHeader = \<lparr>hrHost = ''localhost'', hrRequestURI = ''/http_header_echo'', hrRawQuery = '''',
     hrHeader = [(''A'', [''b''])], hrBody = Inr [1]\<rparr>"

lemma oneHeader_json: "headerJson (hrHeader oneHeader) = ''{\"A\":[\"b\"]}''"
  by (simp add: oneHeader_def headerJson_def jsonDict_def jsonObject_def jsonArray_def jsonString_def jsonChar_def)

theorem http_headers_echoed_witness:
  "\<exists>w' s' m m' cm' w''.
    exchange argParse listOps (programRun (TestServer_Handle (\<lambda>bs. Inr [(''A'', [''b''])])) (\<lambda>p q d b. Panicked))
      (\<lambda>(h::unit) p r d b. Panicked) None 0 0 0 0 0 (withHeaderArg oneHeader) 0
      (waitingWorld [] []) (freshConn RoleServer) m None =
      (w', s', m', cm', Some (w'', Inr (bytesOf ''{\"A\":[\"b\"]}'')))"
proof -
  have idle: "serverIdle (chId (chanAt (cwConn (waitingWorld [] [])) 0)) 0 (freshConn RoleServer)"
    unfolding waiting_clientIdle(2) by (rule fresh_serverIdle)
  obtain sv :: "(unit, programHandler) server" where sv: "StartIIPServer argParse None = Returned sv"
    by (simp add: StartIIPServer_def Server_StartListen_def Let_def)
  have url: "\<forall>p \<in> {''/echo'', ''/http_header_echo''}. \<exists>u. argParse p = Inr u"
    by (simp add: argParse_def Let_def)
  have req: "hrRequestURI oneHeader = ''/http_header_echo''" "hrRawQuery oneHeader = ''''" "hrBody oneHeader = Inr [1]"
    "hrHeader oneHeader = [(''A'', [''b''])]"
    by (simp_all add: oneHeader_def)
  have w: "reqData (cwRequests (waitingWorld [] []) ! 0) = [1]" "0 < length (cwRequests (waitingWorld [] []))"
    "pickOk None (cwNotify (waitingWorld [] []))"
    by (simp_all add: waitingWorld_def pickOk_def)
  have "length (headerJson (hrHeader oneHeader)) = 11" by (simp add: oneHeader_json)
  then have "length (withHeaderArg oneHeader) \<le> unat MaxPathLen"
    by (simp add: length_withHeaderArg req(1))
  moreover have "CHR 0x00 \<notin> set (HttpHeaderToIIPArg (hrHeader oneHeader))"
    using isB64_base64 [of "bytesOf (headerJson (hrHeader oneHeader))"]
    by (auto simp: isB64_def b64Val_def HttpHeaderToIIPArg_def headerJson_def)
  ultimately have small: "carriable (withHeaderArg oneHeader) [1]"
    "length (headerJson (hrHeader oneHeader)) \<le> unat MaxPacketSize"
    by (simp_all add: carriable_def oneHeader_json) (simp_all add: withHeaderArg_def req ArgHttpHeader_def)
  from http_headers_echoed [where parse = argParse and req = oneHeader and
      unmarshal = "\<lambda>bs. Inr [(''A'', [''b''])]" and self = "\<lambda>p q d b. Panicked" and
      crun = "\<lambda>(h::unit) p r d b. Panicked" and spick = 0 and sdur = 0 and cdur = 0 and cm = None,
      OF waiting_clientIdle(1) fifo_listOps w(3) idle sv url argParse_reads _ req(1-3) w(2,1) small]
  show ?thesis unfolding oneHeader_json by (simp add: req(4)) blast
qed

section \<open>The adapters that are set up\<close>

text \<open>
  The adapter of the test: a request for the host localhost goes to the one backend when the route
  function names it, or names none and the pattern matches; any other host has no backend.
\<close>

definition testServers :: "(string \<times> nat) list" where
  "testServers = [('':9093'', 1), ('':9093'', 1)]"

lemma testBalancer:
  obtains lb :: "(unit, unit, unit) balancer" where
    "NewLoadBalanceClient 10 10 '':9093#1,:9093#1'' = Inr lb" "length (lbBackends lb) = 2"
proof -
  have ok: "testServers \<noteq> []" "\<forall>e \<in> set testServers. serverEntry e"
    by (simp_all add: testServers_def serverEntry_def isSpace_def)
  have txt_eq: "serverListText testServers = '':9093#1,:9093#1''"
    by (simp add: testServers_def serverListText_def entryText_def showNat.simps [of "Suc 0"] char_of_def bit_0)
  obtain lb :: "(unit, unit, unit) balancer" where lb: "NewLoadBalanceClient 10 10 (serverListText testServers) = Inr lb"
    using parseServers_text [OF ok] ok(1) by (simp add: NewLoadBalanceClient_def Let_def)
  have "interleaved (map snd testServers) = [0, 1]"
    by (simp add: interleaved_def weightTurn_def testServers_def upt_rec)
  then have "length (lbBackends lb) = 2"
    unfolding NewLoadBalanceClient_text(2) [OF ok lb] by (simp add: weightLoop_interleaved)
  with lb show ?thesis using that txt_eq by simp
qed

theorem test_adapter_routes:
  assumes "newConfig (bytesOf routeJson) newDict = (dict, Inr conf)" "compile ''^/http_header'' = Inr ex"
    and "matchString ex uri \<or> findString ex uri = uri"
    and "getAlias \<lparr>jeDict = registerVar varIIPBackend (registerVar varUri (registerVar varHost dict)),
      jeConfig = conf, routeGroupName = ''route''\<rparr> ''localhost'' uri \<in> {'''', ''echo_server''}"
  shows "\<exists>ha lb. StartAdapterServer newDict registerVar newConfig compile =
      Returned (ha :: (unit, unit, unit, 'e, ('d, 'conf) jsonExpRoute) adapter) \<and>
    findBackend findString matchString getAlias ''localhost'' uri ha = Some (''echo_server'', lb) \<and>
    length (lbBackends lb) = 2 \<and>
    (\<forall>host. host \<noteq> ''localhost'' \<longrightarrow> findBackend findString matchString getAlias host uri ha = None)"
proof -
  obtain lb :: "(unit, unit, unit) balancer" where
    lb: "NewLoadBalanceClient 10 10 '':9093#1,:9093#1'' = Inr lb" "length (lbBackends lb) = 2"
    by (rule testBalancer)
  let ?f = "\<lparr>jeDict = registerVar varIIPBackend (registerVar varUri (registerVar varHost dict)),
      jeConfig = conf, routeGroupName = ''route''\<rparr>"
  let ?ha = "\<lparr>haAddr = '':9092'', haTlsCertFile = '''', haTlsKeyFile = '''', haTimeout = seconds 1,
      haBackends = [(''echo_server'', lb)],
      haRoutes = [(''localhost'', [\<lparr>rrRegExp = ''^/http_header'', rrExpr = ex, rrAlias = ''echo_server''\<rparr>])],
      haRouteFuncs = [(''localhost'', ?f)]\<rparr>"
  have "StartAdapterServer newDict registerVar newConfig compile = Returned ?ha"
    using assms(1,2) lb(1)
    by (simp add: StartAdapterServer_def RegisterBackend_def NewHttpAdapterServer_def echoBackend_def
        NewJsonExpRoute_def RegisterRouteFunc_def PushRouteTail_def checkRoute_def routesOf_def)
  moreover have "findBackend findString matchString getAlias ''localhost'' uri ?ha = Some (''echo_server'', lb)"
    using assms(3,4) by (auto simp: findBackend_def findFuncRoute_def findRegExpRoute_def getBackend_def)
  moreover have "findBackend findString matchString getAlias host uri ?ha = None" if "host \<noteq> ''localhost''" for host
    using that by (simp add: findBackend_def findFuncRoute_def findRegExpRoute_def)
  ultimately show ?thesis using lb(2) by blast
qed

text \<open>A pattern as its text after the first character, which matches a prefix.\<close>

theorem test_adapter_routes_witness:
  "\<exists>ha lb. StartAdapterServer [] (#) (\<lambda>bs d. (d, Inr ())) (\<lambda>p. Inr (tl p)) =
      Returned (ha :: (unit, unit, unit, string, (string list, unit) jsonExpRoute) adapter) \<and>
    findBackend (\<lambda>ex uri. if take (length ex) uri = ex then ex else '''') (\<lambda>ex uri. take (length ex) uri = ex)
      (\<lambda>f host uri. '''') ''localhost'' ''/http_header_echo'' ha = Some (''echo_server'', lb)"
  using test_adapter_routes [where registerVar = "(#)", of "\<lambda>bs d. (d, Inr ())" "[]" "[]" "()" "\<lambda>p. Inr (tl p)" "''/http_header''"
      "\<lambda>ex uri. take (length ex) uri = ex" "''/http_header_echo''"
      "\<lambda>ex uri. if take (length ex) uri = ex then ex else ''''" "\<lambda>f host uri. ''''"]
  by auto

section \<open>The file download as a program\<close>

text \<open>The client started with a server and a file of it writes a new local file with that content.\<close>

theorem download_program:
  assumes "newClient addr = Inr m" "addr \<noteq> ''''" "f \<noteq> ''''"
    and "decodesTask unmarshal (fcMaxTaskId m + 1) f (length content)"
    and "fs f = Some (Regular content)" "length content < 2 ^ 63" "(length content + 10235) div 10236 < n"
  shows "\<exists>task st. downloadMain newClient addr f out = Returned (Inr task) \<and>
    runDownload (downloadServer unmarshal fs) n \<lparr>dsTask = task, dsLocal = []\<rparr> = Some (st, None) \<and>
    dsLocal st = content"
proof -
  let ?task = "\<lparr>dtTaskId = fcMaxTaskId m + 1, dtServerFile = f, dtLocalFile = out, dtDownloadedBytes = 0,
      dtCompleted = False, dtErr = None\<rparr>"
  have "downloadMain newClient addr f out = Returned (Inr ?task)"
    using assms(1-3) by (simp add: downloadMain_def newTaskId_def)
  moreover have "\<exists>st. runDownload (downloadServer unmarshal fs) n \<lparr>dsTask = ?task, dsLocal = []\<rparr> = Some (st, None) \<and>
      dsLocal st = content"
    using downloadLoop_complete [of unmarshal "\<lparr>dsTask = ?task, dsLocal = []\<rparr>" f content fs 0 n] assms(4-7)
    by (auto simp: runDownload_def FileDownloadClient_RunTask_def NewFileDownloadRequest_def taskRequest_def)
  ultimately show ?thesis by blast
qed

theorem download_program_witness:
  "\<exists>task st. downloadMain (\<lambda>a. Inr \<lparr>fcMaxTaskId = 0, fcChannel = (0, 1)\<rparr>) '':9091'' ''a'' ''b'' = Returned (Inr task) \<and>
    runDownload (downloadServer (decodeFor ''a'') [''a'' \<mapsto> Regular [1, 2, 3]]) 2 \<lparr>dsTask = task, dsLocal = []\<rparr> =
      Some (st, None) \<and> dsLocal st = [1, 2, 3]"
proof -
  have "decodesTask (decodeFor ''a'') 1 ''a'' (length [1 :: byte, 2, 3])"
    by (simp add: decodesTask_def decodeFor_Data Let_def)
  then show ?thesis
    using download_program [of "\<lambda>a. Inr \<lparr>fcMaxTaskId = 0, fcChannel = (0, 1)\<rparr>" "'':9091''"
        "\<lparr>fcMaxTaskId = 0, fcChannel = (0, 1)\<rparr>" "''a''" "decodeFor ''a''" "[1, 2, 3]"
        "[''a'' \<mapsto> Regular [1, 2, 3]]" 2 "''b''"]
    by simp
qed

section \<open>The file upload as a program\<close>

text \<open>The client started with a local file stores its content in the file of the server for its name.\<close>

theorem upload_program:
  assumes "newClient addr = Inr m" "addr \<noteq> ''''" "f \<noteq> ''''"
    and "\<forall>k fin. decodesMeta unmarshal \<lparr>umTaskId = fcMaxTaskId m + 1, umFilePath = f,
      umStartPos = word_of_nat k, umCompleted = fin\<rparr>"
    and "\<forall>i n. unmarshalResponse (uploadResponse_Json i n) = Inr (i, n)"
    and "openErr (uploadName f) = None" "length content < 2 ^ 63" "(length content + 10485759) div 10485760 < n"
  shows "\<exists>task task' files'. uploadMain newClient addr f = Returned (Inr task) \<and>
    runUpload (uploadServer unmarshal openErr) unmarshalResponse content n task files =
      Some (task', UploadEnds None, files') \<and>
    map_of files' (uploadName f) = Some content \<and> (\<forall>g. g \<noteq> uploadName f \<longrightarrow> map_of files' g = map_of files g)"
proof -
  let ?task = "\<lparr>utTaskId = fcMaxTaskId m + 1, utServerFile = f, utLocalFile = f, utUploadedBytes = 0,
      utCompleted = False\<rparr>"
  have "uploadMain newClient addr f = Returned (Inr ?task)"
    using assms(1-3) by (simp add: uploadMain_def newTaskId_def)
  moreover have "\<exists>task' files'. runUpload (uploadServer unmarshal openErr) unmarshalResponse content n ?task files =
      Some (task', UploadEnds None, files') \<and>
    map_of files' (uploadName f) = Some content \<and> (\<forall>g. g \<noteq> uploadName f \<longrightarrow> map_of files' g = map_of files g)"
    using uploadLoop_complete [of content unmarshal ?task unmarshalResponse "uploadName f" openErr 0 files n] assms(4-8)
    by (fastforce simp: runUpload_def metaAt_def)
  ultimately show ?thesis by blast
qed

theorem upload_program_witness:
  "\<exists>task task' files'. uploadMain (\<lambda>a. Inr \<lparr>fcMaxTaskId = 0, fcChannel = (0, 1)\<rparr>) '':9092'' ''a'' = Returned (Inr task) \<and>
    runUpload (uploadServer (decodeMetaFor ''a'') (\<lambda>_. None)) decodeResponse [1, 2, 3] 2 task [] =
      Some (task', UploadEnds None, files') \<and>
    map_of files' (uploadName ''a'') = Some [1, 2, 3]"
  using upload_program [of "\<lambda>a. Inr \<lparr>fcMaxTaskId = 0, fcChannel = (0, 1)\<rparr>" "'':9092''"
      "\<lparr>fcMaxTaskId = 0, fcChannel = (0, 1)\<rparr>" "''a''" "decodeMetaFor ''a''" decodeResponse "\<lambda>_. None" "[1, 2, 3]" 2 "[]"]
    newUpload_decodes decodeResponse_Json
  by (auto simp: newUpload_def metaAt_def)

end
