(* ===== verification/Log.thy ===== *)
theory Log
  imports Shared
begin

text \<open>
  The default logger of \<open>log.go\<close>: its level, and the text each method writes to the standard
  output or the standard error output. The methods with a format are given the text that
  \<open>fmt.Sprintf\<close> made of their arguments.
\<close>

section \<open>Levels and outputs\<close>

type_synonym logLevel = i64

definition LogLevelError :: logLevel where "LogLevelError = 0"
definition LoglevelWarn :: logLevel where "LoglevelWarn = 1"
definition LogLevelLog :: logLevel where "LogLevelLog = 2"
definition LogLevelDebug :: logLevel where "LogLevelDebug = 3"

lemmas level_defs = LogLevelError_def LoglevelWarn_def LogLevelLog_def LogLevelDebug_def

record logger =
  lgLevel :: logLevel

record outputs =
  osStdout :: string
  osStderr :: string

definition Logger_GetLevel :: "logger \<Rightarrow> logLevel" where "Logger_GetLevel m = lgLevel m"

definition Logger_SetLevel :: "logLevel \<Rightarrow> logger \<Rightarrow> logger" where
  "Logger_SetLevel v m = m\<lparr>lgLevel := v\<rparr>"

text \<open>The logger of the package: \<open>nil\<close> fields are zero, so it starts at the level of errors.\<close>

definition defaultLogger :: logger where "defaultLogger = \<lparr>lgLevel = 0\<rparr>"

definition toStdout :: "string \<Rightarrow> outputs \<Rightarrow> outputs" where
  "toStdout s w = w\<lparr>osStdout := osStdout w @ s\<rparr>"

definition toStderr :: "string \<Rightarrow> outputs \<Rightarrow> outputs" where
  "toStderr s w = w\<lparr>osStderr := osStderr w @ s\<rparr>"

definition noNewline :: "string \<Rightarrow> bool" where
  "noNewline s \<longleftrightarrow> length s = 0 \<or> s ! (length s - 1) \<noteq> CHR 0x0A"

definition endLine :: "string \<Rightarrow> string" where
  "endLine s = (if noNewline s then s @ newline else s)"

section \<open>The methods\<close>

definition Logger_Debug :: "logger \<Rightarrow> string \<Rightarrow> outputs \<Rightarrow> outputs" where
  "Logger_Debug m s w =
     (if sint (lgLevel m) < sint LogLevelLog then w
      else let w1 = toStdout s w in if noNewline s then toStdout newline w1 else w1)"

definition Logger_Debugf :: "logger \<Rightarrow> string \<Rightarrow> outputs \<Rightarrow> outputs" where
  "Logger_Debugf m s w =
     (if sint (lgLevel m) < sint LogLevelLog then w else toStdout (endLine s) w)"

definition Logger_Log :: "logger \<Rightarrow> string \<Rightarrow> outputs \<Rightarrow> outputs" where
  "Logger_Log m s w =
     (if sint (lgLevel m) < sint LogLevelLog then w
      else let w1 = toStdout s w in if noNewline s then toStdout newline w1 else w1)"

definition Logger_Logf :: "logger \<Rightarrow> string \<Rightarrow> outputs \<Rightarrow> outputs" where
  "Logger_Logf m s w =
     (if sint (lgLevel m) < sint LogLevelLog then w else toStdout (endLine s) w)"

definition Logger_Warn :: "logger \<Rightarrow> string \<Rightarrow> outputs \<Rightarrow> outputs" where
  "Logger_Warn m s w =
     (if sint (lgLevel m) < sint LoglevelWarn then w else toStderr (endLine s) w)"

definition Logger_Warnf :: "logger \<Rightarrow> string \<Rightarrow> outputs \<Rightarrow> outputs" where
  "Logger_Warnf m s w =
     (if sint (lgLevel m) < sint LoglevelWarn then w else toStderr (endLine s) w)"

definition Logger_Error :: "string \<Rightarrow> outputs \<Rightarrow> outputs" where
  "Logger_Error s w =
     (let w1 = toStderr s w in if noNewline s then toStderr newline w1 else w1)"

definition Logger_Errorf :: "string \<Rightarrow> outputs \<Rightarrow> outputs" where
  "Logger_Errorf s w = toStderr (endLine s) w"

text \<open>The logger of the package is a variable.\<close>

definition GetLogger :: "logger \<Rightarrow> logger" where "GetLogger log = log"

definition SetLogger :: "logger \<Rightarrow> logger \<Rightarrow> logger" where "SetLogger new log = new"

section \<open>What is written\<close>

text \<open>Every message written is one line, whichever of the two ways a method ends it.\<close>

lemma endLine_split:
  "(let w1 = toStdout s w in if noNewline s then toStdout newline w1 else w1) = toStdout (endLine s) w"
  "(let w1 = toStderr s w in if noNewline s then toStderr newline w1 else w1) = toStderr (endLine s) w"
  by (simp_all add: endLine_def toStdout_def toStderr_def)

lemma endLine_last: "\<exists>t. endLine s = t @ newline"
proof (cases "noNewline s")
  case False
  then have "s \<noteq> []" "last s = CHR 0x0A" by (auto simp: noNewline_def last_conv_nth)
  then have "s = butlast s @ newline" by (simp add: newline_def) (metis append_butlast_last_id)
  with False show ?thesis by (auto simp: endLine_def)
qed (simp add: endLine_def)

text \<open>No level tells debug messages from log messages: the guard of \<open>Debug\<close> compares with the
  level of log messages.\<close>

lemma debug_is_log:
  "Logger_Debug m s w = Logger_Log m s w" "Logger_Debugf m s w = Logger_Logf m s w"
  by (simp_all add: Logger_Debug_def Logger_Log_def Logger_Debugf_def Logger_Logf_def)

text \<open>The four kinds of messages and the levels: at every level an error is written as one line to
  the error output, a warning from level 1 on, and a log message as one line to the standard
  output from level 2 on; a debug message needs level 2 as well, not the level of its name, so
  no level shows log messages without debug messages. The variants with a format write the same.\<close>

theorem logger_levels:
  "Logger_Error s w = toStderr (endLine s) w \<and> Logger_Errorf s w = Logger_Error s w \<and>
   Logger_Warn m s w = (if sint (lgLevel m) < 1 then w else toStderr (endLine s) w) \<and>
   Logger_Warnf m s w = Logger_Warn m s w \<and>
   Logger_Log m s w = (if sint (lgLevel m) < 2 then w else toStdout (endLine s) w) \<and>
   Logger_Logf m s w = Logger_Log m s w \<and>
   Logger_Debug m s w = Logger_Log m s w \<and> Logger_Debugf m s w = Logger_Log m s w"
  by (simp add: Logger_Error_def Logger_Errorf_def Logger_Warn_def Logger_Warnf_def Logger_Log_def
      Logger_Logf_def Logger_Debug_def Logger_Debugf_def endLine_split level_defs)

end
