(* ===== verification/Iq.thy ===== *)
theory Iq
  imports LbClient
begin

text \<open>
  The command \<open>iq\<close> of \<open>iq/iq.go\<close>: from its arguments to the request it makes. The flags are the
  fields of a record, \<open>readFile\<close> reads the file of the flag data-file. The channel and the request
  are the library's \<open>NewChannel\<close> and \<open>DoRequest\<close>; \<open>iqRun\<close> takes them as arguments.
\<close>

section \<open>Arguments\<close>

record iqFlags =
  argData :: string
  argDataFile :: string
  argTimeout :: string
  argTlsCertFile :: string
  argTlsKeyFile :: string
  argTls :: string

text \<open>The values the flags have when they are not given.\<close>

definition iqDefaults :: iqFlags where
  "iqDefaults = \<lparr>argData = '''', argDataFile = '''', argTimeout = ''1s'', argTlsCertFile = '''',
     argTlsKeyFile = '''', argTls = ''0''\<rparr>"

text \<open>\<open>strings.Index\<close> of one character, and the two parts of the address.\<close>

fun indexOf :: "char \<Rightarrow> string \<Rightarrow> nat option" where
  "indexOf c [] = None"
| "indexOf c (x # xs) = (if x = c then Some 0 else map_option Suc (indexOf c xs))"

definition iqUri :: "string \<Rightarrow> string + string \<times> string" where
  "iqUri uri =
     (case indexOf (CHR ''/'') uri of
        None \<Rightarrow> Inl (''invalid uri '' @ uri @ '', see --help'')
      | Some pathIndex \<Rightarrow>
          if pathIndex = 0 then Inl (''invalid uri '' @ uri @ '', see --help'')
          else Inr (take pathIndex uri, drop pathIndex uri))"

definition iqData :: "(string \<Rightarrow> gerr + byte list) \<Rightarrow> iqFlags \<Rightarrow> string + byte list" where
  "iqData readFile fl =
     (if argData fl \<noteq> '''' then Inr (bytesOf (argData fl))
      else if argDataFile fl \<noteq> '''' then
        (case readFile (argDataFile fl) of
           Inr bts \<Rightarrow> Inr bts
         | Inl err \<Rightarrow> Inl (''read file '' @ argDataFile fl @ '' fail, '' @ errorText err))
      else Inr [])"

text \<open>
  The time limit: a range over the characters; every character that is not a digit, wherever it
  stands, must follow a number and start a unit. \<open>i\<close> is the index, \<open>rest\<close> the characters left.
\<close>

definition Millisecond :: i64 where "Millisecond = 1000000"
definition Second :: i64 where "Second = 1000000000"

definition invalidTimeout :: string where
  "invalidTimeout = ''invalid timeout arg, see --help''"

fun iqTimeoutLoop :: "string \<Rightarrow> nat \<Rightarrow> string \<Rightarrow> i64 \<Rightarrow> string + i64" where
  "iqTimeoutLoop timeOut i [] timeoutDuration = Inr timeoutDuration"
| "iqTimeoutLoop timeOut i (c # rest) timeoutDuration =
     (if \<not> isDigit c then
        (case atoi (take i timeOut) of
           None \<Rightarrow> Inl invalidTimeout
         | Some n \<Rightarrow>
             if drop i timeOut = ''ms'' then
               iqTimeoutLoop timeOut (i + 1) rest (word_of_int n * Millisecond)
             else if drop i timeOut = ''s'' then
               iqTimeoutLoop timeOut (i + 1) rest (word_of_int n * Second)
             else Inl invalidTimeout)
      else iqTimeoutLoop timeOut (i + 1) rest timeoutDuration)"

definition iqTimeout :: "string \<Rightarrow> string + i64" where
  "iqTimeout timeOut = iqTimeoutLoop timeOut 0 timeOut Second"

section \<open>The client\<close>

definition iqConfig :: clientConfig where
  "iqConfig = \<lparr>ccMaxConnections = 1000, ccMaxChannelsPerConn = 10, ccChannelPacketQueueLen = 1000,
     ccTcpWriteQueueLen = 1000, ccTcpConnectTimeout = seconds 3, ccTcpReadBufferSize = 16 * 1024,
     ccTcpWriteBufferSize = 16 * 1024, ccWaitResponseTimeout = 0\<rparr>"

definition iqClient :: "iqFlags \<Rightarrow> string \<Rightarrow> ('q, 'h) client" where
  "iqClient fl svrAddr =
     (if argTlsCertFile fl \<noteq> '''' \<and> argTlsKeyFile fl \<noteq> '''' then
        NewClientTLS iqConfig svrAddr None (argTlsCertFile fl) (argTlsKeyFile fl)
      else if argTls fl \<noteq> ''0'' then NewClientTLS iqConfig svrAddr None '''' ''''
      else NewClient iqConfig svrAddr None)"

text \<open>The client, path, request and time limit of the call, or the message it ends with.\<close>

definition iqMain :: "(string \<Rightarrow> gerr + byte list) \<Rightarrow> iqFlags \<Rightarrow> string list \<Rightarrow>
    string + ('q, 'h) client \<times> string \<times> ctxVal request \<times> i64" where
  "iqMain readFile fl args =
     (case args of
        [] \<Rightarrow> Inl (''see --help'' @ [CHR 0x0A])
      | uri # _ \<Rightarrow>
          bindE (iqUri uri) (\<lambda>(svrAddr, path).
          bindE (iqData readFile fl) (\<lambda>data.
          bindE (iqTimeout (argTimeout fl)) (\<lambda>timeoutDuration.
            Inr (iqClient fl svrAddr, path, NewDefaultRequest data, timeoutDuration)))))"

text \<open>
  The whole command with what it prints; \<open>connect\<close> is \<open>Client.NewChannel\<close> and \<open>request\<close> is
  \<open>ClientChannel.DoRequest\<close>.
\<close>

definition iqRun :: "(string \<Rightarrow> gerr + byte list) \<Rightarrow> (('q, 'h) client \<Rightarrow> gerr + 'c) \<Rightarrow>
    ('c \<Rightarrow> string \<Rightarrow> ctxVal request \<Rightarrow> i64 \<Rightarrow> gerr + byte list) \<Rightarrow> iqFlags \<Rightarrow> string list \<Rightarrow> string" where
  "iqRun readFile connect request fl args =
     (case iqMain readFile fl args of
        Inl message \<Rightarrow> message
      | Inr (client, path, req, timeoutDuration) \<Rightarrow>
          (case connect client of
             Inl err \<Rightarrow> ''new channel fail, '' @ errorText err @ [CHR 0x0A]
           | Inr channel \<Rightarrow>
               (case request channel path req timeoutDuration of
                  Inl err \<Rightarrow> errorText err @ [CHR 0x0A]
                | Inr bts \<Rightarrow> stringOf bts)))"

section \<open>Addresses\<close>

lemma indexOf_Some:
  "indexOf c s = Some i \<Longrightarrow> i < length s \<and> s ! i = c \<and> c \<notin> set (take i s)"
  by (induction s arbitrary: i) (auto split: if_splits)

lemma indexOf_append: "c \<notin> set s \<Longrightarrow> indexOf c (s @ c # t) = Some (length s)"
  by (induction s) auto

lemma iqUri_Inr:
  "iqUri uri = Inr (addr, path) \<longleftrightarrow>
     uri = addr @ path \<and> addr \<noteq> [] \<and> CHR ''/'' \<notin> set addr \<and> (\<exists>p. path = CHR ''/'' # p)"
proof
  assume "iqUri uri = Inr (addr, path)"
  then obtain i where i: "indexOf (CHR ''/'') uri = Some i" "i \<noteq> 0" "addr = take i uri" "path = drop i uri"
    by (auto simp: iqUri_def split: option.splits if_splits)
  with indexOf_Some [OF i(1)] show "uri = addr @ path \<and> addr \<noteq> [] \<and> CHR ''/'' \<notin> set addr \<and>
      (\<exists>p. path = CHR ''/'' # p)"
    by (metis Cons_nth_drop_Suc append_take_drop_id length_0_conv length_take less_imp_le min.absorb2)
next
  assume a: "uri = addr @ path \<and> addr \<noteq> [] \<and> CHR ''/'' \<notin> set addr \<and> (\<exists>p. path = CHR ''/'' # p)"
  then obtain p where "uri = addr @ CHR ''/'' # p" "path = CHR ''/'' # p" by auto
  with a indexOf_append [of "CHR ''/''" addr p] show "iqUri uri = Inr (addr, path)"
    by (simp add: iqUri_def)
qed

text \<open>
  Called with data and no time limit for \<open>addr/path\<close>, the command prints just what the request for
  that path with that data on a channel to that address is answered with.
\<close>

lemma iqTimeout_1s: "iqTimeout ''1s'' = Inr Second"
  by code_simp

theorem iq_prints_answer:
  assumes "addr \<noteq> ''''" "CHR ''/'' \<notin> set addr" "d \<noteq> ''''"
    and "connect (NewClient iqConfig addr None) = Inr channel"
    and "request channel (CHR ''/'' # path) (NewDefaultRequest (bytesOf d)) Second = Inr bts"
  shows "iqRun readFile connect request (iqDefaults\<lparr>argData := d\<rparr>) [addr @ CHR ''/'' # path] = stringOf bts"
proof -
  have "iqUri (addr @ CHR ''/'' # path) = Inr (addr, CHR ''/'' # path)"
    using assms(1,2) by (simp add: iqUri_Inr)
  then show ?thesis
    using assms(3-5) iqTimeout_1s by (simp add: iqRun_def iqMain_def iqData_def iqClient_def iqDefaults_def bindE_def)
qed

theorem iq_prints_answer_witness:
  "iqRun (\<lambda>f. Inr []) (\<lambda>cl :: (nat, nat) client. Inr (clServerAddr cl)) (\<lambda>c p r t. Inr (bytesOf (c @ p) @ reqData r))
     (iqDefaults\<lparr>argData := ''x''\<rparr>) [''h:1/echo''] = ''h:1/echox''"
  using iq_prints_answer [of "''h:1''" "''x''" "\<lambda>cl :: (nat, nat) client. Inr (clServerAddr cl)" "''h:1''"
      "\<lambda>c p r t. Inr (bytesOf (c @ p) @ reqData r)" "''echo''" "bytesOf ''h:1/echox''" "\<lambda>f. Inr []"]
  by (simp add: NewClient_def NewDefaultRequest_def bytesOf_def stringOf_def)

section \<open>Time limits\<close>

lemma loop_digits:
  "list_all isDigit ds \<Longrightarrow> iqTimeoutLoop s i (ds @ t) d = iqTimeoutLoop s (i + length ds) t d"
  by (induction ds arbitrary: i) auto

lemma digit_or_not: "\<exists>ds t. s = ds @ t \<and> list_all isDigit ds \<and> (t = [] \<or> \<not> isDigit (hd t))"
proof (intro exI conjI)
  show "s = takeWhile isDigit s @ dropWhile isDigit s" by simp
  show "list_all isDigit (takeWhile isDigit s)" by (auto simp: list_all_iff dest: set_takeWhileD)
  show "dropWhile isDigit s = [] \<or> \<not> isDigit (hd (dropWhile isDigit s))"
    using hd_dropWhile by blast
qed

lemma units_not_digits [simp]: "\<not> isDigit (CHR ''m'')" "\<not> isDigit (CHR ''s'')"
  by (simp_all add: isDigit_def)

lemma atoiDigits_unit: "atoiDigits neg (ds @ ''m'') = None"
  by (simp add: atoiDigits_def)

lemma atoi_unit: "atoi (ds @ ''m'') = None"
  using atoiDigits_unit [of True "tl ds"] atoiDigits_unit [of False "tl ds"]
    atoiDigits_unit [of False ds] atoiDigits_unit [of False "[]"]
  by (cases ds) simp_all

lemma iqTimeout_split:
  assumes "list_all isDigit ds" "t = [] \<or> \<not> isDigit (hd t)"
  shows "iqTimeout (ds @ t) =
    (if t = [] then Inr Second
     else case atoi ds of
       None \<Rightarrow> Inl invalidTimeout
     | Some n \<Rightarrow> if t = ''s'' then Inr (word_of_int n * Second) else Inl invalidTimeout)"
proof (cases t)
  case Nil
  then show ?thesis using loop_digits [OF assms(1), of "ds @ []" 0 "[]"] by (simp add: iqTimeout_def)
next
  case (Cons c u)
  then have "\<not> isDigit c" using assms(2) by simp
  then show ?thesis
    using loop_digits [OF assms(1), of "ds @ t" 0 t] atoi_unit [of ds]
    by (auto simp: iqTimeout_def Cons split: option.split)
qed

text \<open>The time limits the command takes: exactly the texts of digits only, whose number is
  ignored in favour of one second, and the numbers of 64 bits followed by the letter s, whose
  number of seconds is used (modulo 2 to the 64 nanoseconds). No time in milliseconds is ever
  accepted, because the loop goes on after the unit and trips over its second letter.\<close>

theorem iq_timeout_language:
  "iqTimeout s = Inr d \<longleftrightarrow>
     list_all isDigit s \<and> d = Second \<or>
     (\<exists>ds n. s = ds @ ''s'' \<and> list_all isDigit ds \<and> atoi ds = Some n \<and> d = word_of_int n * Second)"
proof -
  obtain ds t where s: "s = ds @ t" "list_all isDigit ds" "t = [] \<or> \<not> isDigit (hd t)"
    using digit_or_not by blast
  have all: "list_all isDigit s \<longleftrightarrow> t = []"
    using s by (cases t) auto
  have unit: "(\<exists>es n. s = es @ ''s'' \<and> list_all isDigit es \<and> atoi es = Some n \<and> d = word_of_int n * Second)
      \<longleftrightarrow> (\<exists>n. t = ''s'' \<and> atoi ds = Some n \<and> d = word_of_int n * Second)"
  proof
    assume "\<exists>es n. s = es @ ''s'' \<and> list_all isDigit es \<and> atoi es = Some n \<and> d = word_of_int n * Second"
    then obtain es n where es: "s = es @ ''s''" "list_all isDigit es" "atoi es = Some n"
      "d = word_of_int n * Second" by blast
    have "takeWhile isDigit s = es" "dropWhile isDigit s = ''s''"
      using es(1,2) by (simp_all add: list_all_iff takeWhile_append dropWhile_append)
    moreover have "takeWhile isDigit s = ds" "dropWhile isDigit s = t"
      using s by (cases t; simp add: list_all_iff takeWhile_append dropWhile_append)+
    ultimately show "\<exists>n. t = ''s'' \<and> atoi ds = Some n \<and> d = word_of_int n * Second" using es by auto
  qed (use s in blast)
  have "iqTimeout s = Inr d \<longleftrightarrow> t = [] \<and> d = Second \<or>
      (\<exists>n. t = ''s'' \<and> atoi ds = Some n \<and> d = word_of_int n * Second)"
    unfolding s(1) iqTimeout_split [OF s(2,3)] by (auto split: option.split)
  then show ?thesis by (simp only: all unit)
qed

theorem iq_timeout_language_witness:
  "iqTimeout ''500ms'' = Inl invalidTimeout \<and> iqTimeout ''20'' = Inr Second \<and>
   iqTimeout ''20s'' = Inr (20 * Second)"
proof -
  have "iqTimeout ''20s'' = Inr (20 * Second)"
    unfolding iq_timeout_language [of "''20s''"]
    by (rule disjI2, rule exI [of _ "''20''"], rule exI [of _ 20]) code_simp
  moreover have "iqTimeout ''500ms'' = Inl invalidTimeout" "iqTimeout ''20'' = Inr Second" by code_simp+
  ultimately show ?thesis by blast
qed

end
