(* ===== verification/LbSelect.thy ===== *)
theory LbSelect
  imports LbClient
begin

text \<open>
  The set of backends of the load balancing client under \<open>AddBackend\<close> and \<open>RemoveBackend\<close>, and what
  \<open>selectBackend\<close> hands out: the operations are those of the theory LbClient, this theory adds
  no model.
\<close>

section \<open>Well-formed balancers\<close>

definition wfBalancer :: "('q, 'h, 'j) balancer \<Rightarrow> bool" where
  "wfBalancer lb \<longleftrightarrow>
     (\<forall>b \<in> set (lbActive lb). b < length (lbBackends lb)) \<and> distinct (lbActive lb) \<and>
     (\<forall>alias b. map_of (lbMap lb) alias = Some b \<longrightarrow> b \<in> set (lbActive lb))"

lemma wf_New: "NewLoadBalanceClient keep maxc servers = Inr lb \<Longrightarrow> wfBalancer lb"
  by (auto simp: NewLoadBalanceClient_def wfBalancer_def Let_def split: if_splits)

lemma wf_Add: "wfBalancer lb \<Longrightarrow> wfBalancer (fst (AddBackend addr alias check lb))"
  by (auto simp: AddBackend_def wfBalancer_def Let_def update_conv' less_Suc_eq split: option.splits if_splits)

lemma AddBackend_new:
  assumes "map_of (lbMap lb) alias = None"
  shows "snd (AddBackend addr alias check lb) = None"
    "lbActive (fst (AddBackend addr alias check lb)) = lbActive lb @ [length (lbBackends lb)]"
    "map_of (lbMap (fst (AddBackend addr alias check lb))) = (map_of (lbMap lb))(alias \<mapsto> length (lbBackends lb))"
    "ecAlias (backend (fst (AddBackend addr alias check lb)) (length (lbBackends lb))) = alias"
    "\<And>b. b < length (lbBackends lb) \<Longrightarrow> backend (fst (AddBackend addr alias check lb)) b = backend lb b"
  using assms
  by (simp_all add: AddBackend_def Let_def update_conv' backend_def nth_append newBackend_def)

section \<open>The loop of RemoveBackend\<close>

lemma removeLoop_skip:
  assumes "\<forall>j < n. ecAlias (backend lb (arr ! (i + j))) \<noteq> alias"
  shows "removeLoop lb alias i (n + m) (arr, len) = removeLoop lb alias (i + n) m (arr, len)"
  using assms
proof (induction n arbitrary: i)
  case (Suc n)
  have "ecAlias (backend lb (arr ! i)) \<noteq> alias" using Suc.prems by (metis add.right_neutral zero_less_Suc)
  moreover have "\<forall>j < n. ecAlias (backend lb (arr ! (Suc i + j))) \<noteq> alias"
    using Suc.prems by (metis add_Suc_right add_Suc Suc_less_eq)
  ultimately show ?case using Suc.IH [of "Suc i"] by simp
qed simp

text \<open>An entry found at the end of the slice only.\<close>

lemma removeLoop_last:
  assumes "\<forall>b \<in> set xs. ecAlias (backend lb b) \<noteq> alias" "ecAlias (backend lb y) = alias"
  shows "removeLoop lb alias 0 (Suc (length xs)) (xs @ [y], Suc (length xs)) =
    Returned (xs @ [y], length xs)"
proof -
  have "\<forall>j < length xs. ecAlias (backend lb ((xs @ [y]) ! (0 + j))) \<noteq> alias"
    using assms(1) by (simp add: nth_append)
  from removeLoop_skip [OF this, of 1 "Suc (length xs)"] assms(2) show ?thesis by simp
qed

text \<open>A slice all of whose entries have the alias: the loop runs off its shortened end.\<close>

lemma removeLoop_all:
  assumes "\<forall>b \<in> set arr. ecAlias (backend lb b) = alias" "length arr = n" "2 * i \<le> n" "2 \<le> n"
  shows "removeLoop lb alias i (n - i) (arr, n - i) = Panicked"
  using assms
proof (induction "n - 2 * i" arbitrary: i arr rule: less_induct)
  case less
  have i: "i < n" using less.prems(3,4) by linarith
  then obtain k where k: "n - i = Suc k" by (cases "n - i") auto
  have hit: "ecAlias (backend lb (arr ! i)) = alias" using less.prems(1,2) i by simp
  have "n = 2 * i \<or> n = 2 * i + 1 \<or> 2 * (i + 1) \<le> n" using less.prems(3) by presburger
  then consider "n = 2 * i" | "n = 2 * i + 1" | "2 * (i + 1) \<le> n" by blast
  then show ?case
  proof cases
    case 1
    then show ?thesis using hit k by simp
  next
    case 2
    then obtain j where j: "i = Suc j" using less.prems(4) by (cases i) auto
    then have "ecAlias (backend lb (arr ! (i + 1))) = alias"
      using less.prems(1,2) 2 by simp
    moreover have "n - i = Suc (Suc j)" using 2 j by simp
    ultimately show ?thesis using hit by (simp add: j)
  next
    case 3
    let ?arr = "take i arr @ take (n - i - (i + 1)) (drop (i + 1) arr) @ drop (n - i - 1) arr"
    have sub: "set ?arr \<subseteq> set arr" by (auto dest: in_set_takeD in_set_dropD)
    have len: "length ?arr = n" using less.prems(2) 3 by (simp add: min_def) arith
    have k': "n - (i + 1) = k" using k by simp
    have "removeLoop lb alias (i + 1) (n - (i + 1)) (?arr, n - (i + 1)) = Panicked"
      by (rule less.hyps) (use less.prems(1,4) sub len 3 in auto)
    moreover have "int i \<noteq> int (n - i) - 1" "\<not> i + 1 > n - i" using 3 by auto
    ultimately show ?thesis using hit k k' by simp
  qed
qed

section \<open>Properties of adding and removing\<close>

text \<open>C35: A backend added under a new alias, which no backend of the list has, is appended and registered;
  removing it again succeeds and gives the list and the dictionary as they were.\<close>

theorem add_remove_backend:
  assumes "wfBalancer lb" "map_of (lbMap lb) alias = None"
    and "\<forall>b \<in> set (lbActive lb). ecAlias (backend lb b) \<noteq> alias"
  shows "\<exists>lb1 lb2. AddBackend addr alias check lb = (lb1, None) \<and>
    lbActive lb1 = lbActive lb @ [length (lbBackends lb)] \<and> map_of (lbMap lb1) alias = Some (length (lbBackends lb)) \<and>
    RemoveBackend alias lb1 = Returned (lb2, None) \<and>
    lbActive lb2 = lbActive lb \<and> map_of (lbMap lb2) = map_of (lbMap lb)"
proof -
  define lb1 where "lb1 = fst (AddBackend addr alias check lb)"
  note new = AddBackend_new [OF assms(2), where addr = addr and check = check, folded lb1_def]
  have "\<forall>b \<in> set (lbActive lb). ecAlias (backend lb1 b) \<noteq> alias"
    using assms(1,3) new(5) by (auto simp: wfBalancer_def)
  from removeLoop_last [OF this new(4)] new(2)
  have loop: "removeLoop lb1 alias 0 (length (lbActive lb1)) (lbActive lb1, length (lbActive lb1)) =
      Returned (lbActive lb1, length (lbActive lb))" by simp
  let ?lb2 = "lb1\<lparr>lbMap := AList.delete alias (lbMap lb1), lbActive := take (length (lbActive lb)) (lbActive lb1)\<rparr>"
  have "RemoveBackend alias lb1 = Returned (?lb2, None)"
    using new(3) by (simp add: RemoveBackend_def loop)
  moreover have "lbActive ?lb2 = lbActive lb" "map_of (lbMap ?lb2) = map_of (lbMap lb)"
    using new(2,3) assms(2) by (auto simp: delete_conv')
  moreover have "AddBackend addr alias check lb = (lb1, None)"
    using new(1) by (simp add: lb1_def prod_eq_iff)
  ultimately show ?thesis using new(2,3) by (intro exI [of _ lb1] exI [of _ ?lb2]) simp
qed

text \<open>The aliases that the list of servers gives are not registered, so a backend can be added under
  one of them. Removing it then takes every backend of the same alias out of the slice the loop
  ranges over: when all backends have the alias, the loop panics.\<close>

theorem same_alias_remove_panics:
  assumes "map_of (lbMap lb) alias = None" "lbActive lb \<noteq> []" "wfBalancer lb"
    and "\<forall>b \<in> set (lbActive lb). ecAlias (backend lb b) = alias"
  shows "\<exists>lb1. AddBackend addr alias check lb = (lb1, None) \<and> RemoveBackend alias lb1 = Panicked"
proof -
  define lb1 where "lb1 = fst (AddBackend addr alias check lb)"
  note new = AddBackend_new [OF assms(1), where addr = addr and check = check, folded lb1_def]
  have "\<forall>b \<in> set (lbActive lb1). ecAlias (backend lb1 b) = alias"
    using assms(3,4) new(2,4,5) by (auto simp: wfBalancer_def)
  moreover have "2 \<le> length (lbActive lb1)" using assms(2) new(2) by (cases "lbActive lb") simp_all
  ultimately have "RemoveBackend alias lb1 = Panicked"
    using removeLoop_all [of "lbActive lb1" lb1 "alias" "length (lbActive lb1)" 0] new(3) by (simp add: RemoveBackend_def)
  then show ?thesis using new(1) by (intro exI [of _ lb1]) (simp add: lb1_def prod_eq_iff)
qed

section \<open>What selectBackend hands out\<close>

text \<open>The list is not longer than 32 bits can count, and the index was not advanced past the largest
  64 bit integer.\<close>

definition selectable :: "('q, 'h, 'j) balancer \<Rightarrow> bool" where
  "selectable lb \<longleftrightarrow> lbActive lb \<noteq> [] \<and> length (lbActive lb) < 2 ^ 32 \<and> 0 \<le> sint (lbRoundrobin lb)"

lemma rem64_index:
  assumes "selectable lb"
  shows "sint (rem64 (lbRoundrobin lb) (word_of_nat (length (lbActive lb)))) =
    sint (lbRoundrobin lb) mod int (length (lbActive lb))"
proof -
  let ?n = "length (lbActive lb)"
  have n: "0 < ?n" "?n < 2 ^ 63" "0 \<le> sint (lbRoundrobin lb)"
    using assms by (auto simp: selectable_def)
  then have nn: "int ?n < 2 ^ 63" by simp
  have s: "sint (word_of_nat ?n :: i64) = int ?n"
    using n(2) by (simp add: signed_of_nat signed_take_bit_int_eq_self)
  have m: "0 \<le> sint (lbRoundrobin lb) mod int ?n" "sint (lbRoundrobin lb) mod int ?n < int ?n"
    using n by simp_all
  have "sint (lbRoundrobin lb) smod int ?n = sint (lbRoundrobin lb) mod int ?n"
    using n by (cases "sint (lbRoundrobin lb) = 0") (auto simp: signed_modulo_int_def sgn_if)
  moreover have "signed_take_bit 63 (sint (lbRoundrobin lb) mod int ?n) = sint (lbRoundrobin lb) mod int ?n"
    by (rule signed_take_bit_int_eq_self) (use m nn in linarith)+
  ultimately show ?thesis unfolding rem64_def s by (simp add: signed_of_int)
qed

lemma activeAt_in: "0 \<le> i \<Longrightarrow> i < int (length (lbActive lb)) \<Longrightarrow>
    activeAt lb i = Returned (lbActive lb ! nat i) \<and> lbActive lb ! nat i \<in> set (lbActive lb)"
  by (simp add: activeAt_def nat_less_iff)

lemma mod_index:
  assumes "selectable lb"
  shows "0 \<le> sint (lbRoundrobin lb) mod int (length (lbActive lb))"
    "sint (lbRoundrobin lb) mod int (length (lbActive lb)) < int (length (lbActive lb))"
  using assms by (simp_all add: selectable_def)

lemma hash_index:
  assumes "selectable lb"
  shows "0 \<le> uint (h mod word_of_nat (length (lbActive lb)) :: u32)"
    "uint (h mod word_of_nat (length (lbActive lb)) :: u32) < int (length (lbActive lb))"
proof -
  have "uint (word_of_nat (length (lbActive lb)) :: u32) = int (length (lbActive lb))"
    using assms by (simp add: selectable_def unsigned_of_nat take_bit_nat_eq_self)
  then show "uint (h mod word_of_nat (length (lbActive lb)) :: u32) < int (length (lbActive lb))"
    using assms by (simp add: uint_mod selectable_def)
qed simp

text \<open>The position \<open>minPendingLoop\<close> ends at.\<close>

lemma minPendingLoop_least:
  assumes "0 \<le> idx" "idx < int (length (lbActive lb))" "0 \<le> minIdx" "minIdx < int (length (lbActive lb))"
    and "minPending = PendingRequests (backend lb (lbActive lb ! nat minIdx))"
  shows "\<exists>i. minPendingLoop lb n idx minIdx minPending = Returned i \<and> 0 \<le> i \<and> i < int (length (lbActive lb)) \<and>
    sint (PendingRequests (backend lb (lbActive lb ! nat i))) \<le> sint minPending \<and>
    (\<forall>k < n. sint (PendingRequests (backend lb (lbActive lb ! nat i))) \<le>
       sint (PendingRequests (backend lb (lbActive lb ! nat ((idx + 1 + int k) mod int (length (lbActive lb)))))))"
  using assms
proof (induction n arbitrary: idx minIdx minPending)
  case (Suc n)
  let ?len = "int (length (lbActive lb))" and ?p = "\<lambda>j. sint (PendingRequests (backend lb (lbActive lb ! nat j)))"
  define idx' where "idx' = (if idx + 1 \<ge> ?len then 0 else idx + 1)"
  have r: "0 \<le> idx'" "idx' < ?len" "idx' = (idx + 1) mod ?len"
  proof -
    show "0 \<le> idx'" using Suc.prems(1) by (simp add: idx'_def)
    show "idx' < ?len" using Suc.prems(1,2) by (auto simp: idx'_def)
    show "idx' = (idx + 1) mod ?len"
    proof (cases "idx + 1 = ?len")
      case True
      then have "idx' = 0" "(idx + 1) mod ?len = 0" by (simp_all add: idx'_def)
      then show ?thesis by simp
    next
      case False
      then have "idx + 1 < ?len" using Suc.prems(2) by linarith
      then show ?thesis using Suc.prems(1) by (simp add: idx'_def mod_pos_pos_trivial)
    qed
  qed
  have at: "activeAt lb idx' = Returned (lbActive lb ! nat idx')" using activeAt_in r(1,2) by blast
  have cyc: "(idx' + 1 + int k) mod ?len = (idx + 1 + int (Suc k)) mod ?len" for k
    unfolding r(3) using mod_add_left_eq [of "idx + 1" ?len "1 + int k"] by (simp add: ac_simps)
  obtain m where m: "m = (if ?p idx' < sint minPending then idx' else minIdx)" by simp
  have step: "minPendingLoop lb (Suc n) idx minIdx minPending =
      minPendingLoop lb n idx' m (PendingRequests (backend lb (lbActive lb ! nat m)))"
    using at Suc.prems(5) by (simp add: idx'_def [symmetric] Let_def m)
  have m': "0 \<le> m" "m < ?len" "?p m \<le> sint minPending" "?p m \<le> ?p idx'"
    using r Suc.prems(3-5) by (auto simp: m)
  from Suc.IH [OF r(1,2) m'(1,2) refl] obtain i where i:
    "minPendingLoop lb n idx' m (PendingRequests (backend lb (lbActive lb ! nat m))) = Returned i"
    "0 \<le> i" "i < ?len" "?p i \<le> ?p m" "\<forall>k < n. ?p i \<le> ?p ((idx' + 1 + int k) mod ?len)" by blast
  have "?p i \<le> ?p ((idx + 1 + int k) mod ?len)" if "k < Suc n" for k
    using that i(4,5) m'(4) r(3) cyc by (cases k) (auto intro: order_trans)
  with i m'(3) step show ?case by (intro exI [of _ i]) auto
qed simp

lemma cyclic_cover:
  assumes "0 < n" "j < n" "0 \<le> i"
  shows "\<exists>k < n. (i + 1 + int k) mod int n = int j"
proof -
  define k where "k = nat ((int j - i - 1) mod int n)"
  have k: "int k = (int j - i - 1) mod int n" using assms(1) by (simp add: k_def)
  then have "(i + 1 + int k) mod int n = (i + 1 + (int j - i - 1)) mod int n"
    by (simp only: mod_add_right_eq)
  then have "(i + 1 + int k) mod int n = int j" using assms(2) by simp
  moreover have "k < n" using k assms(1) pos_mod_bound [of "int n" "int j - i - 1"] by linarith
  ultimately show ?thesis by blast
qed

lemma selectBackendMinPending_result:
  assumes "selectable lb"
  shows "\<exists>b. selectBackendMinPending lb = (lb\<lparr>lbRoundrobin := lbRoundrobin lb + 1\<rparr>, Returned b) \<and>
    b \<in> set (lbActive lb) \<and>
    (sint (PendingRequests (backend lb b)) \<le> 0 \<or>
     (\<forall>c \<in> set (lbActive lb). sint (PendingRequests (backend lb b)) \<le> sint (PendingRequests (backend lb c))))"
proof -
  let ?lb = "lb\<lparr>lbRoundrobin := lbRoundrobin lb + 1\<rparr>"
  let ?len = "int (length (lbActive lb))" and ?i = "sint (lbRoundrobin lb) mod int (length (lbActive lb))"
  note i = mod_index [OF assms]
  have at: "activeAt ?lb j = activeAt lb j" for j by (simp add: activeAt_def)
  have be: "backend ?lb b = backend lb b" for b by (simp add: backend_def)
  define b where "b = lbActive lb ! nat ?i"
  have b: "activeAt lb ?i = Returned b" "b \<in> set (lbActive lb)"
    using activeAt_in [OF i] by (simp_all add: b_def)
  show ?thesis
  proof (cases "sint (PendingRequests (backend lb b)) > 0")
    case False
    then show ?thesis
      using b by (intro exI [of _ b]) (simp add: selectBackendMinPending_def rem64_index [OF assms] at be Let_def)
  next
    case True
    have i': "0 \<le> ?i" "?i < int (length (lbActive ?lb))" using i by simp_all
    from minPendingLoop_least [OF i' i', of "PendingRequests (backend lb b)" "length (lbActive lb)"]
    obtain j where j: "minPendingLoop ?lb (length (lbActive lb)) ?i ?i (PendingRequests (backend lb b)) = Returned j"
      "0 \<le> j" "j < ?len" and least: "\<forall>k < length (lbActive lb).
        sint (PendingRequests (backend lb (lbActive lb ! nat j))) \<le>
        sint (PendingRequests (backend lb (lbActive lb ! nat ((?i + 1 + int k) mod ?len))))"
      by (auto simp: be b_def)
    have "sint (PendingRequests (backend lb (lbActive lb ! nat j))) \<le> sint (PendingRequests (backend lb c))"
      if c: "c \<in> set (lbActive lb)" for c
    proof -
      from c obtain p where p: "p < length (lbActive lb)" "lbActive lb ! p = c" by (auto simp: in_set_conv_nth)
      then have "0 < length (lbActive lb)" by linarith
      from cyclic_cover [OF this p(1) i(1)] obtain k where
        "k < length (lbActive lb)" "(?i + 1 + int k) mod ?len = int p" by blast
      with least p(2) show ?thesis by (metis nat_int)
    qed
    then show ?thesis
      using activeAt_in [OF j(2,3)] b(1) True j(1)
      by (intro exI [of _ "lbActive lb ! nat j"])
        (simp add: selectBackendMinPending_def rem64_index [OF assms] at be Let_def)
  qed
qed

section \<open>Properties of selecting\<close>

text \<open>The selection by pending requests: it returns a backend of the list that nobody waits for or,
  when the one whose turn it is has requests pending, one with the least number of pending
  requests among all; the turn advances by one.\<close>

theorem min_pending_least:
  assumes "selectable lb"
  shows "\<exists>b. selectBackendMinPending lb = (lb\<lparr>lbRoundrobin := lbRoundrobin lb + 1\<rparr>, Returned b) \<and>
    b \<in> set (lbActive lb) \<and>
    (sint (PendingRequests (backend lb b)) \<le> 0 \<or>
     (\<forall>c \<in> set (lbActive lb). sint (PendingRequests (backend lb b)) \<le> sint (PendingRequests (backend lb c))))"
  by (rule selectBackendMinPending_result [OF assms])

lemma methods_in_list:
  assumes "selectable lb" "rnd < length (lbActive lb)"
  shows "\<exists>b \<in> set (lbActive lb). selectBackendRoundrobin lb = (lb\<lparr>lbRoundrobin := lbRoundrobin lb + 1\<rparr>, Returned b)"
    "\<exists>b \<in> set (lbActive lb). selectBackendRandom rnd lb = Returned b"
    "\<exists>b \<in> set (lbActive lb). selectBackendMinPending lb = (lb\<lparr>lbRoundrobin := lbRoundrobin lb + 1\<rparr>, Returned b)"
    "\<exists>b \<in> set (lbActive lb). selectBackendIpHash s lb = Returned b"
    "\<exists>b \<in> set (lbActive lb). selectBackendParam s lb = Returned b"
  using activeAt_in [OF mod_index [OF assms(1)]] activeAt_in [of "int rnd" lb] assms(2)
    selectBackendMinPending_result [OF assms(1)] activeAt_in [OF hash_index [OF assms(1)]]
  by (auto simp: selectBackendRoundrobin_def rem64_index [OF assms(1)] selectBackendRandom_def
      selectBackendIpHash_def selectBackendParam_def Let_def)

lemma turn_stays:
  assumes "selectable lb" "sint (lbRoundrobin lb) < 2 ^ 63 - 1"
  shows "selectable (lb\<lparr>lbRoundrobin := lbRoundrobin lb + 1\<rparr>)"
proof -
  have "sint (lbRoundrobin lb + 1) = sint (lbRoundrobin lb) + 1"
    using assms(2) sint_ge [of "lbRoundrobin lb"]
    by (simp add: sint_word_ariths signed_take_bit_int_eq_self)
  with assms show ?thesis by (simp add: selectable_def)
qed

text \<open>What a safe selection gives: it returns, an error or a backend of the list; the balancer is
  well-formed with the same list, and the turn stays or advances by one.\<close>

definition safeSelection ::
    "('q, 'h, 'j) balancer \<Rightarrow> (('q, 'h, 'j) balancer \<times> ('d, 'w) jsonExpState) \<times> (gerr + nat) outcome \<Rightarrow> bool" where
  "safeSelection lb = (\<lambda>((lb', st'), res). res \<noteq> Panicked \<and>
     wfBalancer lb' \<and> lbActive lb' = lbActive lb \<and>
     (lbRoundrobin lb' = lbRoundrobin lb \<or> lbRoundrobin lb' = lbRoundrobin lb + 1) \<and>
     (\<forall>b. res = Returned (Inr b) \<longrightarrow> b \<in> set (lbActive lb) \<and> b < length (lbBackends lb)))"

lemma safe_if:
  "(b \<Longrightarrow> safeSelection lb x) \<Longrightarrow> (\<not> b \<Longrightarrow> safeSelection lb y) \<Longrightarrow> safeSelection lb (if b then x else y)"
  by simp

text \<open>The URI is registered in a nil dictionary and the package panics on it.\<close>

definition nilRegister ::
    "(string \<Rightarrow> gerr + string \<times> url_values) \<Rightarrow>
     ('d option \<Rightarrow> string \<Rightarrow> string \<times> url_values \<Rightarrow> 'w \<Rightarrow> 'w outcome) \<Rightarrow> string \<Rightarrow>
     ('q, 'h, 'j) balancer \<Rightarrow> ('d, 'w) jsonExpState \<Rightarrow> bool" where
  "nilRegister parse register uri lb st \<longleftrightarrow>
     lbActive lb \<noteq> [] \<and> lbMethod lb = MethodJsonExp \<and> jsonExpDict st = None \<and>
     (\<exists>u. parse uri = Inr u \<and> register None JsonExpObjectURI u (jsonExpWorld st) = Panicked)"

lemma selectBackend_panics:
  "nilRegister parse register uri lb st \<Longrightarrow>
     snd (selectBackend parse register groupOf execute rnd clientIp uri (lb, st)) = Panicked"
  by (auto simp: nilRegister_def selectBackend_def method_defs)

lemma selectBackend_safely:
  assumes "wfBalancer lb" and "lbActive lb = [] \<or> selectable lb"
    and "lbActive lb = [] \<or> rnd < length (lbActive lb)"
    and "\<And>d k u w. register (Some d) k u w \<noteq> Panicked"
    and noNil: "\<not> nilRegister parse register uri lb st"
  shows "safeSelection lb (selectBackend parse register groupOf execute rnd clientIp uri (lb, st))"
proof (cases "lbActive lb = []")
  case True
  then show ?thesis using assms(1) by (simp add: selectBackend_def safeSelection_def)
next
  case False
  then have sel: "selectable lb" and rnd: "rnd < length (lbActive lb)" using assms(2,3) by simp_all
  have inList: "b < length (lbBackends lb)" if "b \<in> set (lbActive lb)" for b
    using that assms(1) by (simp add: wfBalancer_def)
  have wf': "wfBalancer (lb\<lparr>lbRoundrobin := x\<rparr>)" for x using assms(1) by (simp add: wfBalancer_def)
  have ret: "returned (Returned b) = Returned (Inr b)" for b by (simp add: returned_def)
  have err: "safeSelection lb ((lb, t), Returned (Inl e))" for e and t :: "('d, 'w) jsonExpState"
    using assms(1) by (simp add: safeSelection_def)
  have here: "safeSelection lb ((lb, t), returned r)"
    if "\<exists>b \<in> set (lbActive lb). r = Returned b" for r and t :: "('d, 'w) jsonExpState"
    using that assms(1) inList by (auto simp: safeSelection_def ret)
  have turn: "safeSelection lb (case r of (lb1, b) \<Rightarrow> ((lb1, st), returned b))"
    if "\<exists>b \<in> set (lbActive lb). r = (lb\<lparr>lbRoundrobin := lbRoundrobin lb + 1\<rparr>, Returned b)" for r
    using that wf' inList by (auto simp: safeSelection_def ret)
  have expr: "safeSelection lb (case selectBackendJsonExp groupOf execute lb w of
      (w1, r) \<Rightarrow> ((lb, st\<lparr>jsonExpWorld := w1\<rparr>), Returned r))" for w
    using assms(1)
    by (auto simp: safeSelection_def selectBackendJsonExp_def wfBalancer_def
        split: option.splits sum.splits prod.splits)
  note m = methods_in_list [OF sel rnd]
  have reg: "safeSelection lb (case register (jsonExpDict st) JsonExpObjectURI u (jsonExpWorld st) of
      Panicked \<Rightarrow> ((lb, st), Panicked)
    | Returned w \<Rightarrow> (case selectBackendJsonExp groupOf execute lb w of
        (w1, r) \<Rightarrow> ((lb, st\<lparr>jsonExpWorld := w1\<rparr>), Returned r)))"
    if "parse uri = Inr u" "lbMethod lb = MethodJsonExp" for u
    using noNil [unfolded nilRegister_def] False that expr assms(4)
    by (cases "jsonExpDict st"; cases "register (jsonExpDict st) JsonExpObjectURI u (jsonExpWorld st)") auto
  show ?thesis
    unfolding selectBackend_def prod.case
    by (intro safe_if) (use False err here [OF m(2)] here [OF m(4)] here [OF m(5)] turn [OF m(1)]
      turn [OF m(3)] reg in \<open>auto split: sum.split\<close>)
qed

lemma safe_turn:
  assumes "safeSelection lb ((lb', st'), res)" and sel: "selectable lb"
    and "sint (lbRoundrobin lb) < 2 ^ 63 - 1"
  shows "selectable lb'"
proof -
  from assms(1) have "lbActive lb' = lbActive lb"
    "lbRoundrobin lb' = lbRoundrobin lb \<or> lbRoundrobin lb' = lbRoundrobin lb + 1"
    by (simp_all add: safeSelection_def)
  then show ?thesis using sel turn_stays [OF sel assms(3)] by (auto simp: selectable_def)
qed

text \<open>C34: Type safety of the selection: with every method, known or not, \<open>selectBackend\<close> on a well-formed
  balancer (its turn index not negative, the random number in range) returns an error or a backend of the
  list, and never reads outside the list; the balancer stays well-formed with the same list, and its
  turn index, which advances by at most one, stays usable below the largest 64 bit number. The
  one exception is the method by expressions before any \<open>DoRequest\<close> made the dictionary: then
  the URI is registered in a nil dictionary, and when \<open>RegisterObject\<close> panics on nil, the selection does.\<close>

theorem selectBackend_safe:
  assumes "wfBalancer lb" and "lbActive lb = [] \<or> selectable lb"
    and "lbActive lb = [] \<or> rnd < length (lbActive lb)"
    and "\<And>d k u w. register (Some d) k u w \<noteq> Panicked"
    and "selectBackend parse register groupOf execute rnd clientIp uri (lb, st) = ((lb', st'), res)"
  shows "if lbActive lb \<noteq> [] \<and> lbMethod lb = MethodJsonExp \<and> jsonExpDict st = None \<and>
      (\<exists>u. parse uri = Inr u \<and> register None JsonExpObjectURI u (jsonExpWorld st) = Panicked)
    then res = Panicked
    else res \<noteq> Panicked \<and> wfBalancer lb' \<and> lbActive lb' = lbActive lb \<and>
      (lbRoundrobin lb' = lbRoundrobin lb \<or> lbRoundrobin lb' = lbRoundrobin lb + 1) \<and>
      (lbActive lb \<noteq> [] \<and> sint (lbRoundrobin lb) < 2 ^ 63 - 1 \<longrightarrow> selectable lb') \<and>
      (\<forall>b. res = Returned (Inr b) \<longrightarrow> b \<in> set (lbActive lb) \<and> b < length (lbBackends lb))"
proof (cases "nilRegister parse register uri lb st")
  case True
  from selectBackend_panics [OF this, of groupOf execute rnd clientIp] show ?thesis
    using True unfolding assms(5) nilRegister_def by simp
next
  case False
  from selectBackend_safely [OF assms(1-4) this, of groupOf execute clientIp] have
    s: "safeSelection lb ((lb', st'), res)" unfolding assms(5) .
  have "lbActive lb \<noteq> [] \<and> sint (lbRoundrobin lb) < 2 ^ 63 - 1 \<longrightarrow> selectable lb'"
    using safe_turn [OF s] assms(2) by blast
  then show ?thesis using s False unfolding nilRegister_def safeSelection_def prod.case by argo
qed

text \<open>A balancer of two servers, used by the witnesses, and a backend of its own.\<close>

lemma twoBalancer_wf: "wfBalancer twoBalancer" "selectable twoBalancer"
proof -
  show "wfBalancer twoBalancer" by (rule wf_New [OF twoBalancer_made])
  show "selectable twoBalancer"
    using twoBalancer_rr by (auto simp: selectable_def)
qed

theorem min_pending_least_witness:
  "\<exists>b. selectBackendMinPending twoBalancer =
      (twoBalancer\<lparr>lbRoundrobin := lbRoundrobin twoBalancer + 1\<rparr>, Returned b) \<and> b \<in> set (lbActive twoBalancer)"
  using min_pending_least [OF twoBalancer_wf(2)] by blast

text \<open>Two states of a balancer that selects by expressions: before and after \<open>doInit\<close>. The package of the
  witness has one dictionary and panics on nil.\<close>

theorem selectBackend_safe_witness:
  "\<exists>lb' res. snd (selectBackend (\<lambda>p. Inr (p, [])) (\<lambda>d k u w. if d = None then Panicked else Returned [u])
        (\<lambda>j. None :: unit option) (\<lambda>g w. (w, Inr None)) 0 ''10.0.0.1'' ''/a''
        (twoBalancer\<lparr>lbMethod := MethodJsonExp\<rparr>, \<lparr>jsonExpDict = None :: unit option, jsonExpWorld = []\<rparr>)) = Panicked \<and>
     fst (fst (selectBackend (\<lambda>p. Inr (p, [])) (\<lambda>d k u w. if d = None then Panicked else Returned [u])
        (\<lambda>j. None :: unit option) (\<lambda>g w. (w, Inr None)) 0 ''10.0.0.1'' ''/a''
        (twoBalancer\<lparr>lbMethod := MethodIpHash\<rparr>, doInit (\<lambda>w. ((), w)) (\<lambda>d v w. w) \<lparr>jsonExpDict = None, jsonExpWorld = []\<rparr>))) = lb' \<and>
     wfBalancer lb' \<and> selectable lb'"
proof -
  let ?parse = "\<lambda>p. Inr (p, []) :: gerr + string \<times> url_values"
  let ?reg = "\<lambda>d (k :: string) u w. if d = (None :: unit option) then Panicked else Returned [u :: string \<times> url_values]"
  let ?st = "\<lparr>jsonExpDict = None :: unit option, jsonExpWorld = []\<rparr>"
  let ?s = "selectBackend ?parse ?reg (\<lambda>j. None :: unit option) (\<lambda>g w. (w, Inr None)) 0 ''10.0.0.1'' ''/a''"
  let ?lb = "\<lambda>m. twoBalancer\<lparr>lbMethod := m\<rparr>"
  have ok: "wfBalancer (?lb m)" "selectable (?lb m)" "0 < length (lbActive (?lb m))"
    "lbRoundrobin (?lb m) = 0" "lbActive (?lb m) \<noteq> []" for m
    using twoBalancer_wf twoBalancer_rr by (auto simp: wfBalancer_def selectable_def)
  have some: "\<And>d k u w. ?reg (Some d) k u w \<noteq> Panicked" by simp
  obtain lb1 st1 r1 where 1: "?s (?lb MethodJsonExp, ?st) = ((lb1, st1), r1)" by (metis surj_pair)
  have "r1 = Panicked"
    using selectBackend_safe [OF ok(1) _ _ some 1] ok by simp
  moreover obtain lb2 st2 r2 where
    2: "?s (?lb MethodIpHash, doInit (\<lambda>w. ((), w)) (\<lambda>d v w. w) ?st) = ((lb2, st2), r2)" by (metis surj_pair)
  have "wfBalancer lb2 \<and> selectable lb2"
    using selectBackend_safe [OF ok(1) _ _ some 2] ok by (simp add: doInit_def)
  ultimately show ?thesis using 1 2 by auto
qed

theorem add_remove_backend_witness:
  "\<exists>lb1 lb2. AddBackend ''b:1'' ''spare'' None twoBalancer = (lb1, None) \<and>
    RemoveBackend ''spare'' lb1 = Returned (lb2, None) \<and> lbActive lb2 = lbActive twoBalancer"
proof -
  have "lbMap twoBalancer = []" "\<forall>b \<in> set (lbActive twoBalancer). ecAlias (backend twoBalancer b) \<noteq> ''spare''"
    by code_simp+
  with add_remove_backend [OF twoBalancer_wf(1), of "''spare''" "''b:1''" None] show ?thesis by auto
qed

theorem same_alias_remove_panics_witness:
  "\<exists>lb lb1. (NewLoadBalanceClient 1 4 ''a:1#1'' :: gerr + (nat, nat, unit) balancer) = Inr lb \<and>
    AddBackend ''b:1'' ''a:1-0-0'' None lb = (lb1, None) \<and> RemoveBackend ''a:1-0-0'' lb1 = Panicked"
proof -
  have p: "parseServers ''a:1#1'' = [(''a:1'', 1)]" by code_simp
  have w: "weightLoop [Suc 0] = [0]" by code_simp
  have al: "backendAlias ''a:1'' 0 0 = ''a:1-0-0''" by code_simp
  obtain lb :: "(nat, nat, unit) balancer" where lb: "NewLoadBalanceClient 1 4 ''a:1#1'' = Inr lb"
    and f: "lbMap lb = []" "lbActive lb = [0]" "lbBackends lb = [newBackend ''a:1-0-0'' 0 None]"
    by (simp add: NewLoadBalanceClient_def p w al Let_def)
  have "\<forall>b \<in> set (lbActive lb). ecAlias (backend lb b) = ''a:1-0-0''"
    using f by (simp add: backend_def newBackend_def)
  with same_alias_remove_panics [of lb "''a:1-0-0''" "''b:1''" None] f wf_New [OF lb] lb
  show ?thesis by auto
qed

end
