(* ===== verification/Spec2Isabelle.thy ===== *)
theory Spec2Isabelle
  imports Programs Log Iq LbSelect
begin

text \<open>
  A verification development for the Go package iip, a request and response protocol over TCP with
  several channels in one connection, and for the programs that come with it.

  \<^bold>\<open>The program.\<close> A client opens connections to a server (\<open>client.go\<close>, \<open>server.go\<close>). Each connection
  carries channels; channel 0 is the system channel, on which the client asks for more. A request
  or a response is one packet or, when it is large, several parts with statuses that tell first,
  middle and last ones (\<open>protocol.go\<close>). Each connection has a read loop, which puts packets into the
  queue of their channel, and a write loop, which takes packets from one queue; each channel has a
  loop that joins the parts and calls the handler of the path (\<open>handle.go\<close>). On the client the queue
  of uncompleted requests of a channel pairs responses with requests. Counters and a ring of five
  minutes of seconds keep statistics (\<open>statis.go\<close>). A load balancing client (\<open>lbclient.go\<close>) chooses
  among servers, an HTTP adapter (\<open>httpadapter\<close>) hands HTTP requests to it.

  \<^bold>\<open>How the code is modelled.\<close> A struct is a record, an object that others refer to has an address in
  a list: channels in a connection, requests and notify channels in a client world, connections in
  a client, backends in a balancer. A method is a function from the state to the state after it
  and its results. Errors are values of \<open>gerr\<close>; a function that may panic returns an \<open>outcome\<close>. Integers
  of the code are words of their width, durations are nanoseconds of 64 bits; strings are lists of
  bytes as characters. A goroutine is a function for one round of its loop; what runs in between is
  an argument (\<open>env\<close>) or a step of an inductive relation. A critical section is one function, so that
  the steps interleave as the locks allow; \<open>Channel.Close\<close> and \<open>Connection.Close\<close> are split into the
  mark, the removal from the dictionary, and the rest, and the whole call is their composition. Nondeterminism of Go (the order of a range over a
  dictionary, what a pool returns, random numbers) is an argument \<open>pick\<close>, \<open>rnd\<close>.

  \<^bold>\<open>Theories and sources.\<close>
  \<^item> Iip_Prelude: errors, bytes and characters, decimal numbers, big endian words, and the generic
    locales of codecs and of step relations with reachability. Consts: \<open>consts.go\<close>, \<open>variants.go\<close>.
  \<^item> Bufio: the buffered reader of package bufio, as \<open>protocol.go\<close> uses it, over a reader that gives its
    bytes in pieces; its operations agree with plain reading of the bytes to come.
  \<^item> Wire: \<open>Packet\<close>, \<open>CreateNetPacket\<close>, and reading a packet: \<open>decodePacket\<close> from the bytes to come, as the
    read loops do, which keep their buffered reader, and \<open>ReadPacket\<close>, which makes one and drops it.
    Status: the checks of the statuses of both sides, against a language of whole messages.
  \<^item> Statis: \<open>Count\<close>, \<open>TimeCount\<close>, \<open>Measure\<close> and \<open>Measure.String\<close> of \<open>statis.go\<close>. Shared: their texts.
  \<^item> Utils: \<open>utils.go\<close>: contexts, default requests, the pool of notify channels.
  \<^item> Conn: \<open>Connection\<close> and \<open>Channel\<close>, the allocation of ids, creation and closing. Send: \<open>SendPacket\<close>
    with its splitting, the write loop. ReadLoop: both read loops over one body. Handle: the
    dictionaries of handlers and the dispatch of \<open>handle.go\<close>. ServerLoop, ClientLoop: the loops of a
    channel on the two sides.
  \<^item> Client: \<open>client.go\<close>. Its slice of connections is modelled with the array it shares with the range
    of \<open>Close\<close>. ClientRequest: what \<open>DoRequest\<close> leads to. EndToEnd: a request and its response through
    all six loops. Handshake: \<open>Client.newChannel\<close> with the server's part of it. Conversation: requests
    one after the other, on a channel that was asked for. NewChannel: dialling and \<open>Client.NewChannel\<close>.
  \<^item> Server: \<open>server.go\<close>: accepting, serving, \<open>Stop\<close>, registration, statistics, system paths.
  \<^item> LbClient: \<open>lbclient.go\<close>. LbSelect: its set of backends and what its selection hands out.
  \<^item> HttpAdapter: \<open>httpadapter/http_server.go\<close>. HeaderArg: the argument with the HTTP headers, both
    directions. JsonExpRoute: \<open>httpadapter/jsonexp_route.go\<close>.
  \<^item> Log: \<open>log.go\<close>. Iq: the command of \<open>iq/iq.go\<close>. Download, Upload, Echo: the handlers of the examples
    and the exchanges they run. Programs: the servers, adapters and clients that the \<open>main\<close> functions
    of the examples and of \<open>httpadapter/main\<close> set up, and the daemon of the echo server.

  \<^bold>\<open>Contracts.\<close> Each interface is a locale with its laws, interpreted on the model: contexts in Utils,
  counters in Statis (counts and ranges), status checks in Status (both sides), the packet codec in Wire,
  dictionaries of handlers in Handle (client and server), read loops in ReadLoop (both), step relations
  with an invariant in Iip_Prelude (channel ids in Conn, connections in Client and Server, statistics
  in Server, channels per connection in NewChannel). The properties use the facts of the interpretations.

  \<^bold>\<open>What the lemmas show.\<close>
  \<^item> The packet format is read back as written, every accepted input is a written packet, every proper
    prefix is refused; a path with a NUL byte is the exception the writer lets through. \<open>ReadPacket\<close>
    takes more than its packet out of the reader and drops it.
  \<^item> A stream of packets is delivered to the queues of the channels, in order, by the read loops; the
    write loop writes the queue in order; a whole request, split or not, is answered once with the
    answer of its handler; a whole response wakes the caller of the oldest request. Together: a
    request comes back with exactly what its handler answers and both sides are idle again, so every
    request of a conversation does, and so a session goes: a channel is asked for and conversed on.
  \<^item> Channel ids are unique under every interleaving of the critical sections until all ids are handed out
    and none is free (a flag in the state says whether this was ever met), when id 0 is given out
    again; a created channel has the same id on both sides as long as no side has closed one, and
    not afterwards.
  \<^item> The three rings of a \<open>Measure\<close> (requests, durations, range counts) are the window of the last 300
    seconds that its ticker has seen; the lifetime totals and ranges are those of all that was
    added; the figures printed leave out one slot. The counters of a server are the sums of those of its paths.
  \<^item> Client and server never hold more connections than configured. The client holds exactly its open ones
    between calls; the server those that are open or about to be removed, unless a peer comes back
    from the address of such a connection (a flag in the state), which can lose one. A connection
    of a client has at most as many channels as configured when they are asked for one after the
    other, and one more for each further call that is under way at the same time.
  \<^item> The list of servers is expanded by weight as a reference definition says; the choice of a backend is
    one that is available with the least pending requests; in a round each server is chosen as often
    as its weight; every selection method stays inside the list, and only the method by expressions
    can panic, before the first \<open>DoRequest\<close> made its dictionary.
  \<^item> Downloads and uploads end with the whole file; the echo programs return each line the scanner of the
    client reads; HTTP headers come
    back from the server of the adapter's test. Theorems that state a fault (a caller that gets
    nothing, a loop without end, a crash) name it in their text, with the state that leads to it.

  \<^bold>\<open>Parameters.\<close> Code outside the repository is an argument: \<open>url.Parse\<close> (\<open>parse\<close>), the JSON decoders
  (\<open>unmarshal\<close>), package regexp, package jsonexp (its dictionaries, configurations, groups and values are type
  variables, its operations arguments), the \<open>LinkedList\<close> of goutil (\<open>ops\<close>, with \<open>fifoOps\<close> the
  laws of a queue), the result of dialling and of accepting, the socket (\<open>writer\<close>), the files of the
  examples. Handlers of applications are the argument \<open>run\<close>, which may panic. Hypotheses about them
  (a decoder reads back what the encoder wrote) are met by the concrete decoders of the witnesses.

  \<^bold>\<open>Bounds and fuel.\<close> Loops that end are structural recursions or have a termination proof; the loop of
  \<open>RemoveRoute\<close>, which may run for ever, is a partial function into \<open>option\<close>, and a theorem says when
  it returns. The exchanges of the file examples take the number of exchanges allowed: one for each
  piece (10236 bytes for a download, 10 MiB for an upload) and one more are proved to be enough. The
  loop over the weights of servers is a function with a termination proof: each round lowers a weight.

  \<^bold>\<open>Not modelled.\<close> The sockets, TLS and dialling themselves (only their results), time: a timer that
  fires is a case of its own. The text of log messages in the library, and what the servers print;
  the output of the default logger, of iq and of the \<open>main\<close> of the echo client, and the texts of
  statistics are modelled; how the lines that the handler of the echo client prints fall between those of
  its \<open>main\<close> is not. Programs are modelled up to the state in which they wait; processes, signals, \<open>net/http\<close>,
  the flag package and the usage text of iq are not. Data races outside the critical sections: fields that the code reads and
  writes without a lock are read and written in one step. In JSON texts, bytes that are not valid
  UTF-8 are left as they are, and times stand in the form the texts of the code give them.
\<close>

end
